(* ===== verification/Prelude.thy ===== *)
theory Prelude
  imports Main "HOL-Library.Word" "HOL-Library.AList"
begin

text \<open>
  Shared vocabulary of the development: the Rust types every component uses
  (\<open>Poll\<close>, \<open>Result\<close>, \<open>u64\<close>, instants and durations), the outcome of a call that may panic
  or loop, a Rust \<open>loop\<close> with fuel, and a small weakest-precondition calculus
  (\<open>holds\<close>, \<open>yields\<close>) in which the component proofs are carried out.
\<close>

section \<open>Rust types\<close>

type_synonym u64 = "64 word"

text \<open>\<^verbatim>\<open>std::task::Poll\<close>.\<close>

datatype 'a poll = Pending | Ready 'a

text \<open>\<^verbatim>\<open>std::result::Result\<close>.\<close>

datatype ('a, 'e) result = Ok 'a | Err 'e

text \<open>\<^verbatim>\<open>Result::map_err\<close>, and the lifting of it that \<^verbatim>\<open>std\<close> defines on
  \<^verbatim>\<open>Poll<Result<_, _>>\<close> and \<^verbatim>\<open>Poll<Option<Result<_, _>>>\<close>.\<close>

fun map_err :: "('e \<Rightarrow> 'f) \<Rightarrow> ('a, 'e) result \<Rightarrow> ('a, 'f) result" where
  "map_err f (Ok a) = Ok a"
| "map_err f (Err e) = Err (f e)"

fun poll_map :: "('a \<Rightarrow> 'b) \<Rightarrow> 'a poll \<Rightarrow> 'b poll" where
  "poll_map f Pending = Pending"
| "poll_map f (Ready a) = Ready (f a)"

fun is_ready :: "'a poll \<Rightarrow> bool" where
  "is_ready Pending = False"
| "is_ready (Ready a) = True"

lemma poll_map_eq_iff [simp]:
  "poll_map f p = Pending \<longleftrightarrow> p = Pending"
  "poll_map f p = Ready b \<longleftrightarrow> (\<exists>a. p = Ready a \<and> b = f a)"
  by (cases p; auto)+

lemma poll_option_result_cases [case_names Pending Closed Failed Item]:
  "(p = Pending \<Longrightarrow> P) \<Longrightarrow> (p = Ready None \<Longrightarrow> P) \<Longrightarrow> (\<And>e. p = Ready (Some (Err e)) \<Longrightarrow> P) \<Longrightarrow>
   (\<And>a. p = Ready (Some (Ok a)) \<Longrightarrow> P) \<Longrightarrow> P"
  by (metis option.exhaust poll.exhaust result.exhaust)

lemma poll_result_cases [case_names Pending Failed Item]:
  "(p = Pending \<Longrightarrow> P) \<Longrightarrow> (\<And>e. p = Ready (Err e) \<Longrightarrow> P) \<Longrightarrow> (\<And>a. p = Ready (Ok a) \<Longrightarrow> P) \<Longrightarrow> P"
  by (metis poll.exhaust result.exhaust)

lemma poll_option_cases [case_names Pending Closed Item]:
  "(p = Pending \<Longrightarrow> P) \<Longrightarrow> (p = Ready None \<Longrightarrow> P) \<Longrightarrow> (\<And>a. p = Ready (Some a) \<Longrightarrow> P) \<Longrightarrow> P"
  by (metis option.exhaust poll.exhaust)

lemma map_err_eq_iff [simp]:
  "map_err f r = Ok a \<longleftrightarrow> r = Ok a"
  "Ok a = map_err f r \<longleftrightarrow> r = Ok a"
  "map_err f r = Err e \<longleftrightarrow> (\<exists>e'. r = Err e' \<and> e = f e')"
  by (cases r; auto)+

text \<open>
  \<^verbatim>\<open>std::time::Instant\<close> and \<^verbatim>\<open>Duration\<close> count nanoseconds.  An instant is counted from the
  clock's origin.  On the 64-bit Unix targets an instant holds its seconds in an \<open>i64\<close>,
  and \<^verbatim>\<open>Instant + Duration\<close> panics (\<open>None\<close>) when the sum cannot be represented.
  \<^verbatim>\<open>Instant::duration_since\<close> saturates at zero, which is subtraction on \<open>nat\<close>.
\<close>

type_synonym instant = nat
type_synonym duration = nat

abbreviation nanos_per_sec :: nat where
  "nanos_per_sec \<equiv> 1000000000"

definition instant_limit :: nat where
  "instant_limit = 2 ^ 63 * nanos_per_sec"

definition instant_add :: "instant \<Rightarrow> duration \<Rightarrow> instant option" where
  "instant_add t d = (if t + d < instant_limit then Some (t + d) else None)"

definition duration_since :: "instant \<Rightarrow> instant \<Rightarrow> duration" where
  "duration_since t earlier = t - earlier"

section \<open>Outcomes of a call\<close>

text \<open>
  A Rust function returns, panics, or loops forever.  Loops are run with fuel, and
  \<open>OutOfFuel\<close> stands for a loop that has not finished yet.
\<close>

datatype 'a outcome = Return 'a | Panic | OutOfFuel

fun obind :: "'a outcome \<Rightarrow> ('a \<Rightarrow> 'b outcome) \<Rightarrow> 'b outcome" where
  "obind (Return a) f = f a"
| "obind Panic f = Panic"
| "obind OutOfFuel f = OutOfFuel"

text \<open>An optional value whose absence is a panic (\<^verbatim>\<open>unwrap\<close>, \<^verbatim>\<open>expect\<close>, indexing).\<close>

fun or_panic :: "'a option \<Rightarrow> 'a outcome" where
  "or_panic (Some a) = Return a"
| "or_panic None = Panic"

text \<open>\<open>holds m Q\<close>: the call does not panic, and what it returns satisfies \<open>Q\<close>.
  \<open>yields m Q\<close>: the call does return, and what it returns satisfies \<open>Q\<close>.\<close>

fun holds :: "'a outcome \<Rightarrow> ('a \<Rightarrow> bool) \<Rightarrow> bool" where
  "holds (Return a) Q = Q a"
| "holds Panic Q = False"
| "holds OutOfFuel Q = True"

definition yields :: "'a outcome \<Rightarrow> ('a \<Rightarrow> bool) \<Rightarrow> bool" where
  "yields m Q \<longleftrightarrow> (\<exists>a. m = Return a \<and> Q a)"

named_theorems wp \<open>the weakest-precondition calculus of outcomes\<close>

lemma holds_obind [wp, simp]: "holds (obind m f) Q \<longleftrightarrow> holds m (\<lambda>a. holds (f a) Q)"
  by (cases m) auto

lemma holds_or_panic [wp, simp]: "holds (or_panic x) Q \<longleftrightarrow> (\<exists>a. x = Some a \<and> Q a)"
  by (cases x) auto

lemma yields_simps [wp, simp]:
  "yields (Return a) Q \<longleftrightarrow> Q a"
  "yields Panic Q \<longleftrightarrow> False"
  "yields OutOfFuel Q \<longleftrightarrow> False"
  "yields (obind m f) Q \<longleftrightarrow> yields m (\<lambda>a. yields (f a) Q)"
  "yields (or_panic x) Q \<longleftrightarrow> (\<exists>a. x = Some a \<and> Q a)"
  by (cases m; cases x; auto simp: yields_def)+

lemma holds_mono: "holds m Q \<Longrightarrow> (\<And>a. m = Return a \<Longrightarrow> Q a \<Longrightarrow> R a) \<Longrightarrow> holds m R"
  by (cases m) auto

lemma holdsD: "holds m Q \<Longrightarrow> m = Return a \<Longrightarrow> Q a"
  by simp

lemma holdsI: "m \<noteq> Panic \<Longrightarrow> (\<And>a. m = Return a \<Longrightarrow> Q a) \<Longrightarrow> holds m Q"
  by (cases m) auto

lemma holds_conj: "holds m Q \<Longrightarrow> holds m R \<Longrightarrow> holds m (\<lambda>a. Q a \<and> R a)"
  by (cases m) auto

lemma holds_not_panic: "holds m Q \<Longrightarrow> m \<noteq> Panic"
  by auto

lemma yields_mono: "yields m Q \<Longrightarrow> (\<And>a. m = Return a \<Longrightarrow> Q a \<Longrightarrow> R a) \<Longrightarrow> yields m R"
  by (auto simp: yields_def)

lemma yields_holds: "yields m (\<lambda>_. True) \<Longrightarrow> holds m Q \<Longrightarrow> yields m Q"
  by (auto simp: yields_def)

lemma obind_eq_Return:
  "obind m f = Return b \<longleftrightarrow> (\<exists>a. m = Return a \<and> f a = Return b)"
  by (cases m) auto

lemma obind_assoc [simp]: "obind (obind m f) g = obind m (\<lambda>a. obind (f a) g)"
  by (cases m) auto

text \<open>Rules for a call that returns a value with a state.\<close>

lemma holds_bind_pair:
  "holds m (\<lambda>(x, s). P x s) \<Longrightarrow> (\<And>x s. m = Return (x, s) \<Longrightarrow> P x s \<Longrightarrow> holds (f (x, s)) Q) \<Longrightarrow>
   holds (obind m f) Q"
  by (cases m) auto

lemma yields_bind_pair:
  "yields m (\<lambda>(x, s). P x s) \<Longrightarrow> (\<And>x s. m = Return (x, s) \<Longrightarrow> P x s \<Longrightarrow> yields (f (x, s)) Q) \<Longrightarrow>
   yields (obind m f) Q"
  by (cases m) auto

lemma holds_pair_mono:
  "holds m (\<lambda>(x, s). P x s) \<Longrightarrow> (\<And>x s. m = Return (x, s) \<Longrightarrow> P x s \<Longrightarrow> Q x s) \<Longrightarrow> holds m (\<lambda>(x, s). Q x s)"
  by (cases m) auto

lemma obind_returns:
  "m \<noteq> OutOfFuel \<Longrightarrow> (\<And>a. m = Return a \<Longrightarrow> f a \<noteq> OutOfFuel) \<Longrightarrow> obind m f \<noteq> OutOfFuel"
  by (cases m) auto

lemma or_panic_returns [simp]: "or_panic x \<noteq> OutOfFuel" "or_panic x = Return a \<longleftrightarrow> x = Some a"
  by (cases x; simp)+

lemma obind_eq_OutOfFuel:
  "obind m f = OutOfFuel \<longleftrightarrow> m = OutOfFuel \<or> (\<exists>a. m = Return a \<and> f a = OutOfFuel)"
  by (cases m) auto

lemma holds_returns: "holds m Q \<Longrightarrow> m \<noteq> OutOfFuel \<Longrightarrow> yields m Q"
  by (cases m) simp_all

lemma yields_imp_holds: "yields m Q \<Longrightarrow> holds m Q"
  by (auto simp: yields_def)

text \<open>The information order: a call that has run out of fuel may still do anything.\<close>

definition refines :: "'a outcome \<Rightarrow> 'a outcome \<Rightarrow> bool" where
  "refines m m' \<longleftrightarrow> m = OutOfFuel \<or> m = m'"

lemma refines_refl [simp, intro]: "refines m m"
  by (simp add: refines_def)

lemma refines_obind:
  "refines m m' \<Longrightarrow> (\<And>a. refines (f a) (f' a)) \<Longrightarrow> refines (obind m f) (obind m' f')"
  by (cases m) (fastforce simp: refines_def)+

lemma refines_Return: "refines m m' \<Longrightarrow> m = Return a \<Longrightarrow> m' = Return a"
  by (auto simp: refines_def)

section \<open>Loops\<close>

text \<open>One turn of a Rust \<open>loop\<close> goes on or leaves the loop with a value.\<close>

datatype 'r control = Continue | Break 'r

fun loop :: "nat \<Rightarrow> ('s \<Rightarrow> ('r control \<times> 's) outcome) \<Rightarrow> 's \<Rightarrow> ('r \<times> 's) outcome" where
  "loop 0 body s = OutOfFuel"
| "loop (Suc n) body s =
     obind (body s) (\<lambda>(c, s'). case c of Continue \<Rightarrow> loop n body s' | Break r \<Rightarrow> Return (r, s'))"

text \<open>Partial correctness: an invariant of the turns, with the postcondition at the breaks.\<close>

lemma loop_holds:
  assumes "I s"
    and body: "\<And>s. I s \<Longrightarrow> holds (body s) (\<lambda>(c, s'). case c of Continue \<Rightarrow> I s' | Break r \<Rightarrow> Q r s')"
  shows "holds (loop n body s) (\<lambda>(r, s'). Q r s')"
  using \<open>I s\<close>
proof (induction n arbitrary: s)
  case 0
  then show ?case by simp
next
  case (Suc n)
  from body[OF Suc.prems] show ?case
    by (auto intro!: Suc.IH elim!: holds_mono split: control.splits)
qed

text \<open>Termination: with a measure that every continuing turn decreases, enough fuel is a
  fuel greater than the measure.\<close>

lemma loop_yields:
  assumes "I s" and "\<mu> s < n"
    and body: "\<And>s. I s \<Longrightarrow>
      yields (body s) (\<lambda>(c, s'). case c of Continue \<Rightarrow> I s' \<and> \<mu> s' < \<mu> s | Break r \<Rightarrow> Q r s')"
  shows "yields (loop n body s) (\<lambda>(r, s'). Q r s')"
  using assms(1,2)
proof (induction n arbitrary: s)
  case 0
  then show ?case by simp
next
  case (Suc n)
  from body[OF Suc.prems(1)] show ?case
    using Suc.prems(2)
    by (auto intro!: Suc.IH elim!: yields_mono split: control.splits)
qed

text \<open>The same without the postcondition, for loops whose bodies are known not to panic.\<close>

lemma loop_returns:
  assumes "I s" and "\<mu> s < n"
    and "\<And>s. I s \<Longrightarrow> body s \<noteq> OutOfFuel"
    and "\<And>s s'. I s \<Longrightarrow> body s = Return (Continue, s') \<Longrightarrow> I s' \<and> \<mu> s' < \<mu> s"
  shows "loop n body s \<noteq> OutOfFuel"
  using assms(1,2)
proof (induction n arbitrary: s)
  case (Suc n)
  show ?case
  proof (cases "body s")
    case (Return x)
    then show ?thesis
      using Suc.IH[of "snd x"] Suc.prems assms(4)[OF Suc.prems(1), of "snd x"]
      by (cases x; cases "fst x") auto
  qed (use assms(3)[OF Suc.prems(1)] in simp_all)
qed simp

text \<open>A loop that returns has left from some turn.\<close>

lemma loop_last_turn:
  assumes "loop n body s = Return (r, s')" "I s"
    and "\<And>s s'. I s \<Longrightarrow> body s = Return (Continue, s') \<Longrightarrow> I s'"
  obtains s0 where "I s0" "body s0 = Return (Break r, s')"
  using assms(1,2)
proof (induction n arbitrary: s thesis)
  case (Suc n)
  then obtain c s1 where body: "body s = Return (c, s1)" by (auto simp: obind_eq_Return)
  show ?case
  proof (cases c)
    case Continue
    with Suc.prems(2) body have "loop n body s1 = Return (r, s')" by simp
    from Suc.IH[OF _ this] Suc.prems(1,3) assms(3) body Continue show ?thesis by blast
  next
    case (Break r')
    with Suc.prems body show ?thesis by auto
  qed
qed simp

text \<open>The state after \<open>k\<close> turns that all go on.  A loop panics exactly if one of its turns does.\<close>

fun after_turns :: "nat \<Rightarrow> ('s \<Rightarrow> ('r control \<times> 's) outcome) \<Rightarrow> 's \<Rightarrow> 's option" where
  "after_turns 0 body s = Some s"
| "after_turns (Suc k) body s =
     (case body s of Return (Continue, s') \<Rightarrow> after_turns k body s' | _ \<Rightarrow> None)"

lemma loop_panics_iff:
  "loop n body s = Panic \<longleftrightarrow> (\<exists>k<n. \<exists>s'. after_turns k body s = Some s' \<and> body s' = Panic)"
proof (induction n arbitrary: s)
  case (Suc n)
  show ?case
  proof (cases "body s")
    case (Return cs)
    then show ?thesis
      by (cases cs; cases "fst cs") (auto simp: Suc.IH Ex_less_Suc2)
  qed (auto simp: Ex_less_Suc2)
qed simp

lemma after_turns_keeps:
  assumes "after_turns k body s = Some s'" "I s"
    and "\<And>s s'. I s \<Longrightarrow> body s = Return (Continue, s') \<Longrightarrow> I s'"
  shows "I s'"
  using assms(1,2)
proof (induction k arbitrary: s)
  case (Suc k)
  then obtain s1 where "body s = Return (Continue, s1)" "after_turns k body s1 = Some s'"
    by (auto split: outcome.splits prod.splits control.splits)
  with Suc assms(3) show ?case by blast
qed simp

text \<open>More fuel never changes a result.\<close>

lemma loop_fuel_mono: "n \<le> n' \<Longrightarrow> refines (loop n body s) (loop n' body s)"
proof (induction n arbitrary: n' s)
  case 0
  then show ?case by (simp add: refines_def)
next
  case (Suc n)
  then obtain k where k: "n' = Suc k" "n \<le> k" by (cases n') auto
  have "refines (obind (body s) (\<lambda>(c, s'). case c of Continue \<Rightarrow> loop n body s' | Break r \<Rightarrow> Return (r, s')))
                (obind (body s) (\<lambda>(c, s'). case c of Continue \<Rightarrow> loop k body s' | Break r \<Rightarrow> Return (r, s')))"
    using Suc.IH[OF k(2)] by (intro refines_obind) (auto split: control.splits)
  then show ?case using k by simp
qed

section \<open>Hash maps\<close>

text \<open>
  A \<^verbatim>\<open>HashMap\<close> is an association list with distinct keys: \<^verbatim>\<open>len\<close> is its length, \<^verbatim>\<open>get\<close> is
  \<^const>\<open>map_of\<close>, a vacant entry is filled by consing, \<^verbatim>\<open>remove\<close> is \<^const>\<open>AList.delete\<close> and
  \<^verbatim>\<open>drain\<close> goes through the list.  The iteration order of a \<^verbatim>\<open>HashMap\<close> is not specified;
  no statement of the development depends on it.
\<close>

definition keys :: "('k \<times> 'v) list \<Rightarrow> 'k set" where
  "keys m = fst ` set m"

definition distinct_keys :: "('k \<times> 'v) list \<Rightarrow> bool" where
  "distinct_keys m \<longleftrightarrow> distinct (map fst m)"

named_theorems hash_map \<open>laws of the association lists that stand for hash maps\<close>

lemma keys_simps [hash_map, simp]:
  "keys [] = {}"
  "keys ((k, v) # m) = insert k (keys m)"
  "keys (AList.delete k m) = keys m - {k}"
  by (auto simp: keys_def AList.delete_eq)

lemma distinct_keys_simps [hash_map, simp]:
  "distinct_keys []"
  "distinct_keys ((k, v) # m) \<longleftrightarrow> k \<notin> keys m \<and> distinct_keys m"
  "distinct_keys m \<Longrightarrow> distinct_keys (AList.delete k m)"
  by (auto simp: distinct_keys_def keys_def distinct_delete)

lemma finite_keys [simp, intro]: "finite (keys m)"
  by (simp add: keys_def)

lemma keys_empty_iff [simp]: "keys m = {} \<longleftrightarrow> m = []"
  by (simp add: keys_def)

lemma map_of_eq_None_keys: "map_of m k = None \<longleftrightarrow> k \<notin> keys m"
  by (simp add: keys_def map_of_eq_None_iff)

lemma map_of_Some_keys: "map_of m k = Some v \<Longrightarrow> k \<in> keys m"
  by (metis map_of_eq_None_keys option.distinct(1))

lemma map_of_delete_key [simp]: "map_of (AList.delete k m) = (map_of m)(k := None)"
  by (simp add: delete_conv')

lemma card_keys: "distinct_keys m \<Longrightarrow> card (keys m) = length m"
  by (metis distinct_card distinct_keys_def keys_def length_map set_map)

section \<open>Hexadecimal digits\<close>

text \<open>The digits that the formatting macros print for \<open>x\<close>.\<close>

definition hex_digit :: "nat \<Rightarrow> char" where
  "hex_digit n = (if n < 10 then char_of (48 + n) else char_of (87 + n))"

lemma hex_digit_inject: "a < 16 \<Longrightarrow> b < 16 \<Longrightarrow> hex_digit a = hex_digit b \<Longrightarrow> a = b"
  by (auto simp: hex_digit_def split: if_splits)

end
