(* ===== verification/Trace_Context.thy ===== *)
theory Trace_Context
  imports Prelude
begin

text \<open>
  Request contexts: \<^verbatim>\<open>tarpc/src/trace.rs\<close> (trace ids, span ids, sampling decisions and their
  byte encodings) and \<^verbatim>\<open>tarpc/src/context.rs\<close> (deadlines, which travel as durations).
  OpenTelemetry and the random number generator are parameters of the definitions.
\<close>

section \<open>Byte encodings of integers\<close>

text \<open>\<^verbatim>\<open>to_le_bytes\<close>, \<^verbatim>\<open>from_le_bytes\<close> and their big-endian counterparts of the standard
  library, for integers of \<open>n\<close> bytes.\<close>

type_synonym byte = "8 word"

definition to_le_bytes :: "nat \<Rightarrow> 'a::len word \<Rightarrow> byte list" where
  "to_le_bytes n w = map (\<lambda>i. ucast (drop_bit (8 * i) w)) [0..<n]"

definition from_le_bytes :: "byte list \<Rightarrow> 'a::len word" where
  "from_le_bytes bs = foldr (\<lambda>b w. ucast b + push_bit 8 w) bs 0"

definition to_be_bytes :: "nat \<Rightarrow> 'a::len word \<Rightarrow> byte list" where
  "to_be_bytes n w = rev (to_le_bytes n w)"

definition from_be_bytes :: "byte list \<Rightarrow> 'a::len word" where
  "from_be_bytes bs = from_le_bytes (rev bs)"

lemma length_to_bytes [simp]:
  "length (to_le_bytes n w) = n" "length (to_be_bytes n w) = n"
  by (simp_all add: to_le_bytes_def to_be_bytes_def)

lemma to_le_bytes_Suc:
  "to_le_bytes (Suc n) w = ucast w # to_le_bytes n (drop_bit 8 w)"
proof -
  have "[0..<Suc n] = 0 # map Suc [0..<n]"
    by (simp add: upt_conv_Cons map_Suc_upt del: upt_Suc)
  then show ?thesis
    by (simp add: to_le_bytes_def ac_simps del: upt_Suc)
qed

lemma byte_split: "8 \<le> LENGTH('a::len) \<Longrightarrow>
  ucast (ucast w :: byte) + push_bit 8 (drop_bit 8 w) = (w :: 'a word)"
proof -
  have "ucast (ucast w :: byte) = take_bit 8 w" if "8 \<le> LENGTH('a)"
    by (rule bit_word_eqI) (auto simp: bit_simps)
  moreover have "take_bit 8 w + push_bit 8 (drop_bit 8 w) = w"
    using bits_ident [of 8 w] by (simp add: ac_simps)
  moreover assume "8 \<le> LENGTH('a)"
  ultimately show ?thesis by simp
qed

lemma from_to_le_bytes_gen:
  "8 \<le> LENGTH('a::len) \<Longrightarrow> from_le_bytes (to_le_bytes n w) = take_bit (8 * n) (w :: 'a word)"
proof (induction n arbitrary: w)
  case 0
  then show ?case by (simp add: to_le_bytes_def from_le_bytes_def)
next
  case (Suc n)
  have "from_le_bytes (to_le_bytes (Suc n) w)
      = ucast (ucast w :: byte) + push_bit 8 (take_bit (8 * n) (drop_bit 8 w))"
    using Suc by (simp add: to_le_bytes_Suc from_le_bytes_def)
  also have "\<dots> = take_bit 8 w + push_bit 8 (take_bit (8 * n) (drop_bit 8 w))"
  proof -
    have "ucast (ucast w :: byte) = take_bit 8 w"
      using Suc.prems by (intro bit_word_eqI) (auto simp: bit_simps)
    then show ?thesis by simp
  qed
  also have "\<dots> = take_bit (8 * Suc n) w"
  proof -
    have "take_bit (8 + 8 * n) w = push_bit 8 (take_bit (8 * n) (drop_bit 8 w)) + take_bit 8 w"
    proof -
      have "take_bit (8 + 8 * n) w
          = push_bit 8 (drop_bit 8 (take_bit (8 + 8 * n) w)) + take_bit 8 (take_bit (8 + 8 * n) w)"
        by (rule bits_ident [symmetric])
      moreover have "drop_bit 8 (take_bit (8 + 8 * n) w) = take_bit (8 * n) (drop_bit 8 w)"
        by (simp add: drop_bit_take_bit)
      ultimately show ?thesis by simp
    qed
    then show ?thesis by (simp add: ac_simps)
  qed
  finally show ?case .
qed

lemma from_to_bytes [simp]:
  assumes "LENGTH('a::len) = 8 * n" "0 < n"
  shows "from_le_bytes (to_le_bytes n w) = (w :: 'a word)"
    and "from_be_bytes (to_be_bytes n w) = (w :: 'a word)"
proof -
  have "8 \<le> LENGTH('a)" using assms by simp
  then have *: "from_le_bytes (to_le_bytes n w) = take_bit (8 * n) w"
    by (rule from_to_le_bytes_gen)
  have "take_bit (LENGTH('a)) w = w"
    by (rule bit_word_eqI) (simp add: bit_simps)
  with assms(1) have **: "take_bit (8 * n) w = w" by simp
  show "from_le_bytes (to_le_bytes n w) = w" using * ** by simp
  then show "from_be_bytes (to_be_bytes n w) = w"
    by (simp add: from_be_bytes_def to_be_bytes_def)
qed

section \<open>Trace contexts\<close>

datatype trace_id = TraceId (trace_id_bits: "128 word")
datatype span_id = SpanId (span_id_bits: "64 word")

datatype sampling_decision = Sampled | Unsampled

record trace_context =
  trace_id :: trace_id
  span_id :: span_id
  sampling_decision :: sampling_decision

definition sampling_decision_default :: sampling_decision where
  "sampling_decision_default = Unsampled"

definition trace_context_default :: trace_context where
  "trace_context_default =
     \<lparr>trace_id = TraceId 0, span_id = SpanId 0, sampling_decision = sampling_decision_default\<rparr>"

text \<open>\<^verbatim>\<open>TraceId::is_none\<close> and \<^verbatim>\<open>SpanId::is_none\<close>.\<close>

definition trace_id_is_none :: "trace_id \<Rightarrow> bool" where
  "trace_id_is_none t \<longleftrightarrow> trace_id_bits t = 0"

definition span_id_is_none :: "span_id \<Rightarrow> bool" where
  "span_id_is_none s \<longleftrightarrow> span_id_bits s = 0"

text \<open>\<^verbatim>\<open>Context::new_child\<close>; the argument is what the random number generator returns for
  \<^verbatim>\<open>NonZeroU64\<close>.\<close>

definition new_child :: "64 word \<Rightarrow> trace_context \<Rightarrow> trace_context" where
  "new_child r ctx =
     \<lparr>trace_id = trace_id ctx, span_id = SpanId r, sampling_decision = sampling_decision ctx\<rparr>"

text \<open>Conversions to and from the OpenTelemetry ids, which are big-endian byte arrays.\<close>

definition otel_of_trace_id :: "trace_id \<Rightarrow> byte list" where
  "otel_of_trace_id t = to_be_bytes 16 (trace_id_bits t)"

definition trace_id_of_otel :: "byte list \<Rightarrow> trace_id" where
  "trace_id_of_otel bs = TraceId (from_be_bytes bs)"

definition otel_of_span_id :: "span_id \<Rightarrow> byte list" where
  "otel_of_span_id s = to_be_bytes 8 (span_id_bits s)"

definition span_id_of_otel :: "byte list \<Rightarrow> span_id" where
  "span_id_of_otel bs = SpanId (from_be_bytes bs)"

text \<open>\<^verbatim>\<open>u128_serde\<close>: a trace id is serialized as its little-endian bytes.\<close>

definition serialize_u128 :: "128 word \<Rightarrow> byte list" where
  "serialize_u128 u = to_le_bytes 16 u"

definition deserialize_u128 :: "byte list \<Rightarrow> 128 word" where
  "deserialize_u128 bs = from_le_bytes bs"

text \<open>
  OpenTelemetry's span contexts, as far as they are read and written here: the ids, the
  \<^verbatim>\<open>SAMPLED\<close> flag, and the deadline the crate stores beside them.
\<close>

record otel_span_context =
  otel_trace_id :: "byte list"
  otel_span_id :: "byte list"
  otel_sampled :: bool

text \<open>\<^verbatim>\<open>From<&SpanContext> for SamplingDecision\<close> and \<^verbatim>\<open>From<SamplingDecision> for TraceFlags\<close>.\<close>

definition sampling_of_otel :: "otel_span_context \<Rightarrow> sampling_decision" where
  "sampling_of_otel c = (if otel_sampled c then Sampled else Unsampled)"

definition otel_flag_of_sampling :: "sampling_decision \<Rightarrow> bool" where
  "otel_flag_of_sampling d = (case d of Sampled \<Rightarrow> True | Unsampled \<Rightarrow> False)"

text \<open>\<^verbatim>\<open>From<SpanRef> for Context\<close>.\<close>

definition context_of_span_ref :: "otel_span_context \<Rightarrow> trace_context" where
  "context_of_span_ref c =
     \<lparr>trace_id = trace_id_of_otel (otel_trace_id c),
      span_id = span_id_of_otel (otel_span_id c),
      sampling_decision = sampling_of_otel c\<rparr>"

text \<open>\<^verbatim>\<open>TryFrom<&Span> for Context\<close>: the argument is the active span of the span's
  OpenTelemetry context, if it has one.\<close>

datatype no_active_span = NoActiveSpan

definition trace_context_try_from ::
  "otel_span_context option \<Rightarrow> (trace_context, no_active_span) result" where
  "trace_context_try_from active =
     (case active of Some c \<Rightarrow> Ok (context_of_span_ref c) | None \<Rightarrow> Err NoActiveSpan)"

section \<open>Request contexts\<close>

record rpc_context =
  deadline :: instant
  trace_context :: trace_context

text \<open>\<^verbatim>\<open>absolute_to_relative_time\<close>: the deadline is sent as the time left.\<close>

definition serialize_deadline :: "instant \<Rightarrow> instant \<Rightarrow> duration" where
  "serialize_deadline now d = duration_since d now"

definition deserialize_deadline :: "instant \<Rightarrow> duration \<Rightarrow> instant outcome" where
  "deserialize_deadline now d = or_panic (instant_add now d)"

text \<open>\<^verbatim>\<open>TimeUntil::time_until\<close> of \<^verbatim>\<open>util.rs\<close>.\<close>

definition time_until :: "instant \<Rightarrow> instant \<Rightarrow> duration" where
  "time_until now d = duration_since d now"

definition ten_seconds_from_now :: "instant \<Rightarrow> instant outcome" where
  "ten_seconds_from_now now = or_panic (instant_add now (10 * nanos_per_sec))"

text \<open>\<^verbatim>\<open>Context::current\<close>: the arguments are the active OpenTelemetry span of the current
  span and the deadline stored in its context.\<close>

definition context_current ::
  "instant \<Rightarrow> otel_span_context option \<Rightarrow> instant option \<Rightarrow> rpc_context outcome" where
  "context_current now active stored =
     obind (case stored of Some d \<Rightarrow> Return d | None \<Rightarrow> ten_seconds_from_now now) (\<lambda>d.
       Return \<lparr>deadline = d,
               trace_context = (case trace_context_try_from active of
                                  Ok c \<Rightarrow> c | Err _ \<Rightarrow> trace_context_default)\<rparr>)"

text \<open>\<^verbatim>\<open>SpanExt::set_context\<close>: the parent span context and the deadline that are stored in
  the span.\<close>

definition set_context :: "rpc_context \<Rightarrow> otel_span_context \<times> instant" where
  "set_context ctx =
     (\<lparr>otel_trace_id = otel_of_trace_id (trace_id (trace_context ctx)),
       otel_span_id = otel_of_span_id (span_id (trace_context ctx)),
       otel_sampled = otel_flag_of_sampling (sampling_decision (trace_context ctx))\<rparr>,
      deadline ctx)"

section \<open>Properties\<close>

lemma trace_id_roundtrip [simp]: "trace_id_of_otel (otel_of_trace_id t) = t"
  by (simp add: trace_id_of_otel_def otel_of_trace_id_def)

lemma span_id_roundtrip [simp]: "span_id_of_otel (otel_of_span_id s) = s"
  by (simp add: span_id_of_otel_def otel_of_span_id_def)

lemma u128_roundtrip [simp]: "deserialize_u128 (serialize_u128 u) = u"
  by (simp add: serialize_u128_def deserialize_u128_def)

text \<open>The parent span context that \<^verbatim>\<open>set_context\<close> stores carries the whole trace context.\<close>

lemma set_context_roundtrip: "context_of_span_ref (fst (set_context ctx)) = trace_context ctx"
  by (cases "trace_context ctx"; cases "sampling_decision (trace_context ctx)")
     (simp_all add: context_of_span_ref_def set_context_def sampling_of_otel_def
        otel_flag_of_sampling_def)

lemma deserialize_serialize_deadline:
  "t + (d - t0) < instant_limit \<Longrightarrow>
   deserialize_deadline t (serialize_deadline t0 d) = Return (t + (d - t0))"
  by (simp add: deserialize_deadline_def serialize_deadline_def instant_add_def duration_since_def)

text \<open>A request that is passed on by a chain of servers: each receives it at some instant of
  its own clock and works on it for a while before it sends it on.\<close>

fun forward :: "(instant \<times> duration) list \<Rightarrow> duration \<Rightarrow> duration outcome" where
  "forward [] left = Return left"
| "forward ((received, work) # hops) left =
     obind (deserialize_deadline received left) (\<lambda>d.
       forward hops (serialize_deadline (received + work) d))"

end
