(* ===== verification/Protocol.thy ===== *)
theory Protocol
  imports Trace_Context
begin

text \<open>
  The messages and errors of \<^verbatim>\<open>tarpc/src/lib.rs\<close>, the settings and error type of
  \<^verbatim>\<open>tarpc/src/client.rs\<close> that travel with them, and the wire format of
  \<^verbatim>\<open>io::ErrorKind\<close> of \<^verbatim>\<open>tarpc/src/util/serde.rs\<close>.
\<close>

section \<open>Errors\<close>

text \<open>\<^verbatim>\<open>std::io::ErrorKind\<close>: the kinds \<^verbatim>\<open>util/serde.rs\<close> names; the enum is not exhaustive,
  and \<open>UnlistedKind\<close> stands for its other kinds.\<close>

datatype error_kind =
    NotFound | PermissionDenied | ConnectionRefused | ConnectionReset | ConnectionAborted
  | NotConnected | AddrInUse | AddrNotAvailable | BrokenPipe | AlreadyExists | WouldBlock
  | InvalidInput | InvalidData | TimedOut | WriteZero | Interrupted | Other | UnexpectedEof
  | UnlistedKind nat

record server_error =
  kind :: error_kind
  detail :: string

definition server_error_new :: "error_kind \<Rightarrow> string \<Rightarrow> server_error" where
  "server_error_new k d = \<lparr>kind = k, detail = d\<rparr>"

text \<open>\<^verbatim>\<open>ChannelError<E>\<close>.\<close>

datatype 'e channel_error =
    ErrRead 'e | ErrReady 'e | ErrWrite 'e | ErrFlush 'e | ErrClose 'e

text \<open>
  A value of \<^verbatim>\<open>dyn Any\<close> is a value with the \<^verbatim>\<open>TypeId\<close> of its concrete type, against which
  \<^verbatim>\<open>Arc::downcast\<close> checks.
\<close>

datatype 'v dyn_any = Any (any_type_id: nat) (any_value: 'v)

definition any_downcast :: "nat \<Rightarrow> 'v dyn_any \<Rightarrow> ('v, 'v dyn_any) result" where
  "any_downcast ty a = (if any_type_id a = ty then Ok (any_value a) else Err a)"

text \<open>\<^verbatim>\<open>ChannelError::upcast_error\<close> forgets the static type of the error and keeps its value.\<close>

fun upcast_error :: "'e channel_error \<Rightarrow> 'e channel_error" where
  "upcast_error (ErrRead e) = ErrRead e"
| "upcast_error (ErrReady e) = ErrReady e"
| "upcast_error (ErrWrite e) = ErrWrite e"
| "upcast_error (ErrFlush e) = ErrFlush e"
| "upcast_error (ErrClose e) = ErrClose e"

fun upcast_any :: "nat \<Rightarrow> 'e channel_error \<Rightarrow> 'e dyn_any channel_error" where
  "upcast_any ty (ErrRead e) = ErrRead (Any ty e)"
| "upcast_any ty (ErrReady e) = ErrReady (Any ty e)"
| "upcast_any ty (ErrWrite e) = ErrWrite (Any ty e)"
| "upcast_any ty (ErrFlush e) = ErrFlush (Any ty e)"
| "upcast_any ty (ErrClose e) = ErrClose (Any ty e)"

fun result_map :: "('a \<Rightarrow> 'b) \<Rightarrow> ('a, 'e) result \<Rightarrow> ('b, 'e) result" where
  "result_map f (Ok a) = Ok (f a)"
| "result_map f (Err e) = Err e"

fun downcast ::
  "nat \<Rightarrow> 'e dyn_any channel_error \<Rightarrow> ('e channel_error, 'e dyn_any channel_error) result" where
  "downcast ty (ErrRead e) = map_err ErrRead (result_map ErrRead (any_downcast ty e))"
| "downcast ty (ErrReady e) = map_err ErrReady (result_map ErrReady (any_downcast ty e))"
| "downcast ty (ErrWrite e) = map_err ErrWrite (result_map ErrWrite (any_downcast ty e))"
| "downcast ty (ErrFlush e) = map_err ErrFlush (result_map ErrFlush (any_downcast ty e))"
| "downcast ty (ErrClose e) = map_err ErrClose (result_map ErrClose (any_downcast ty e))"

text \<open>\<^verbatim>\<open>client::RpcError\<close>; the boxed errors of \<^verbatim>\<open>Send\<close> and \<^verbatim>\<open>Channel\<close> are the transport's.\<close>

datatype 'e rpc_error =
    Shutdown | Send 'e | Channel "'e channel_error" | DeadlineExceeded | Server server_error

section \<open>Messages\<close>

record 'm request =
  request_context :: rpc_context
  id :: u64
  message :: 'm

datatype 'm client_message =
    Request "'m request"
  | Cancel (cancel_trace_context: trace_context) (cancel_request_id: u64)

record 'm response =
  request_id :: u64
  response_message :: "('m, server_error) result"

definition request_deadline :: "'m request \<Rightarrow> instant" where
  "request_deadline r = deadline (request_context r)"

section \<open>The wire format of error kinds\<close>

text \<open>
  \<^verbatim>\<open>serialize_io_error_kind_as_u32\<close>.  Nothing constrains the type of the integer literals
  but the call of \<^verbatim>\<open>Serialize::serialize\<close>, so Rust's integer fallback makes them \<open>i32\<close>:
  the serializer is asked to write an \<open>i32\<close>, here the parameter \<open>write_i32\<close>.
\<close>

fun error_kind_code :: "error_kind \<Rightarrow> 32 word" where
  "error_kind_code NotFound = 0"
| "error_kind_code PermissionDenied = 1"
| "error_kind_code ConnectionRefused = 2"
| "error_kind_code ConnectionReset = 3"
| "error_kind_code ConnectionAborted = 4"
| "error_kind_code NotConnected = 5"
| "error_kind_code AddrInUse = 6"
| "error_kind_code AddrNotAvailable = 7"
| "error_kind_code BrokenPipe = 8"
| "error_kind_code AlreadyExists = 9"
| "error_kind_code WouldBlock = 10"
| "error_kind_code InvalidInput = 11"
| "error_kind_code InvalidData = 12"
| "error_kind_code TimedOut = 13"
| "error_kind_code WriteZero = 14"
| "error_kind_code Interrupted = 15"
| "error_kind_code Other = 16"
| "error_kind_code UnexpectedEof = 17"
| "error_kind_code (UnlistedKind _) = 16"

definition serialize_io_error_kind_as_u32 :: "(32 word \<Rightarrow> 'bytes) \<Rightarrow> error_kind \<Rightarrow> 'bytes" where
  "serialize_io_error_kind_as_u32 write_i32 k = write_i32 (error_kind_code k)"

text \<open>\<^verbatim>\<open>deserialize_io_error_kind_from_u32\<close>: the deserializer is asked for a \<open>u32\<close>.\<close>

definition error_kind_of_code :: "32 word \<Rightarrow> error_kind" where
  "error_kind_of_code c =
     (if c = 0 then NotFound else if c = 1 then PermissionDenied
      else if c = 2 then ConnectionRefused else if c = 3 then ConnectionReset
      else if c = 4 then ConnectionAborted else if c = 5 then NotConnected
      else if c = 6 then AddrInUse else if c = 7 then AddrNotAvailable
      else if c = 8 then BrokenPipe else if c = 9 then AlreadyExists
      else if c = 10 then WouldBlock else if c = 11 then InvalidInput
      else if c = 12 then InvalidData else if c = 13 then TimedOut
      else if c = 14 then WriteZero else if c = 15 then Interrupted
      else if c = 16 then Other else if c = 17 then UnexpectedEof else Other)"

definition deserialize_io_error_kind_from_u32 ::
  "('bytes \<Rightarrow> (32 word, 'err) result) \<Rightarrow> 'bytes \<Rightarrow> (error_kind, 'err) result" where
  "deserialize_io_error_kind_from_u32 read_u32 bs = result_map error_kind_of_code (read_u32 bs)"

text \<open>A format in which a \<open>u32\<close> can be read where a non-negative \<open>i32\<close> was written: JSON and
  the fixed-width binary formats.\<close>

definition reads_back_i32 :: "(32 word \<Rightarrow> 'bytes) \<Rightarrow> ('bytes \<Rightarrow> (32 word, 'err) result) \<Rightarrow> bool" where
  "reads_back_i32 write_i32 read_u32 \<longleftrightarrow> (\<forall>n. 0 \<le> sint n \<longrightarrow> read_u32 (write_i32 n) = Ok n)"

section \<open>Lemmas\<close>

lemma downcast_upcast_any [simp]: "downcast ty (upcast_any ty e) = Ok e"
  by (cases e) (simp_all add: any_downcast_def)

lemma upcast_error_id [simp]: "upcast_error e = e"
  by (cases e) simp_all

lemma error_kind_code_small: "unat (error_kind_code k) < 18"
  by (cases k) simp_all

lemma error_kind_code_nonneg: "0 \<le> sint (error_kind_code k)"
  by (cases k) simp_all

lemma error_kind_of_code_code:
  "error_kind_of_code (error_kind_code k) = (case k of UnlistedKind _ \<Rightarrow> Other | _ \<Rightarrow> k)"
  by (cases k) (simp_all add: error_kind_of_code_def)

end
