(* ===== verification/Runtime.thy ===== *)
theory Runtime
  imports Protocol
begin

text \<open>
  The interfaces of the code the crate calls and does not define.  Each is a record of
  operations that the definitions of the components take as an argument: the transport
  (any type that satisfies the trait of \<^verbatim>\<open>tarpc/src/transport.rs\<close>) and the delay queue of
  \<^verbatim>\<open>tokio_util\<close>.  What the components rely on of the delay queue is the hypothesis
  \<open>delay_queue_laws\<close>; \<open>ref_delay_queue\<close> is a concrete queue that satisfies it.
\<close>

section \<open>Handles\<close>

text \<open>Spans, delay-queue keys, one-shot channels and abort handles are handed around and
  never looked into.\<close>

type_synonym span = nat
type_synonym dq_key = nat
type_synonym oneshot = nat
type_synonym abort_handle = nat

section \<open>Recorded calls\<close>

text \<open>A call on the world, with the event it amounts to appended to a log.\<close>

definition recorded :: "('a \<Rightarrow> 'ev) \<Rightarrow> ('w \<Rightarrow> 'a \<times> 'w) \<Rightarrow> 'w \<times> 'ev list \<Rightarrow> 'a \<times> 'w \<times> 'ev list" where
  "recorded ev call = (\<lambda>(w, log). let (a, w') = call w in (a, w', log @ [ev a]))"

definition unrecorded :: "('w \<Rightarrow> 'a \<times> 'w) \<Rightarrow> 'w \<times> 'ev list \<Rightarrow> 'a \<times> 'w \<times> 'ev list" where
  "unrecorded call = (\<lambda>(w, log). let (a, w') = call w in (a, w', log))"

lemma recorded_eq_iff:
  "recorded ev call wl = (a, wl') \<longleftrightarrow> call (fst wl) = (a, fst wl') \<and> snd wl' = snd wl @ [ev a]"
  "unrecorded call wl = (a, wl') \<longleftrightarrow> call (fst wl) = (a, fst wl') \<and> snd wl' = snd wl"
  by (cases wl; cases wl'; auto simp: recorded_def unrecorded_def split: prod.splits)+

section \<open>Transports\<close>

text \<open>
  \<^verbatim>\<open>Transport<SinkItem, Item>\<close>: a \<^verbatim>\<open>Stream\<close> of \<^verbatim>\<open>Result<Item, E>\<close> and a \<^verbatim>\<open>Sink\<close> of
  \<^verbatim>\<open>SinkItem\<close>.  The operations act on the world \<open>'w\<close> outside the component, which every
  call may change in any way: between two calls other tasks may run.
\<close>

record ('w, 'out, 'inn, 'e) transport =
  tr_poll_next :: "'w \<Rightarrow> ('inn, 'e) result option poll \<times> 'w"
  tr_poll_ready :: "'w \<Rightarrow> (unit, 'e) result poll \<times> 'w"
  tr_start_send :: "'w \<Rightarrow> 'out \<Rightarrow> (unit, 'e) result \<times> 'w"
  tr_poll_flush :: "'w \<Rightarrow> (unit, 'e) result poll \<times> 'w"
  tr_poll_close :: "'w \<Rightarrow> (unit, 'e) result poll \<times> 'w"

section \<open>Delay queues\<close>

text \<open>
  \<^verbatim>\<open>tokio_util::time::DelayQueue<u64>\<close>.  \<open>dq_insert\<close> and \<open>dq_poll_expired\<close> are given the
  current instant.  \<^verbatim>\<open>insert\<close> panics (\<open>None\<close>) when the deadline is too far in the future,
  \<^verbatim>\<open>remove\<close> when the key is not in the queue.
\<close>

record 'q delay_queue =
  dq_default :: 'q
  dq_insert :: "'q \<Rightarrow> instant \<Rightarrow> u64 \<Rightarrow> duration \<Rightarrow> (dq_key \<times> 'q) option"
  dq_remove :: "'q \<Rightarrow> dq_key \<Rightarrow> 'q option"
  dq_clear :: "'q \<Rightarrow> 'q"
  dq_is_empty :: "'q \<Rightarrow> bool"
  dq_poll_expired :: "'q \<Rightarrow> instant \<Rightarrow> u64 option poll \<times> 'q"

type_synonym entries = "dq_key \<rightharpoonup> u64 \<times> instant"

text \<open>
  The documented behaviour: the queue holds a finite number of entries \<open>ent q\<close>, each a value
  with the instant it expires at, under keys it chooses.  A polled value has expired.
  \<open>Pending\<close> and \<open>Ready None\<close> take nothing out, and only an empty queue answers \<open>Ready None\<close>
  (whether an empty queue always does is not promised).  Up to the instant \<open>horizon\<close>
  deadlines are accepted.
\<close>

definition delay_queue_laws :: "'q delay_queue \<Rightarrow> ('q \<Rightarrow> entries) \<Rightarrow> instant \<Rightarrow> bool" where
  "delay_queue_laws dq ent horizon \<longleftrightarrow>
     ent (dq_default dq) = Map.empty \<and>
     (\<forall>q now v d k q'. dq_insert dq q now v d = Some (k, q') \<longrightarrow>
        ent q k = None \<and> ent q' = (ent q)(k \<mapsto> (v, now + d))) \<and>
     (\<forall>q now v d. now + d \<le> horizon \<longrightarrow> dq_insert dq q now v d \<noteq> None) \<and>
     (\<forall>q k. k \<in> dom (ent q) \<longrightarrow>
        (\<exists>q'. dq_remove dq q k = Some q' \<and> ent q' = (ent q)(k := None))) \<and>
     (\<forall>q. ent (dq_clear dq q) = Map.empty) \<and>
     (\<forall>q. dq_is_empty dq q \<longleftrightarrow> ent q = Map.empty) \<and>
     (\<forall>q now v q'. dq_poll_expired dq q now = (Ready (Some v), q') \<longrightarrow>
        (\<exists>k t. ent q k = Some (v, t) \<and> t \<le> now \<and> ent q' = (ent q)(k := None))) \<and>
     (\<forall>q now q'. dq_poll_expired dq q now = (Ready None, q') \<longrightarrow>
        ent q = Map.empty \<and> ent q' = Map.empty) \<and>
     (\<forall>q now q'. dq_poll_expired dq q now = (Pending, q') \<longrightarrow> ent q' = ent q)"

lemma dq_laws:
  assumes "delay_queue_laws dq ent horizon"
  shows dq_law_default: "ent (dq_default dq) = Map.empty"
    and dq_law_insert: "dq_insert dq q now v d = Some (k, q') \<Longrightarrow> ent q k = None"
    and dq_law_inserted:
      "dq_insert dq q now v d = Some (k, q') \<Longrightarrow> ent q' = (ent q)(k \<mapsto> (v, now + d))"
    and dq_law_accepts: "now + d \<le> horizon \<Longrightarrow> \<exists>k q'. dq_insert dq q now v d = Some (k, q')"
    and dq_law_remove:
      "ent q k = Some x \<Longrightarrow> \<exists>q'. dq_remove dq q k = Some q' \<and> ent q' = (ent q)(k := None)"
    and dq_law_clear: "ent (dq_clear dq q) = Map.empty"
    and dq_law_is_empty: "dq_is_empty dq q \<longleftrightarrow> ent q = Map.empty"
    and dq_law_expired: "dq_poll_expired dq q now = (Ready (Some v), q') \<Longrightarrow>
      \<exists>k t. ent q k = Some (v, t) \<and> t \<le> now \<and> ent q' = (ent q)(k := None)"
    and dq_law_none: "dq_poll_expired dq q now = (Ready None, q') \<Longrightarrow>
      ent q = Map.empty \<and> ent q' = Map.empty"
    and dq_law_pending: "dq_poll_expired dq q now = (Pending, q') \<Longrightarrow> ent q' = ent q"
proof -
  note law = assms[unfolded delay_queue_laws_def]
  note expired = law[THEN conjunct2, THEN conjunct2, THEN conjunct2, THEN conjunct2,
      THEN conjunct2, THEN conjunct2]
  show "ent (dq_default dq) = Map.empty"
    by (rule law[THEN conjunct1])
  show "ent q k = None" if "dq_insert dq q now v d = Some (k, q')"
    using law[THEN conjunct2, THEN conjunct1, rule_format, OF that] by (rule conjunct1)
  show "ent q' = (ent q)(k \<mapsto> (v, now + d))" if "dq_insert dq q now v d = Some (k, q')"
    using law[THEN conjunct2, THEN conjunct1, rule_format, OF that] by (rule conjunct2)
  show "\<exists>k q'. dq_insert dq q now v d = Some (k, q')" if "now + d \<le> horizon"
    using law[THEN conjunct2, THEN conjunct2, THEN conjunct1, rule_format, OF that, of q v] by auto
  show "\<exists>q'. dq_remove dq q k = Some q' \<and> ent q' = (ent q)(k := None)" if "ent q k = Some x"
    using law[THEN conjunct2, THEN conjunct2, THEN conjunct2, THEN conjunct1, rule_format, OF domI, OF that] .
  show "ent (dq_clear dq q) = Map.empty"
    by (rule law[THEN conjunct2, THEN conjunct2, THEN conjunct2, THEN conjunct2, THEN conjunct1, rule_format])
  show "dq_is_empty dq q \<longleftrightarrow> ent q = Map.empty"
    by (rule law[THEN conjunct2, THEN conjunct2, THEN conjunct2, THEN conjunct2, THEN conjunct2,
        THEN conjunct1, rule_format])
  show "\<exists>k t. ent q k = Some (v, t) \<and> t \<le> now \<and> ent q' = (ent q)(k := None)"
    if "dq_poll_expired dq q now = (Ready (Some v), q')"
    by (rule expired[THEN conjunct1, rule_format, OF that])
  show "ent q = Map.empty \<and> ent q' = Map.empty" if "dq_poll_expired dq q now = (Ready None, q')"
    by (rule expired[THEN conjunct2, THEN conjunct1, rule_format, OF that])
  show "ent q' = ent q" if "dq_poll_expired dq q now = (Pending, q')"
    by (rule expired[THEN conjunct2, THEN conjunct2, rule_format, OF that])
qed

section \<open>A concrete delay queue\<close>

text \<open>The entries in reverse insertion order, under keys above the keys in use.\<close>

type_synonym ref_queue = "(dq_key \<times> u64 \<times> instant) list"

fun ref_fresh :: "ref_queue \<Rightarrow> dq_key" where
  "ref_fresh [] = 0"
| "ref_fresh ((k, _) # q) = max (Suc k) (ref_fresh q)"

definition ref_expired :: "ref_queue \<Rightarrow> instant \<Rightarrow> (dq_key \<times> u64 \<times> instant) option" where
  "ref_expired q now = find (\<lambda>e. snd (snd e) \<le> now \<and> map_of q (fst e) = Some (snd e)) q"

definition ref_delay_queue :: "ref_queue delay_queue" where
  "ref_delay_queue =
     \<lparr>dq_default = [],
      dq_insert = (\<lambda>q now v d. Some (ref_fresh q, (ref_fresh q, v, now + d) # q)),
      dq_remove = (\<lambda>q k. map_option (\<lambda>_. AList.delete k q) (map_of q k)),
      dq_clear = (\<lambda>q. []),
      dq_is_empty = (\<lambda>q. q = []),
      dq_poll_expired = (\<lambda>q now.
        if q = [] then (Ready None, q)
        else case ref_expired q now of
               None \<Rightarrow> (Pending, q)
             | Some e \<Rightarrow> (Ready (Some (fst (snd e))), AList.delete (fst e) q))\<rparr>"

lemma ref_fresh_above: "k \<in> keys q \<Longrightarrow> k < ref_fresh q"
  by (induction q rule: ref_fresh.induct) auto

lemma ref_fresh_vacant: "map_of q (ref_fresh q) = None"
  using ref_fresh_above[of "ref_fresh q" q] by (auto simp: map_of_eq_None_keys)

lemma find_satisfies: "find P xs = Some x \<Longrightarrow> P x"
  by (induction xs) (auto split: if_splits)

lemma ref_expired_Some:
  "ref_expired q now = Some (k, v, t) \<Longrightarrow> map_of q k = Some (v, t) \<and> t \<le> now"
  unfolding ref_expired_def by (drule find_satisfies) simp

lemma ref_delay_queue_laws: "delay_queue_laws ref_delay_queue map_of horizon"
proof -
  have expired: "\<exists>k t. map_of q k = Some (v, t) \<and> t \<le> now \<and> map_of q' = (map_of q)(k := None)"
    if "dq_poll_expired ref_delay_queue q now = (Ready (Some v), q')" for q now v q'
  proof -
    from that obtain k t where e: "ref_expired q now = Some (k, v, t)" and "q' = AList.delete k q"
      by (auto simp: ref_delay_queue_def split: if_splits option.splits)
    with ref_expired_Some[OF e] show ?thesis by (metis map_of_delete_key)
  qed
  have waiting: "dq_poll_expired ref_delay_queue q now = (Ready None, q') \<Longrightarrow> q = [] \<and> q' = []"
    "dq_poll_expired ref_delay_queue q now = (Pending, q') \<Longrightarrow> q' = q" for q now q'
    by (auto simp: ref_delay_queue_def split: if_splits option.splits)
  have insert: "map_of q k = None \<and> map_of q' = (map_of q)(k \<mapsto> (v, now + d))"
    if "dq_insert ref_delay_queue q now v d = Some (k, q')" for q now v d k q'
    using that by (auto simp: ref_delay_queue_def ref_fresh_vacant)
  have remove: "\<exists>q'. dq_remove ref_delay_queue q k = Some q' \<and> map_of q' = (map_of q)(k := None)"
    if "k \<in> dom (map_of q)" for q k
    using that by (auto simp: ref_delay_queue_def)
  have rest: "map_of (dq_default ref_delay_queue) = Map.empty"
    "dq_insert ref_delay_queue q now v d \<noteq> None" "map_of (dq_clear ref_delay_queue q) = Map.empty"
    "dq_is_empty ref_delay_queue q \<longleftrightarrow> map_of q = Map.empty" for q now v d
    by (simp_all add: ref_delay_queue_def map_of_eq_empty_iff)
  show ?thesis
    unfolding delay_queue_laws_def
  proof (intro conjI allI impI)
    fix q now v d k q' assume "dq_insert ref_delay_queue q now v d = Some (k, q')"
    from insert[OF this]
    show "map_of q k = None" "map_of q' = (map_of q)(k \<mapsto> (v, now + d))" by simp_all
  next
    fix q now q' assume "dq_poll_expired ref_delay_queue q now = (Ready None, q')"
    from waiting(1)[OF this] show "map_of q = Map.empty" "map_of q' = Map.empty" by simp_all
  next
    fix q now q' assume "dq_poll_expired ref_delay_queue q now = (Pending, q')"
    from waiting(2)[OF this] show "map_of q' = map_of q" by simp
  qed (rule rest remove expired | assumption)+
qed

end
