(* ===== verification/Deadline_Table.thy ===== *)
theory Deadline_Table
  imports Runtime
begin

text \<open>
  What the client's and the server's \<^verbatim>\<open>InFlightRequests\<close> have in common: a hash map of
  requests by id and a delay queue that holds one timer for each of them.  \<open>synced\<close> is the
  invariant that ties the two together, with one lemma for each way the tables change.
  The locale \<open>in_flight_table\<close> is the contract both tables offer to the tasks that use them.
\<close>

section \<open>A map and its timers\<close>

definition synced :: "entries \<Rightarrow> ('d \<Rightarrow> dq_key) \<Rightarrow> (u64 \<times> 'd) list \<Rightarrow> bool" where
  "synced ent key m \<longleftrightarrow>
     distinct_keys m \<and>
     (\<forall>i d. map_of m i = Some d \<longrightarrow> (\<exists>t. ent (key d) = Some (i, t))) \<and>
     (\<forall>k i t. ent k = Some (i, t) \<longrightarrow> (\<exists>d. map_of m i = Some d \<and> key d = k))"

named_theorems table \<open>how operations change a map and its timers\<close>

lemma synced_distinct: "synced ent key m \<Longrightarrow> distinct_keys m"
  by (simp add: synced_def)

lemma synced_timer: "synced ent key m \<Longrightarrow> map_of m i = Some d \<Longrightarrow> \<exists>t. ent (key d) = Some (i, t)"
  by (simp add: synced_def)

lemma synced_request: "synced ent key m \<Longrightarrow> ent k = Some (i, t) \<Longrightarrow> \<exists>d. map_of m i = Some d \<and> key d = k"
  by (simp add: synced_def)

lemma synced_empty [table, simp]: "synced Map.empty key m \<longleftrightarrow> m = []"
proof
  assume s: "synced Map.empty key m"
  then have "map_of m i = None" for i
    by (cases "map_of m i") (auto dest: synced_timer)
  then show "m = []" by (metis map_of_eq_empty_iff ext)
qed (simp add: synced_def)

lemma synced_no_timers: "synced ent key m \<Longrightarrow> ent = Map.empty \<longleftrightarrow> m = []"
proof
  assume "synced ent key m" "m = []"
  then have "ent k = None" for k
    by (cases "ent k") (auto dest: synced_request)
  then show "ent = Map.empty" by (rule ext)
qed simp

lemma synced_insert [table]:
  assumes s: "synced ent key m" and i: "map_of m i = None" and k: "ent (key d) = None"
  shows "synced (ent(key d \<mapsto> (i, t))) key ((i, d) # m)"
  unfolding synced_def
proof (intro conjI allI impI)
  show "distinct_keys ((i, d) # m)"
    using s i by (simp add: synced_def map_of_eq_None_keys)
next
  fix j e assume j: "map_of ((i, d) # m) j = Some e"
  show "\<exists>t'. (ent(key d \<mapsto> (i, t))) (key e) = Some (j, t')"
  proof (cases "j = i")
    case False
    with j s obtain t' where "ent (key e) = Some (j, t')" by (auto dest: synced_timer)
    with k show ?thesis by auto
  qed (use j in auto)
next
  fix k' j t' assume e: "(ent(key d \<mapsto> (i, t))) k' = Some (j, t')"
  show "\<exists>e. map_of ((i, d) # m) j = Some e \<and> key e = k'"
  proof (cases "k' = key d")
    case False
    with e s obtain e where "map_of m j = Some e" "key e = k'" by (auto dest: synced_request)
    with i show ?thesis by auto
  qed (use e in auto)
qed

lemma synced_remove [table]:
  assumes s: "synced ent key m" and i: "map_of m i = Some d"
  shows "synced (ent(key d := None)) key (AList.delete i m)"
  unfolding synced_def
proof (intro conjI allI impI)
  show "distinct_keys (AList.delete i m)"
    using s by (simp add: synced_def)
next
  fix j e assume j: "map_of (AList.delete i m) j = Some e"
  with s obtain t where t: "ent (key e) = Some (j, t)" and "j \<noteq> i"
    by (auto dest: synced_timer split: if_splits)
  moreover from s i obtain t' where "ent (key d) = Some (i, t')" by (auto dest: synced_timer)
  ultimately show "\<exists>t. (ent(key d := None)) (key e) = Some (j, t)" by auto
next
  fix k j t assume e: "(ent(key d := None)) k = Some (j, t)"
  then have "k \<noteq> key d" "ent k = Some (j, t)" by (auto split: if_splits)
  with s obtain e where "map_of m j = Some e" "key e = k" by (auto dest: synced_request)
  with i \<open>k \<noteq> key d\<close> show "\<exists>e. map_of (AList.delete i m) j = Some e \<and> key e = k" by auto
qed

text \<open>Taking the timer of a request out of the queue, as the removing operations do.\<close>

lemma synced_dq_remove:
  assumes "delay_queue_laws dq ent horizon" "synced (ent q) key m" "map_of m i = Some d"
  shows "\<exists>q'. dq_remove dq q (key d) = Some q' \<and> synced (ent q') key (AList.delete i m)"
proof -
  from assms(2,3) obtain t where "ent q (key d) = Some (i, t)" by (auto dest: synced_timer)
  from dq_law_remove[OF assms(1) this] obtain q'
    where "dq_remove dq q (key d) = Some q'" "ent q' = (ent q)(key d := None)" by blast
  with synced_remove[OF assms(2,3)] show ?thesis by auto
qed

text \<open>The timer that expires belongs to a request of the map.\<close>

lemma synced_dq_expired:
  assumes "delay_queue_laws dq ent horizon" "synced (ent q) key m"
    and "dq_poll_expired dq q now = (Ready (Some i), q')"
  shows "\<exists>d. map_of m i = Some d \<and> synced (ent q') key (AList.delete i m)"
proof -
  from dq_law_expired[OF assms(1,3)] obtain k t
    where k: "ent q k = Some (i, t)" "ent q' = (ent q)(k := None)" by blast
  with assms(2) obtain d where "map_of m i = Some d" "key d = k" by (auto dest: synced_request)
  with synced_remove[OF assms(2)] k show ?thesis by auto
qed

section \<open>The contract of an in-flight table\<close>

text \<open>
  \<open>remove\<close> takes a request out of the table, reporting whether it was there; \<open>expire\<close> takes
  out a request whose deadline has passed.  Neither touches any other request.
\<close>

locale in_flight_table =
  fixes inv :: "'f \<Rightarrow> bool" and ids :: "'f \<Rightarrow> u64 set" and len :: "'f \<Rightarrow> nat"
    and remove :: "u64 \<Rightarrow> 'f \<Rightarrow> (bool \<times> 'f) outcome"
    and expire :: "instant \<Rightarrow> 'f \<Rightarrow> u64 option poll \<times> 'f"
  assumes finite_ids: "finite (ids f)"
    and len_ids: "inv f \<Longrightarrow> len f = card (ids f)"
    and remove_law: "inv f \<Longrightarrow>
      yields (remove i f) (\<lambda>(found, f'). inv f' \<and> found = (i \<in> ids f) \<and> ids f' = ids f - {i})"
    and expire_some: "inv f \<Longrightarrow> expire now f = (Ready (Some i), f') \<Longrightarrow>
      inv f' \<and> i \<in> ids f \<and> ids f' = ids f - {i}"
    and expire_idle: "inv f \<Longrightarrow> expire now f = (p, f') \<Longrightarrow> p = Pending \<or> p = Ready None \<Longrightarrow>
      inv f' \<and> ids f' = ids f"
begin

lemma len_remove:
  assumes "inv f"
  shows "yields (remove i f) (\<lambda>(found, f'). len f = len f' + (if found then 1 else 0))"
proof (rule yields_mono[OF remove_law[OF assms, of i]])
  fix r assume "case r of (found, f') \<Rightarrow> inv f' \<and> found = (i \<in> ids f) \<and> ids f' = ids f - {i}"
  then obtain f' where r: "r = (i \<in> ids f, f')" "inv f'" "ids f' = ids f - {i}"
    by (cases r) simp
  have "card (ids f) = card (ids f - {i}) + (if i \<in> ids f then 1 else 0)"
    using card_Suc_Diff1[OF finite_ids, of i f] by (cases "i \<in> ids f") simp_all
  with r assms show "case r of (found, f') \<Rightarrow> len f = len f' + (if found then 1 else 0)"
    by (simp add: len_ids)
qed

lemma len_expire: "inv f \<Longrightarrow> expire now f = (Ready (Some i), f') \<Longrightarrow> len f = Suc (len f')"
  using expire_some[of f now i f'] card_Suc_Diff1[OF finite_ids, of i f] by (simp add: len_ids)

lemma len_expire_idle:
  "inv f \<Longrightarrow> expire now f = (p, f') \<Longrightarrow> p = Pending \<or> p = Ready None \<Longrightarrow> len f' = len f"
  using expire_idle[of f now p f'] by (simp add: len_ids)

lemma remove_absent:
  assumes "inv f" "i \<notin> ids f"
  shows "yields (remove i f) (\<lambda>(found, f'). \<not> found \<and> ids f' = ids f)"
  by (rule yields_mono[OF remove_law[OF assms(1), of i]]) (use assms(2) in auto)

lemma remove_twice:
  assumes "inv f"
  shows "yields (remove i f) (\<lambda>(_, f'). yields (remove i f') (\<lambda>(found, f''). \<not> found \<and> ids f'' = ids f'))"
  by (rule yields_mono[OF remove_law[OF assms, of i]]) (auto intro!: remove_absent)

lemma expired_not_removable:
  assumes "inv f" "expire now f = (Ready (Some i), f')"
  shows "yields (remove i f') (\<lambda>(found, f''). \<not> found)"
  using expire_some[OF assms] remove_absent[of f' i] by (auto elim!: yields_mono)

end

end
