(* ===== verification/Client_In_Flight.thy ===== *)
theory Client_In_Flight
  imports Deadline_Table
begin

text \<open>
  \<^verbatim>\<open>tarpc/src/client/in_flight_requests.rs\<close>: the requests the client has written to the
  wire and that have not been answered.  \<open>send\<close> stands for \<^verbatim>\<open>oneshot::Sender::send\<close>, whose
  result the code ignores; it acts on the world \<open>'w\<close>.
\<close>

section \<open>State\<close>

record client_request_data =
  rd_ctx :: rpc_context
  rd_span :: span
  rd_response_completion :: oneshot
  rd_deadline_key :: dq_key

record 'q client_in_flight =
  request_data :: "(u64 \<times> client_request_data) list"
  deadlines :: 'q

datatype already_exists_error = AlreadyExistsError

definition client_in_flight_default :: "'q delay_queue \<Rightarrow> 'q client_in_flight" where
  "client_in_flight_default dq = \<lparr>request_data = [], deadlines = dq_default dq\<rparr>"

section \<open>Operations\<close>

definition client_len :: "'q client_in_flight \<Rightarrow> nat" where
  "client_len f = length (request_data f)"

definition client_is_empty :: "'q client_in_flight \<Rightarrow> bool" where
  "client_is_empty f \<longleftrightarrow> request_data f = []"

definition insert_request ::
  "'q delay_queue \<Rightarrow> instant \<Rightarrow> 'q client_in_flight \<Rightarrow> u64 \<Rightarrow> rpc_context \<Rightarrow> span \<Rightarrow> oneshot \<Rightarrow>
   ((unit, already_exists_error) result \<times> 'q client_in_flight) outcome" where
  "insert_request dq now f i ctx sp response_completion =
     (case map_of (request_data f) i of
        None \<Rightarrow>
          obind (or_panic (dq_insert dq (deadlines f) now i (time_until now (deadline ctx)))) (\<lambda>(key, q).
            Return (Ok (),
              \<lparr>request_data =
                 (i, \<lparr>rd_ctx = ctx, rd_span = sp, rd_response_completion = response_completion,
                      rd_deadline_key = key\<rparr>) # request_data f,
               deadlines = q\<rparr>))
      | Some _ \<Rightarrow> Return (Err AlreadyExistsError, f))"

definition complete_request ::
  "'q delay_queue \<Rightarrow> ('w \<Rightarrow> oneshot \<Rightarrow> 'res \<Rightarrow> 'w) \<Rightarrow> 'w \<Rightarrow> 'q client_in_flight \<Rightarrow> u64 \<Rightarrow> 'res \<Rightarrow>
   (span option \<times> 'q client_in_flight \<times> 'w) outcome" where
  "complete_request dq send w f i result =
     (case map_of (request_data f) i of
        Some rd \<Rightarrow>
          obind (or_panic (dq_remove dq (deadlines f) (rd_deadline_key rd))) (\<lambda>q.
            Return (Some (rd_span rd),
                    \<lparr>request_data = AList.delete i (request_data f), deadlines = q\<rparr>,
                    send w (rd_response_completion rd) result))
      | None \<Rightarrow> Return (None, f, w))"

definition complete_all_requests ::
  "'q delay_queue \<Rightarrow> ('w \<Rightarrow> oneshot \<Rightarrow> 'res \<Rightarrow> 'w) \<Rightarrow> 'w \<Rightarrow> 'q client_in_flight \<Rightarrow> 'res \<Rightarrow>
   span list \<times> 'q client_in_flight \<times> 'w" where
  "complete_all_requests dq send w f result =
     (map (rd_span \<circ> snd) (request_data f),
      \<lparr>request_data = [], deadlines = dq_clear dq (deadlines f)\<rparr>,
      fold (\<lambda>(_, rd) w. send w (rd_response_completion rd) result) (request_data f) w)"

definition cancel_request ::
  "'q delay_queue \<Rightarrow> 'q client_in_flight \<Rightarrow> u64 \<Rightarrow>
   ((rpc_context \<times> span) option \<times> 'q client_in_flight) outcome" where
  "cancel_request dq f i =
     (case map_of (request_data f) i of
        Some rd \<Rightarrow>
          obind (or_panic (dq_remove dq (deadlines f) (rd_deadline_key rd))) (\<lambda>q.
            Return (Some (rd_ctx rd, rd_span rd),
                    \<lparr>request_data = AList.delete i (request_data f), deadlines = q\<rparr>))
      | None \<Rightarrow> Return (None, f))"

definition client_poll_expired ::
  "'q delay_queue \<Rightarrow> ('w \<Rightarrow> oneshot \<Rightarrow> 'res \<Rightarrow> 'w) \<Rightarrow> instant \<Rightarrow> 'w \<Rightarrow> 'q client_in_flight \<Rightarrow> 'res \<Rightarrow>
   u64 option poll \<times> 'q client_in_flight \<times> 'w" where
  "client_poll_expired dq send now w f expired_error =
     (case dq_poll_expired dq (deadlines f) now of
        (Ready (Some i), q) \<Rightarrow>
          (case map_of (request_data f) i of
             Some rd \<Rightarrow> (Ready (Some i),
                         \<lparr>request_data = AList.delete i (request_data f), deadlines = q\<rparr>,
                         send w (rd_response_completion rd) expired_error)
           | None \<Rightarrow> (Ready (Some i), f\<lparr>deadlines := q\<rparr>, w))
      | (p, q) \<Rightarrow> (p, f\<lparr>deadlines := q\<rparr>, w))"

section \<open>Invariant and laws\<close>

definition client_ids :: "'q client_in_flight \<Rightarrow> u64 set" where
  "client_ids f = keys (request_data f)"

definition client_inv :: "'q delay_queue \<Rightarrow> ('q \<Rightarrow> entries) \<Rightarrow> instant \<Rightarrow> 'q client_in_flight \<Rightarrow> bool" where
  "client_inv dq ent horizon f \<longleftrightarrow>
     delay_queue_laws dq ent horizon \<and>
     synced (ent (deadlines f)) rd_deadline_key (request_data f)"

lemma client_inv_laws [dest]: "client_inv dq ent hz f \<Longrightarrow> delay_queue_laws dq ent hz"
  by (simp add: client_inv_def)

lemma client_len_card: "client_inv dq ent hz f \<Longrightarrow> client_len f = card (client_ids f)"
  using card_keys[OF synced_distinct[of "ent (deadlines f)" rd_deadline_key "request_data f"]]
  by (simp add: client_inv_def client_len_def client_ids_def)

lemma client_is_empty_iff: "client_is_empty f \<longleftrightarrow> client_ids f = {}"
  by (simp add: client_is_empty_def client_ids_def)

lemma finite_client_ids [simp]: "finite (client_ids f)"
  by (simp add: client_ids_def)

lemma client_in_flight_default_inv:
  "delay_queue_laws dq ent hz \<Longrightarrow> client_inv dq ent hz (client_in_flight_default dq)"
  by (simp add: client_inv_def client_in_flight_default_def dq_law_default)

lemma client_in_flight_default_ids [simp]: "client_ids (client_in_flight_default dq) = {}"
  by (simp add: client_ids_def client_in_flight_default_def)

lemma insert_request_new:
  assumes "client_inv dq ent hz f" "i \<notin> client_ids f" "max now (deadline ctx) \<le> hz"
  shows "yields (insert_request dq now f i ctx sp os)
    (\<lambda>(r, f'). r = Ok () \<and> client_inv dq ent hz f' \<and> client_ids f' = insert i (client_ids f) \<and>
       (\<exists>rd. map_of (request_data f') i = Some rd \<and> rd_ctx rd = ctx \<and> rd_span rd = sp \<and>
             rd_response_completion rd = os \<and>
             ent (deadlines f') (rd_deadline_key rd) = Some (i, max now (deadline ctx))) \<and>
       (\<forall>j. j \<noteq> i \<longrightarrow> map_of (request_data f') j = map_of (request_data f) j))"
proof -
  let ?d = "time_until now (deadline ctx)"
  have laws: "delay_queue_laws dq ent hz" and s: "synced (ent (deadlines f)) rd_deadline_key (request_data f)"
    using assms(1) by (simp_all add: client_inv_def)
  have sum: "now + ?d = max now (deadline ctx)"
    by (simp add: time_until_def duration_since_def)
  obtain k q where ins: "dq_insert dq (deadlines f) now i ?d = Some (k, q)"
    using dq_law_accepts[OF laws, of now ?d "deadlines f" i] assms(3) sum by auto
  let ?rd = "\<lparr>rd_ctx = ctx, rd_span = sp, rd_response_completion = os, rd_deadline_key = k\<rparr>"
  have none: "map_of (request_data f) i = None"
    using assms(2) by (simp add: client_ids_def map_of_eq_None_keys)
  have ent: "ent q = (ent (deadlines f))(k \<mapsto> (i, max now (deadline ctx)))"
    using dq_law_inserted[OF laws ins] sum by simp
  have "synced (ent q) rd_deadline_key ((i, ?rd) # request_data f)"
    using synced_insert[OF s none, of ?rd "max now (deadline ctx)"] dq_law_insert[OF laws ins] ent by simp
  then show ?thesis
    using none ins ent laws by (simp add: insert_request_def client_inv_def client_ids_def)
qed

lemma insert_request_duplicate:
  "i \<in> client_ids f \<Longrightarrow> insert_request dq now f i ctx sp os = Return (Err AlreadyExistsError, f)"
  using map_of_eq_None_keys[of "request_data f" i]
  by (cases "map_of (request_data f) i") (auto simp: insert_request_def client_ids_def)

lemma complete_request_found:
  assumes "client_inv dq ent hz f" "map_of (request_data f) i = Some rd"
  shows "\<exists>f'. complete_request dq send w f i r =
            Return (Some (rd_span rd), f', send w (rd_response_completion rd) r) \<and>
          client_inv dq ent hz f' \<and> request_data f' = AList.delete i (request_data f)"
  using assms synced_dq_remove[of dq ent hz "deadlines f" rd_deadline_key "request_data f" i rd]
  by (auto simp: complete_request_def client_inv_def)

lemma complete_request_absent:
  "i \<notin> client_ids f \<Longrightarrow> complete_request dq send w f i r = Return (None, f, w)"
  by (simp add: complete_request_def client_ids_def map_of_eq_None_keys[THEN iffD2])

lemma cancel_request_found:
  assumes "client_inv dq ent hz f" "map_of (request_data f) i = Some rd"
  shows "\<exists>f'. cancel_request dq f i = Return (Some (rd_ctx rd, rd_span rd), f') \<and>
          client_inv dq ent hz f' \<and> request_data f' = AList.delete i (request_data f)"
  using assms synced_dq_remove[of dq ent hz "deadlines f" rd_deadline_key "request_data f" i rd]
  by (auto simp: cancel_request_def client_inv_def)

lemma cancel_request_absent:
  "i \<notin> client_ids f \<Longrightarrow> cancel_request dq f i = Return (None, f)"
  by (simp add: cancel_request_def client_ids_def map_of_eq_None_keys[THEN iffD2])

lemma complete_all_requests_inv:
  assumes "client_inv dq ent hz f" "complete_all_requests dq send w f r = (spans, f', w')"
  shows "client_inv dq ent hz f'" "client_ids f' = {}"
  using assms by (auto simp: complete_all_requests_def client_inv_def client_ids_def dq_law_clear)

lemma client_poll_expired_some:
  assumes "client_inv dq ent hz f" "client_poll_expired dq send now w f r = (Ready (Some i), f', w')"
  shows "\<exists>rd. map_of (request_data f) i = Some rd \<and> w' = send w (rd_response_completion rd) r \<and>
           request_data f' = AList.delete i (request_data f) \<and> client_inv dq ent hz f'"
proof -
  from assms(2) obtain q where q: "dq_poll_expired dq (deadlines f) now = (Ready (Some i), q)"
    by (auto simp: client_poll_expired_def split: prod.splits poll.splits option.splits)
  have laws: "delay_queue_laws dq ent hz" and s: "synced (ent (deadlines f)) rd_deadline_key (request_data f)"
    using assms(1) by (simp_all add: client_inv_def)
  from synced_dq_expired[OF laws s q] assms(2) q laws show ?thesis
    by (auto simp: client_poll_expired_def client_inv_def)
qed

lemma client_poll_expired_idle:
  assumes "client_inv dq ent hz f" "client_poll_expired dq send now w f r = (p, f', w')"
    and "p = Pending \<or> p = Ready None"
  shows "client_inv dq ent hz f' \<and> request_data f' = request_data f \<and> w' = w"
proof -
  from assms(2,3) obtain q where q: "dq_poll_expired dq (deadlines f) now = (p, q)"
    and f': "f' = f\<lparr>deadlines := q\<rparr>" "w' = w"
    by (auto simp: client_poll_expired_def split: prod.splits poll.splits option.splits)
  have laws: "delay_queue_laws dq ent hz" using assms(1) by (simp add: client_inv_def)
  have "ent q = ent (deadlines f)"
    using assms(3)
  proof
    assume "p = Pending"
    with q show ?thesis by (simp add: dq_law_pending[OF laws])
  next
    assume "p = Ready None"
    with q dq_law_none[OF laws, of "deadlines f" now q] show ?thesis by simp
  qed
  with f' assms(1) show ?thesis by (simp add: client_inv_def)
qed

text \<open>What the removing operations do whatever they find.\<close>

lemma complete_request_result:
  assumes "client_inv dq ent hz f"
  shows "yields (complete_request dq send w f i r)
    (\<lambda>(sp, f', w'). client_inv dq ent hz f' \<and> request_data f' = AList.delete i (request_data f) \<and>
       (case map_of (request_data f) i of
          None \<Rightarrow> sp = None \<and> w' = w
        | Some rd \<Rightarrow> sp = Some (rd_span rd) \<and> w' = send w (rd_response_completion rd) r))"
proof (cases "map_of (request_data f) i")
  case None
  then have "i \<notin> client_ids f" by (simp add: client_ids_def map_of_eq_None_keys)
  with None assms show ?thesis
    by (simp add: complete_request_absent AList.delete_id client_ids_def keys_def)
next
  case (Some rd)
  with complete_request_found[OF assms Some, of send w r] show ?thesis by auto
qed

lemma cancel_request_result:
  assumes "client_inv dq ent hz f"
  shows "yields (cancel_request dq f i)
    (\<lambda>(c, f'). client_inv dq ent hz f' \<and> request_data f' = AList.delete i (request_data f) \<and>
       c = map_option (\<lambda>rd. (rd_ctx rd, rd_span rd)) (map_of (request_data f) i))"
proof (cases "map_of (request_data f) i")
  case None
  then have "i \<notin> client_ids f" by (simp add: client_ids_def map_of_eq_None_keys)
  with None assms show ?thesis
    by (simp add: cancel_request_absent AList.delete_id client_ids_def keys_def)
next
  case (Some rd)
  with cancel_request_found[OF assms Some] show ?thesis by auto
qed

lemma client_poll_expired_result:
  assumes "client_inv dq ent hz f" "client_poll_expired dq send now w f r = (p, f', w')"
  shows "client_inv dq ent hz f' \<and>
    (case p of
       Ready (Some i) \<Rightarrow> (\<exists>rd. map_of (request_data f) i = Some rd \<and>
         w' = send w (rd_response_completion rd) r \<and> request_data f' = AList.delete i (request_data f))
     | _ \<Rightarrow> request_data f' = request_data f \<and> w' = w)"
  using assms client_poll_expired_some[OF assms(1), of send now w r _ f' w']
    client_poll_expired_idle[OF assms]
  by (auto split: poll.splits option.splits)

text \<open>Both ways to take a request out of the table keep the contract.\<close>

interpretation client_complete: in_flight_table
  "client_inv dq ent hz" client_ids client_len
  "\<lambda>i f. obind (complete_request dq send w f i r) (\<lambda>(sp, f', w'). Return (sp \<noteq> None, f'))"
  "\<lambda>now f. case client_poll_expired dq send now w f e of (p, f', w') \<Rightarrow> (p, f')"
  for dq ent hz send w r e
proof (unfold_locales, goal_cases)
  case (3 f i)
  show ?case
  proof (cases "map_of (request_data f) i")
    case None
    then have "i \<notin> client_ids f" by (simp add: client_ids_def map_of_eq_None_keys)
    with 3 show ?thesis by (simp add: complete_request_absent)
  next
    case (Some rd)
    with complete_request_found[OF 3 Some, of send w r] show ?thesis
      by (auto simp: client_ids_def map_of_Some_keys)
  qed
next
  case (4 f now i f')
  then show ?case
    using client_poll_expired_some[of dq ent hz f send now w e i f']
    by (auto simp: client_ids_def map_of_Some_keys split: prod.splits)
next
  case (5 f now p f')
  then show ?case
    using client_poll_expired_idle[of dq ent hz f send now w e p f']
    by (auto simp: client_ids_def split: prod.splits)
qed (simp_all add: client_len_card)

interpretation client_cancel: in_flight_table
  "client_inv dq ent hz" client_ids client_len
  "\<lambda>i f. obind (cancel_request dq f i) (\<lambda>(c, f'). Return (c \<noteq> None, f'))"
  "\<lambda>now f. case client_poll_expired dq send now w f e of (p, f', w') \<Rightarrow> (p, f')"
  for dq ent hz send w e
proof (unfold_locales, goal_cases)
  case (3 f i)
  show ?case
  proof (cases "map_of (request_data f) i")
    case None
    then have "i \<notin> client_ids f" by (simp add: client_ids_def map_of_eq_None_keys)
    with 3 show ?thesis by (simp add: cancel_request_absent)
  next
    case (Some rd)
    with cancel_request_found[OF 3 Some] show ?thesis
      by (auto simp: client_ids_def map_of_Some_keys)
  qed
next
  case (4 f now i f')
  then show ?case by (rule client_complete.expire_some)
next
  case (5 f now p f')
  then show ?case by (rule client_complete.expire_idle)
qed (simp_all add: client_len_card)

end
