(* ===== verification/Client_Dispatch.thy ===== *)
theory Client_Dispatch
  imports Client_In_Flight
begin

text \<open>
  \<^verbatim>\<open>RequestDispatch\<close> of \<^verbatim>\<open>tarpc/src/client.rs\<close>: the task that writes requests and
  cancellations to the transport and completes the callers.  The environment record holds
  what the task is connected to: the transport, the receiving ends of the two \<^verbatim>\<open>mpsc\<close>
  channels, the callers' one-shot channels and the clock.  All of them act on the world
  \<open>'w\<close>.
\<close>

section \<open>Data\<close>

record client_config =
  max_in_flight_requests :: nat
  pending_request_buffer :: nat

definition client_config_default :: client_config where
  "client_config_default = \<lparr>max_in_flight_requests = 1000, pending_request_buffer = 100\<rparr>"

record 'req dispatch_request =
  dr_ctx :: rpc_context
  dr_span :: span
  dr_request_id :: u64
  dr_request :: 'req
  dr_response_completion :: oneshot

record ('w, 'q, 'req, 'resp, 'e) client_env =
  ce_transport :: "('w, 'req client_message, 'resp response, 'e) transport"
  ce_pending_poll_recv :: "'w \<Rightarrow> 'req dispatch_request option poll \<times> 'w"
  ce_pending_close :: "'w \<Rightarrow> 'w"
  ce_canceled_poll_recv :: "'w \<Rightarrow> u64 option poll \<times> 'w"
  ce_is_closed :: "'w \<Rightarrow> oneshot \<Rightarrow> bool"
  ce_send :: "'w \<Rightarrow> oneshot \<Rightarrow> ('resp, 'e rpc_error) result \<Rightarrow> 'w"
  ce_now :: "'w \<Rightarrow> instant"
  ce_delay_queue :: "'q delay_queue"
  ce_error_type :: nat

record ('w, 'q, 'e) dispatch =
  d_world :: 'w
  d_in_flight :: "'q client_in_flight"
  d_config :: client_config
  d_terminal_error :: "'e dyn_any channel_error option"

section \<open>Operations\<close>

subsection \<open>The transport\<close>

definition dispatch_poll_ready ::
  "('w, 'q, 'req, 'resp, 'e) client_env \<Rightarrow> 'w \<Rightarrow> (unit, 'e channel_error) result poll \<times> 'w" where
  "dispatch_poll_ready env w =
     (let (p, w') = tr_poll_ready (ce_transport env) w in (poll_map (map_err ErrReady) p, w'))"

definition dispatch_start_send ::
  "('w, 'q, 'req, 'resp, 'e) client_env \<Rightarrow> 'w \<Rightarrow> 'req client_message \<Rightarrow> (unit, 'e) result \<times> 'w" where
  "dispatch_start_send env w m = tr_start_send (ce_transport env) w m"

definition dispatch_poll_flush ::
  "('w, 'q, 'req, 'resp, 'e) client_env \<Rightarrow> 'w \<Rightarrow> (unit, 'e channel_error) result poll \<times> 'w" where
  "dispatch_poll_flush env w =
     (let (p, w') = tr_poll_flush (ce_transport env) w in (poll_map (map_err ErrFlush) p, w'))"

definition dispatch_poll_close ::
  "('w, 'q, 'req, 'resp, 'e) client_env \<Rightarrow> 'w \<Rightarrow> (unit, 'e channel_error) result poll \<times> 'w" where
  "dispatch_poll_close env w =
     (let (p, w') = tr_poll_close (ce_transport env) w in (poll_map (map_err ErrClose) p, w'))"

definition ensure_writeable_turn ::
  "('w, 'q, 'req, 'resp, 'e) client_env \<Rightarrow> 'w \<Rightarrow>
   ((unit, 'e channel_error) result option poll control \<times> 'w) outcome" where
  "ensure_writeable_turn env w =
     (case dispatch_poll_ready env w of
        (Ready (Err e), w1) \<Rightarrow> Return (Break (Ready (Some (Err e))), w1)
      | (Ready (Ok _), w1) \<Rightarrow> Return (Break (Ready (Some (Ok ()))), w1)
      | (Pending, w1) \<Rightarrow>
          (case dispatch_poll_flush env w1 of
             (Ready (Err e), w2) \<Rightarrow> Return (Break (Ready (Some (Err e))), w2)
           | (Pending, w2) \<Rightarrow> Return (Break Pending, w2)
           | (Ready (Ok _), w2) \<Rightarrow> Return (Continue, w2)))"

definition ensure_writeable ::
  "nat \<Rightarrow> ('w, 'q, 'req, 'resp, 'e) client_env \<Rightarrow> 'w \<Rightarrow>
   ((unit, 'e channel_error) result option poll \<times> 'w) outcome" where
  "ensure_writeable n env = loop n (ensure_writeable_turn env)"

subsection \<open>Reading\<close>

definition dispatch_complete ::
  "('w, 'q, 'req, 'resp, 'e) client_env \<Rightarrow> ('w, 'q, 'e) dispatch \<Rightarrow> 'resp response \<Rightarrow>
   (bool \<times> ('w, 'q, 'e) dispatch) outcome" where
  "dispatch_complete env d resp =
     obind (complete_request (ce_delay_queue env) (ce_send env) (d_world d) (d_in_flight d)
              (request_id resp) (map_err Server (response_message resp)))
       (\<lambda>(sp, f, w). Return (sp \<noteq> None, d\<lparr>d_in_flight := f, d_world := w\<rparr>))"

definition client_pump_read ::
  "('w, 'q, 'req, 'resp, 'e) client_env \<Rightarrow> ('w, 'q, 'e) dispatch \<Rightarrow>
   ((unit, 'e channel_error) result option poll \<times> ('w, 'q, 'e) dispatch) outcome" where
  "client_pump_read env d =
     (case tr_poll_next (ce_transport env) (d_world d) of
        (Pending, w) \<Rightarrow> Return (Pending, d\<lparr>d_world := w\<rparr>)
      | (Ready None, w) \<Rightarrow> Return (Ready None, d\<lparr>d_world := w\<rparr>)
      | (Ready (Some (Err e)), w) \<Rightarrow> Return (Ready (Some (Err (ErrRead e))), d\<lparr>d_world := w\<rparr>)
      | (Ready (Some (Ok resp)), w) \<Rightarrow>
          obind (dispatch_complete env (d\<lparr>d_world := w\<rparr>) resp) (\<lambda>(_, d').
            Return (Ready (Some (Ok ())), d')))"

subsection \<open>Writing\<close>

definition next_request_turn ::
  "('w, 'q, 'req, 'resp, 'e) client_env \<Rightarrow> ('w, 'q, 'e) dispatch \<Rightarrow>
   (('req dispatch_request, 'e channel_error) result option poll control \<times> ('w, 'q, 'e) dispatch) outcome" where
  "next_request_turn env d =
     (case ce_pending_poll_recv env (d_world d) of
        (Pending, w) \<Rightarrow> Return (Break Pending, d\<lparr>d_world := w\<rparr>)
      | (Ready (Some request), w) \<Rightarrow>
          if ce_is_closed env w (dr_response_completion request)
          then Return (Continue, d\<lparr>d_world := w\<rparr>)
          else Return (Break (Ready (Some (Ok request))), d\<lparr>d_world := w\<rparr>)
      | (Ready None, w) \<Rightarrow> Return (Break (Ready None), d\<lparr>d_world := w\<rparr>))"

definition poll_next_request ::
  "nat \<Rightarrow> ('w, 'q, 'req, 'resp, 'e) client_env \<Rightarrow> ('w, 'q, 'e) dispatch \<Rightarrow>
   (('req dispatch_request, 'e channel_error) result option poll \<times> ('w, 'q, 'e) dispatch) outcome" where
  "poll_next_request n env d =
     (if client_len (d_in_flight d) \<ge> max_in_flight_requests (d_config d) then Return (Pending, d)
      else obind (ensure_writeable n env (d_world d)) (\<lambda>(p, w).
        case p of
          Pending \<Rightarrow> Return (Pending, d\<lparr>d_world := w\<rparr>)
        | Ready (Some (Err e)) \<Rightarrow> Return (Ready (Some (Err e)), d\<lparr>d_world := w\<rparr>)
        | Ready _ \<Rightarrow> loop n (next_request_turn env) (d\<lparr>d_world := w\<rparr>)))"

definition next_cancellation_turn ::
  "('w, 'q, 'req, 'resp, 'e) client_env \<Rightarrow> ('w, 'q, 'e) dispatch \<Rightarrow>
   ((rpc_context \<times> span \<times> u64, 'e channel_error) result option poll control \<times> ('w, 'q, 'e) dispatch) outcome" where
  "next_cancellation_turn env d =
     (case ce_canceled_poll_recv env (d_world d) of
        (Pending, w) \<Rightarrow> Return (Break Pending, d\<lparr>d_world := w\<rparr>)
      | (Ready (Some i), w) \<Rightarrow>
          obind (cancel_request (ce_delay_queue env) (d_in_flight d) i) (\<lambda>(c, f).
            case c of
              Some (ctx, sp) \<Rightarrow>
                Return (Break (Ready (Some (Ok (ctx, sp, i)))), d\<lparr>d_in_flight := f, d_world := w\<rparr>)
            | None \<Rightarrow> Return (Continue, d\<lparr>d_in_flight := f, d_world := w\<rparr>))
      | (Ready None, w) \<Rightarrow> Return (Break (Ready None), d\<lparr>d_world := w\<rparr>))"

definition poll_next_cancellation ::
  "nat \<Rightarrow> ('w, 'q, 'req, 'resp, 'e) client_env \<Rightarrow> ('w, 'q, 'e) dispatch \<Rightarrow>
   ((rpc_context \<times> span \<times> u64, 'e channel_error) result option poll \<times> ('w, 'q, 'e) dispatch) outcome" where
  "poll_next_cancellation n env d =
     obind (ensure_writeable n env (d_world d)) (\<lambda>(p, w).
       case p of
         Pending \<Rightarrow> Return (Pending, d\<lparr>d_world := w\<rparr>)
       | Ready (Some (Err e)) \<Rightarrow> Return (Ready (Some (Err e)), d\<lparr>d_world := w\<rparr>)
       | Ready _ \<Rightarrow> loop n (next_cancellation_turn env) (d\<lparr>d_world := w\<rparr>))"

definition request_message :: "'req dispatch_request \<Rightarrow> 'req client_message" where
  "request_message r =
     Request \<lparr>request_context = \<lparr>deadline = deadline (dr_ctx r), trace_context = trace_context (dr_ctx r)\<rparr>,
              id = dr_request_id r, message = dr_request r\<rparr>"

definition poll_write_request ::
  "nat \<Rightarrow> ('w, 'q, 'req, 'resp, 'e) client_env \<Rightarrow> ('w, 'q, 'e) dispatch \<Rightarrow>
   ((unit, 'e channel_error) result option poll \<times> ('w, 'q, 'e) dispatch) outcome" where
  "poll_write_request n env d =
     obind (poll_next_request n env d) (\<lambda>(p, d).
       case p of
         Pending \<Rightarrow> Return (Pending, d)
       | Ready (Some (Err e)) \<Rightarrow> Return (Ready (Some (Err e)), d)
       | Ready None \<Rightarrow> Return (Ready None, d)
       | Ready (Some (Ok r)) \<Rightarrow>
           obind (insert_request (ce_delay_queue env) (ce_now env (d_world d)) (d_in_flight d)
                    (dr_request_id r) (dr_ctx r) (dr_span r) (dr_response_completion r)) (\<lambda>(res, f).
             case res of
               Err _ \<Rightarrow> Panic
             | Ok _ \<Rightarrow>
                 (case dispatch_start_send env (d_world d) (request_message r) of
                    (Ok _, w) \<Rightarrow> Return (Ready (Some (Ok ())), d\<lparr>d_in_flight := f, d_world := w\<rparr>)
                  | (Err e, w) \<Rightarrow>
                      obind (complete_request (ce_delay_queue env) (ce_send env) w f
                               (dr_request_id r) (Err (Send e))) (\<lambda>(_, f, w).
                        Return (Ready (Some (Ok ())), d\<lparr>d_in_flight := f, d_world := w\<rparr>)))))"

definition poll_write_cancel ::
  "nat \<Rightarrow> ('w, 'q, 'req, 'resp, 'e) client_env \<Rightarrow> ('w, 'q, 'e) dispatch \<Rightarrow>
   ((unit, 'e channel_error) result option poll \<times> ('w, 'q, 'e) dispatch) outcome" where
  "poll_write_cancel n env d =
     obind (poll_next_cancellation n env d) (\<lambda>(p, d).
       case p of
         Pending \<Rightarrow> Return (Pending, d)
       | Ready (Some (Err e)) \<Rightarrow> Return (Ready (Some (Err e)), d)
       | Ready None \<Rightarrow> Return (Ready None, d)
       | Ready (Some (Ok (ctx, sp, i))) \<Rightarrow>
           (case dispatch_start_send env (d_world d) (Cancel (trace_context ctx) i) of
              (Err e, w) \<Rightarrow> Return (Ready (Some (Err (ErrWrite e))), d\<lparr>d_world := w\<rparr>)
            | (Ok _, w) \<Rightarrow> Return (Ready (Some (Ok ())), d\<lparr>d_world := w\<rparr>)))"

text \<open>\<^verbatim>\<open>pump_write\<close>: the local \<^verbatim>\<open>ReceiverStatus\<close> of each half is whether it is closed.  Its last
  part, when neither half had a message to write, is \<open>pump_write_idle\<close>.\<close>

definition pump_write_idle ::
  "('w, 'q, 'req, 'resp, 'e) client_env \<Rightarrow> bool \<Rightarrow> bool \<Rightarrow> ('w, 'q, 'e) dispatch \<Rightarrow>
   (unit, 'e channel_error) result option poll \<times> ('w, 'q, 'e) dispatch" where
  "pump_write_idle env pending_closed canceled_closed d =
     (case client_poll_expired (ce_delay_queue env) (ce_send env) (ce_now env (d_world d))
             (d_world d) (d_in_flight d) (Err DeadlineExceeded) of
        (Ready (Some _), f, w) \<Rightarrow> (Ready (Some (Ok ())), d\<lparr>d_in_flight := f, d_world := w\<rparr>)
      | (_, f, w) \<Rightarrow>
        if pending_closed \<and> canceled_closed
        then (case dispatch_poll_close env w of
                (Ready (Err e), w') \<Rightarrow> (Ready (Some (Err e)), d\<lparr>d_in_flight := f, d_world := w'\<rparr>)
              | (Pending, w') \<Rightarrow> (Pending, d\<lparr>d_in_flight := f, d_world := w'\<rparr>)
              | (Ready (Ok _), w') \<Rightarrow> (Ready None, d\<lparr>d_in_flight := f, d_world := w'\<rparr>))
        else (case dispatch_poll_flush env w of
                (Ready (Err e), w') \<Rightarrow> (Ready (Some (Err e)), d\<lparr>d_in_flight := f, d_world := w'\<rparr>)
              | (_, w') \<Rightarrow> (Pending, d\<lparr>d_in_flight := f, d_world := w'\<rparr>)))"

definition client_pump_write ::
  "nat \<Rightarrow> ('w, 'q, 'req, 'resp, 'e) client_env \<Rightarrow> ('w, 'q, 'e) dispatch \<Rightarrow>
   ((unit, 'e channel_error) result option poll \<times> ('w, 'q, 'e) dispatch) outcome" where
  "client_pump_write n env d =
     obind (poll_write_request n env d) (\<lambda>(p, d).
       case p of
         Ready (Some r) \<Rightarrow> Return (Ready (Some r), d)
       | _ \<Rightarrow>
         obind (poll_write_cancel n env d) (\<lambda>(c, d).
           case c of
             Ready (Some r) \<Rightarrow> Return (Ready (Some r), d)
           | _ \<Rightarrow> Return (pump_write_idle env (is_ready p) (is_ready c) d)))"

subsection \<open>The task\<close>

definition shut_down_turn ::
  "('w, 'q, 'req, 'resp, 'e) client_env \<Rightarrow> 'e channel_error \<Rightarrow> ('w, 'q, 'e) dispatch \<Rightarrow>
   (unit poll control \<times> ('w, 'q, 'e) dispatch) outcome" where
  "shut_down_turn env e d =
     (case ce_pending_poll_recv env (d_world d) of
        (Pending, w) \<Rightarrow> Return (Break Pending, d\<lparr>d_world := w\<rparr>)
      | (Ready (Some r), w) \<Rightarrow>
          if ce_is_closed env w (dr_response_completion r)
          then Return (Continue, d\<lparr>d_world := w\<rparr>)
          else Return (Continue,
                 d\<lparr>d_world := ce_send env w (dr_response_completion r) (Err (Channel e))\<rparr>)
      | (Ready None, w) \<Rightarrow> Return (Break (Ready ()), d\<lparr>d_world := w\<rparr>))"

definition shut_down_with_terminal_error ::
  "nat \<Rightarrow> ('w, 'q, 'req, 'resp, 'e) client_env \<Rightarrow> ('w, 'q, 'e) dispatch \<Rightarrow> 'e channel_error \<Rightarrow>
   (unit poll \<times> ('w, 'q, 'e) dispatch) outcome" where
  "shut_down_with_terminal_error n env d e =
     (let w = ce_pending_close env (d_world d);
          (_, f, w) = complete_all_requests (ce_delay_queue env) (ce_send env) w (d_in_flight d)
                        (Err (Channel e))
      in loop n (shut_down_turn env e) (d\<lparr>d_in_flight := f, d_world := w\<rparr>))"

text \<open>The \<^verbatim>\<open>match\<close> of \<^verbatim>\<open>run\<close> on what was read and written; the flag says that nothing is in flight.\<close>

fun run_verdict :: "'a option poll \<Rightarrow> 'b option poll \<Rightarrow> bool \<Rightarrow> (unit, 'e channel_error) result poll control" where
  "run_verdict (Ready None) _ _ = Break (Ready (Ok ()))"
| "run_verdict read (Ready None) True = Break (Ready (Ok ()))"
| "run_verdict (Ready (Some _)) (Ready None) False = Continue"
| "run_verdict Pending (Ready None) False = Break Pending"
| "run_verdict (Ready (Some _)) _ _ = Continue"
| "run_verdict _ (Ready (Some _)) _ = Continue"
| "run_verdict Pending Pending _ = Break Pending"

definition client_run_turn ::
  "nat \<Rightarrow> ('w, 'q, 'req, 'resp, 'e) client_env \<Rightarrow> ('w, 'q, 'e) dispatch \<Rightarrow>
   ((unit, 'e channel_error) result poll control \<times> ('w, 'q, 'e) dispatch) outcome" where
  "client_run_turn n env d =
     obind (client_pump_read env d) (\<lambda>(r, d).
       case r of
         Ready (Some (Err e)) \<Rightarrow> Return (Break (Ready (Err e)), d)
       | _ \<Rightarrow>
         obind (client_pump_write n env d) (\<lambda>(wr, d).
           case wr of
             Ready (Some (Err e)) \<Rightarrow> Return (Break (Ready (Err e)), d)
           | _ \<Rightarrow> Return (run_verdict r wr (client_is_empty (d_in_flight d)), d)))"

definition client_run ::
  "nat \<Rightarrow> ('w, 'q, 'req, 'resp, 'e) client_env \<Rightarrow> ('w, 'q, 'e) dispatch \<Rightarrow>
   ((unit, 'e channel_error) result poll \<times> ('w, 'q, 'e) dispatch) outcome" where
  "client_run n env = loop n (client_run_turn n env)"

definition dispatch_poll_turn ::
  "nat \<Rightarrow> ('w, 'q, 'req, 'resp, 'e) client_env \<Rightarrow> ('w, 'q, 'e) dispatch \<Rightarrow>
   ((unit, 'e channel_error) result poll control \<times> ('w, 'q, 'e) dispatch) outcome" where
  "dispatch_poll_turn n env d =
     (case d_terminal_error d of
        Some a \<Rightarrow>
          (case downcast (ce_error_type env) a of
             Err _ \<Rightarrow> Panic
           | Ok e \<Rightarrow>
               obind (shut_down_with_terminal_error n env d (upcast_error e)) (\<lambda>(p, d).
                 case p of
                   Pending \<Rightarrow> Return (Break Pending, d)
                 | Ready _ \<Rightarrow> Return (Break (Ready (Err e)), d)))
      | None \<Rightarrow>
          obind (client_run n env d) (\<lambda>(p, d).
            case p of
              Pending \<Rightarrow> Return (Break Pending, d)
            | Ready (Ok _) \<Rightarrow> Return (Break (Ready (Ok ())), d)
            | Ready (Err e) \<Rightarrow>
                Return (Continue, d\<lparr>d_terminal_error := Some (upcast_any (ce_error_type env) e)\<rparr>)))"

definition dispatch_poll ::
  "nat \<Rightarrow> ('w, 'q, 'req, 'resp, 'e) client_env \<Rightarrow> ('w, 'q, 'e) dispatch \<Rightarrow>
   ((unit, 'e channel_error) result poll \<times> ('w, 'q, 'e) dispatch) outcome" where
  "dispatch_poll n env = loop n (dispatch_poll_turn n env)"

subsection \<open>Creation\<close>

text \<open>
  The dispatch half of \<^verbatim>\<open>client::new\<close>.  \<open>mpsc_channel\<close> is \<^verbatim>\<open>tokio::sync::mpsc::channel\<close>, which
  panics (\<open>None\<close>) on a buffer of size zero; the channels it makes are part of the world.
\<close>

definition dispatch_new ::
  "(nat \<Rightarrow> 'w \<Rightarrow> 'w option) \<Rightarrow> 'q delay_queue \<Rightarrow> client_config \<Rightarrow> 'w \<Rightarrow> ('w, 'q, 'e) dispatch outcome" where
  "dispatch_new mpsc_channel dq config w =
     obind (or_panic (mpsc_channel (pending_request_buffer config) w)) (\<lambda>w.
       Return \<lparr>d_world = w, d_in_flight = client_in_flight_default dq, d_config = config,
               d_terminal_error = None\<rparr>)"

end
