(* ===== verification/Client_Steps.thy ===== *)
theory Client_Steps
  imports Client_Dispatch
begin

text \<open>
  What the dispatch task does, as a step relation: every run of the functions of
  \<open>Client_Dispatch\<close> is a sequence of the steps below (\<open>dispatch_poll_steps\<close>), so that what
  every step keeps, every poll keeps.  \<open>dispatch_inv\<close> is the invariant of the task.
\<close>

section \<open>The environment\<close>

text \<open>\<open>env_step env w w'\<close>: one call of the environment takes the world from \<open>w\<close> to \<open>w'\<close>.\<close>

inductive env_step :: "('w, 'q, 'req, 'resp, 'e) client_env \<Rightarrow> 'w \<Rightarrow> 'w \<Rightarrow> bool" for env where
  es_next: "tr_poll_next (ce_transport env) w = (x, w') \<Longrightarrow> env_step env w w'"
| es_ready: "tr_poll_ready (ce_transport env) w = (y, w') \<Longrightarrow> env_step env w w'"
| es_start_send: "tr_start_send (ce_transport env) w m = (z, w') \<Longrightarrow> env_step env w w'"
| es_flush: "tr_poll_flush (ce_transport env) w = (y, w') \<Longrightarrow> env_step env w w'"
| es_close: "tr_poll_close (ce_transport env) w = (y, w') \<Longrightarrow> env_step env w w'"
| es_pending: "ce_pending_poll_recv env w = (r, w') \<Longrightarrow> env_step env w w'"
| es_pending_close: "ce_pending_close env w = w' \<Longrightarrow> env_step env w w'"
| es_canceled: "ce_canceled_poll_recv env w = (c, w') \<Longrightarrow> env_step env w w'"
| es_send: "ce_send env w os res = w' \<Longrightarrow> env_step env w w'"

text \<open>\<open>env_idle\<close>: a call that moves no message.\<close>

inductive env_idle :: "('w, 'q, 'req, 'resp, 'e) client_env \<Rightarrow> 'w \<Rightarrow> 'w \<Rightarrow> bool" for env where
  ei_next: "tr_poll_next (ce_transport env) w = (x, w') \<Longrightarrow> \<forall>resp. x \<noteq> Ready (Some (Ok resp)) \<Longrightarrow> env_idle env w w'"
| ei_ready: "tr_poll_ready (ce_transport env) w = (y, w') \<Longrightarrow> env_idle env w w'"
| ei_flush: "tr_poll_flush (ce_transport env) w = (y, w') \<Longrightarrow> env_idle env w w'"
| ei_close: "tr_poll_close (ce_transport env) w = (y, w') \<Longrightarrow> env_idle env w w'"
| ei_pending: "ce_pending_poll_recv env w = (r, w') \<Longrightarrow> \<forall>req. r \<noteq> Ready (Some req) \<Longrightarrow> env_idle env w w'"
| ei_pending_close: "ce_pending_close env w = w' \<Longrightarrow> env_idle env w w'"
| ei_canceled: "ce_canceled_poll_recv env w = (c, w') \<Longrightarrow> \<forall>i. c \<noteq> Ready (Some i) \<Longrightarrow> env_idle env w w'"

lemma env_idle_step: "env_idle env w w' \<Longrightarrow> env_step env w w'"
  by (induction rule: env_idle.induct) (auto intro: env_step.intros)

text \<open>
  What the task relies on.  \<open>W\<close> is an invariant of the world, \<open>upcoming w\<close> the request ids
  that are still to come out of the channel of pending requests: an id comes out once, which
  is what \<^verbatim>\<open>Channel::call\<close> ensures by counting.  The clock and the deadlines stay within what
  the delay queue accepts.
\<close>

definition client_env_laws ::
  "('w, 'q, 'req, 'resp, 'e) client_env \<Rightarrow> ('w \<Rightarrow> bool) \<Rightarrow> ('w \<Rightarrow> u64 set) \<Rightarrow> instant \<Rightarrow> bool" where
  "client_env_laws env W upcoming horizon \<longleftrightarrow>
     (\<forall>w w'. W w \<longrightarrow> env_step env w w' \<longrightarrow> W w' \<and> upcoming w' \<subseteq> upcoming w) \<and>
     (\<forall>w. W w \<longrightarrow> ce_now env w \<le> horizon) \<and>
     (\<forall>w r w'. W w \<longrightarrow> ce_pending_poll_recv env w = (Ready (Some r), w') \<longrightarrow>
        dr_request_id r \<in> upcoming w \<and> dr_request_id r \<notin> upcoming w' \<and> deadline (dr_ctx r) \<le> horizon)"

lemma client_env_laws_step:
  "client_env_laws env W up hz \<Longrightarrow> W w \<Longrightarrow> env_step env w w' \<Longrightarrow> W w' \<and> up w' \<subseteq> up w"
  by (simp add: client_env_laws_def)

lemma client_env_laws_steps:
  assumes "client_env_laws env W up hz" "(env_step env)\<^sup>*\<^sup>* w w'" "W w"
  shows "W w' \<and> up w' \<subseteq> up w"
  using assms(2,3)
proof (induction rule: rtranclp_induct)
  case (step w1 w2)
  then show ?case using client_env_laws_step[OF assms(1), of w1 w2] by auto
qed simp

lemma client_env_laws_now: "client_env_laws env W up hz \<Longrightarrow> W w \<Longrightarrow> ce_now env w \<le> hz"
  by (simp add: client_env_laws_def)

lemma client_env_laws_recv:
  "client_env_laws env W up hz \<Longrightarrow> W w \<Longrightarrow> ce_pending_poll_recv env w = (Ready (Some r), w') \<Longrightarrow>
   dr_request_id r \<in> up w \<and> dr_request_id r \<notin> up w' \<and> deadline (dr_ctx r) \<le> hz"
  by (simp add: client_env_laws_def)

section \<open>Steps of the task\<close>

inductive dispatch_step ::
  "('w, 'q, 'req, 'resp, 'e) client_env \<Rightarrow> ('w, 'q, 'e) dispatch \<Rightarrow> ('w, 'q, 'e) dispatch \<Rightarrow> bool"
  for env where
  ds_idle: "env_idle env (d_world d) w \<Longrightarrow> dispatch_step env d (d\<lparr>d_world := w\<rparr>)"
| ds_aborted:
    "ce_pending_poll_recv env (d_world d) = (Ready (Some r), w) \<Longrightarrow>
     ce_is_closed env w (dr_response_completion r) \<Longrightarrow>
     dispatch_step env d (d\<lparr>d_world := w\<rparr>)"
| ds_refused:
    "ce_pending_poll_recv env (d_world d) = (Ready (Some r), w) \<Longrightarrow>
     \<not> ce_is_closed env w (dr_response_completion r) \<Longrightarrow>
     dispatch_step env d (d\<lparr>d_world := ce_send env w (dr_response_completion r) (Err (Channel e))\<rparr>)"
| ds_write:
    "client_len (d_in_flight d) < max_in_flight_requests (d_config d) \<Longrightarrow>
     ce_pending_poll_recv env (d_world d) = (Ready (Some r), w) \<Longrightarrow>
     \<not> ce_is_closed env w (dr_response_completion r) \<Longrightarrow>
     insert_request (ce_delay_queue env) (ce_now env w) (d_in_flight d) (dr_request_id r) (dr_ctx r)
       (dr_span r) (dr_response_completion r) = Return (Ok (), f) \<Longrightarrow>
     tr_start_send (ce_transport env) w (request_message r) = (Ok (), w') \<Longrightarrow>
     dispatch_step env d (d\<lparr>d_in_flight := f, d_world := w'\<rparr>)"
| ds_write_failed:
    "client_len (d_in_flight d) < max_in_flight_requests (d_config d) \<Longrightarrow>
     ce_pending_poll_recv env (d_world d) = (Ready (Some r), w) \<Longrightarrow>
     \<not> ce_is_closed env w (dr_response_completion r) \<Longrightarrow>
     insert_request (ce_delay_queue env) (ce_now env w) (d_in_flight d) (dr_request_id r) (dr_ctx r)
       (dr_span r) (dr_response_completion r) = Return (Ok (), f) \<Longrightarrow>
     tr_start_send (ce_transport env) w (request_message r) = (Err e, w') \<Longrightarrow>
     complete_request (ce_delay_queue env) (ce_send env) w' f (dr_request_id r) (Err (Send e)) =
       Return (sp, f', w'') \<Longrightarrow>
     dispatch_step env d (d\<lparr>d_in_flight := f', d_world := w''\<rparr>)"
| ds_cancel:
    "ce_canceled_poll_recv env (d_world d) = (Ready (Some i), w) \<Longrightarrow>
     cancel_request (ce_delay_queue env) (d_in_flight d) i = Return (Some (ctx, sp), f) \<Longrightarrow>
     tr_start_send (ce_transport env) w (Cancel (trace_context ctx) i) = (res, w') \<Longrightarrow>
     dispatch_step env d (d\<lparr>d_in_flight := f, d_world := w'\<rparr>)"
| ds_cancel_missed:
    "ce_canceled_poll_recv env (d_world d) = (Ready (Some i), w) \<Longrightarrow>
     cancel_request (ce_delay_queue env) (d_in_flight d) i = Return (None, f) \<Longrightarrow>
     dispatch_step env d (d\<lparr>d_in_flight := f, d_world := w\<rparr>)"
| ds_response:
    "tr_poll_next (ce_transport env) (d_world d) = (Ready (Some (Ok resp)), w) \<Longrightarrow>
     complete_request (ce_delay_queue env) (ce_send env) w (d_in_flight d) (request_id resp)
       (map_err Server (response_message resp)) = Return (sp, f, w') \<Longrightarrow>
     dispatch_step env d (d\<lparr>d_in_flight := f, d_world := w'\<rparr>)"
| ds_expired:
    "client_poll_expired (ce_delay_queue env) (ce_send env) (ce_now env (d_world d)) (d_world d)
       (d_in_flight d) (Err DeadlineExceeded) = (p, f, w) \<Longrightarrow>
     dispatch_step env d (d\<lparr>d_in_flight := f, d_world := w\<rparr>)"
| ds_fail_all:
    "complete_all_requests (ce_delay_queue env) (ce_send env) (d_world d) (d_in_flight d)
       (Err (Channel e)) = (sps, f, w) \<Longrightarrow>
     dispatch_step env d (d\<lparr>d_in_flight := f, d_world := w\<rparr>)"
| ds_terminal:
    "dispatch_step env d (d\<lparr>d_terminal_error := Some (upcast_any (ce_error_type env) e)\<rparr>)"

section \<open>The invariant\<close>

definition dispatch_inv ::
  "('w, 'q, 'req, 'resp, 'e) client_env \<Rightarrow> ('q \<Rightarrow> entries) \<Rightarrow> instant \<Rightarrow> ('w \<Rightarrow> bool) \<Rightarrow>
   ('w \<Rightarrow> u64 set) \<Rightarrow> ('w, 'q, 'e) dispatch \<Rightarrow> bool" where
  "dispatch_inv env ent horizon W upcoming d \<longleftrightarrow>
     client_env_laws env W upcoming horizon \<and>
     client_inv (ce_delay_queue env) ent horizon (d_in_flight d) \<and>
     W (d_world d) \<and>
     client_ids (d_in_flight d) \<inter> upcoming (d_world d) = {} \<and>
     client_len (d_in_flight d) \<le> max_in_flight_requests (d_config d) \<and>
     (\<forall>a. d_terminal_error d = Some a \<longrightarrow> (\<exists>e. a = upcast_any (ce_error_type env) e))"

lemma dispatch_invD:
  assumes "dispatch_inv env ent hz W up d"
  shows "client_env_laws env W up hz" "client_inv (ce_delay_queue env) ent hz (d_in_flight d)"
    "W (d_world d)" "client_ids (d_in_flight d) \<inter> up (d_world d) = {}"
    "client_len (d_in_flight d) \<le> max_in_flight_requests (d_config d)"
    "d_terminal_error d = Some a \<Longrightarrow> \<exists>e. a = upcast_any (ce_error_type env) e"
  using assms by (simp_all add: dispatch_inv_def)

text \<open>Changes of the world and of the in-flight table that keep the invariant: the world
  moves as the environment allows, and the table loses requests or gains the one that has
  just come out of the channel.\<close>

lemma dispatch_inv_shrink:
  assumes inv: "dispatch_inv env ent hz W up d" and w: "(env_step env)\<^sup>*\<^sup>* (d_world d) w"
    and f: "client_inv (ce_delay_queue env) ent hz f" "client_ids f \<subseteq> client_ids (d_in_flight d)"
  shows "dispatch_inv env ent hz W up (d\<lparr>d_in_flight := f, d_world := w\<rparr>)"
proof -
  have world: "W w \<and> up w \<subseteq> up (d_world d)"
    using client_env_laws_steps[OF dispatch_invD(1)[OF inv] w dispatch_invD(3)[OF inv]] .
  have "client_len f \<le> client_len (d_in_flight d)"
    using client_len_card[OF f(1)] client_len_card[OF dispatch_invD(2)[OF inv]]
      card_mono[OF finite_client_ids f(2)] by simp
  then show ?thesis
    using world f dispatch_invD[OF inv] by (auto simp: dispatch_inv_def)
qed

lemma dispatch_inv_world:
  "dispatch_inv env ent hz W up d \<Longrightarrow> env_step env (d_world d) w \<Longrightarrow>
   dispatch_inv env ent hz W up (d\<lparr>d_world := w\<rparr>)"
  using dispatch_inv_shrink[of env ent hz W up d w "d_in_flight d"]
  by (auto dest: dispatch_invD(2))


lemma fold_send_steps:
  "(env_step env)\<^sup>*\<^sup>* w (fold (\<lambda>(i, rd) w. ce_send env w (rd_response_completion rd) r) m w)"
proof (induction m arbitrary: w)
  case (Cons x m)
  have "env_step env w (ce_send env w (rd_response_completion (snd x)) r)"
    by (auto intro: env_step.intros)
  then show ?case using Cons.IH[of "ce_send env w (rd_response_completion (snd x)) r"]
    by (auto simp: case_prod_beta intro: converse_rtranclp_into_rtranclp)
qed simp

lemma dispatch_inv_received:
  assumes inv: "dispatch_inv env ent hz W up d"
    and recv: "ce_pending_poll_recv env (d_world d) = (Ready (Some r), w)"
    and room: "client_len (d_in_flight d) < max_in_flight_requests (d_config d)"
  shows "yields (insert_request (ce_delay_queue env) (ce_now env w) (d_in_flight d) (dr_request_id r)
      (dr_ctx r) (dr_span r) (dr_response_completion r))
    (\<lambda>(res, f). res = Ok () \<and> client_ids f = insert (dr_request_id r) (client_ids (d_in_flight d)) \<and>
       dispatch_inv env ent hz W up (d\<lparr>d_in_flight := f, d_world := w\<rparr>))"
proof -
  let ?i = "dr_request_id r"
  note laws = dispatch_invD(1)[OF inv]
  have inv': "dispatch_inv env ent hz W up (d\<lparr>d_world := w\<rparr>)"
    using dispatch_inv_world[OF inv es_pending[OF recv]] .
  have r: "?i \<in> up (d_world d)" "?i \<notin> up w" "deadline (dr_ctx r) \<le> hz"
    using client_env_laws_recv[OF laws dispatch_invD(3)[OF inv] recv] by simp_all
  then have fresh: "?i \<notin> client_ids (d_in_flight d)"
    using dispatch_invD(4)[OF inv] by auto
  have "ce_now env w \<le> hz"
    using client_env_laws_now[OF laws, of w] dispatch_invD(3)[OF inv'] by simp
  then have time: "max (ce_now env w) (deadline (dr_ctx r)) \<le> hz" using r(3) by simp
  show ?thesis
  proof (rule yields_mono[OF insert_request_new[OF dispatch_invD(2)[OF inv] fresh time]])
    fix x
    assume "case x of (res, f) \<Rightarrow> res = Ok () \<and> client_inv (ce_delay_queue env) ent hz f \<and>
      client_ids f = insert ?i (client_ids (d_in_flight d)) \<and>
      (\<exists>rd. map_of (request_data f) ?i = Some rd \<and> rd_ctx rd = dr_ctx r \<and> rd_span rd = dr_span r \<and>
         rd_response_completion rd = dr_response_completion r \<and>
         ent (deadlines f) (rd_deadline_key rd) = Some (?i, max (ce_now env w) (deadline (dr_ctx r)))) \<and>
      (\<forall>j. j \<noteq> ?i \<longrightarrow> map_of (request_data f) j = map_of (request_data (d_in_flight d)) j)"
    then obtain f where x: "x = (Ok (), f)" and f: "client_inv (ce_delay_queue env) ent hz f"
      "client_ids f = insert ?i (client_ids (d_in_flight d))"
      by (cases x) auto
    have "client_len f = Suc (client_len (d_in_flight d))"
      using client_len_card[OF f(1)] client_len_card[OF dispatch_invD(2)[OF inv]] f(2) fresh by simp
    then have "dispatch_inv env ent hz W up (d\<lparr>d_in_flight := f, d_world := w\<rparr>)"
      using dispatch_invD[OF inv'] f r(2) room by (auto simp: dispatch_inv_def)
    then show "case x of (res, f) \<Rightarrow> res = Ok () \<and>
      client_ids f = insert ?i (client_ids (d_in_flight d)) \<and>
      dispatch_inv env ent hz W up (d\<lparr>d_in_flight := f, d_world := w\<rparr>)"
      using x f(2) by simp
  qed
qed

lemma complete_request_env_steps:
  assumes "client_inv dq ent hz f" "complete_request dq (ce_send env) w f i r = Return (sp, f', w')"
  shows "client_inv dq ent hz f'" "client_ids f' = client_ids f - {i}" "(env_step env)\<^sup>*\<^sup>* w w'"
proof -
  from complete_request_result[OF assms(1), of "ce_send env" w i r] assms(2)
  have *: "client_inv dq ent hz f'" "request_data f' = AList.delete i (request_data f)"
    "case map_of (request_data f) i of None \<Rightarrow> sp = None \<and> w' = w
     | Some rd \<Rightarrow> sp = Some (rd_span rd) \<and> w' = ce_send env w (rd_response_completion rd) r"
    by simp_all
  show "client_inv dq ent hz f'" "client_ids f' = client_ids f - {i}"
    using * by (simp_all add: client_ids_def)
  show "(env_step env)\<^sup>*\<^sup>* w w'"
    using *(3) by (auto split: option.splits intro: env_step.intros)
qed

text \<open>What a step does to the world is a sequence of calls of the environment.\<close>

lemma env_steps2: "env_step env w1 w2 \<Longrightarrow> (env_step env)\<^sup>*\<^sup>* w2 w3 \<Longrightarrow> (env_step env)\<^sup>*\<^sup>* w1 w3"
  by (rule converse_rtranclp_into_rtranclp)

lemma dispatch_step_world:
  assumes "dispatch_step env d d'" "dispatch_inv env ent hz W up d"
  shows "(env_step env)\<^sup>*\<^sup>* (d_world d) (d_world d')"
  using assms(1)
proof cases
  case (ds_write_failed r w f e w' sp f' w'')
  from dispatch_inv_received[OF assms(2) ds_write_failed(3,2)] ds_write_failed(5)
  have "dispatch_inv env ent hz W up (d\<lparr>d_in_flight := f, d_world := w\<rparr>)" by simp
  from dispatch_invD(2)[OF this] have "client_inv (ce_delay_queue env) ent hz f" by simp
  from complete_request_env_steps(3)[OF this ds_write_failed(7)] ds_write_failed(1,3,6)
  show ?thesis by (auto intro: env_steps2 es_pending es_start_send)
next
  case (ds_response resp w sp f w')
  with complete_request_env_steps(3)[OF dispatch_invD(2)[OF assms(2)] ds_response(3)]
  show ?thesis by (auto intro: env_steps2 es_next)
next
  case (ds_expired p f w)
  with client_poll_expired_result[OF dispatch_invD(2)[OF assms(2)] ds_expired(2)]
  show ?thesis by (auto split: poll.splits option.splits intro: es_send)
next
  case (ds_fail_all e sps f w)
  with fold_send_steps[of env] show ?thesis by (auto simp: complete_all_requests_def)
qed (auto intro: env_steps2 env_idle_step es_pending es_start_send es_send es_canceled)

lemma dispatch_step_upcoming:
  assumes "dispatch_step env d d'" "dispatch_inv env ent hz W up d"
  shows "W (d_world d') \<and> up (d_world d') \<subseteq> up (d_world d)"
  using client_env_laws_steps[OF dispatch_invD(1)[OF assms(2)] dispatch_step_world[OF assms]
      dispatch_invD(3)[OF assms(2)]] .

text \<open>A step takes requests out of the table, or puts in the one that came out of the channel.\<close>

lemma dispatch_step_ids:
  assumes "dispatch_step env d d'" and inv: "dispatch_inv env ent hz W up d"
  shows "client_ids (d_in_flight d') \<subseteq> client_ids (d_in_flight d) \<or>
    (\<exists>r w. ce_pending_poll_recv env (d_world d) = (Ready (Some r), w) \<and> env_step env w (d_world d') \<and>
       client_ids (d_in_flight d') = insert (dr_request_id r) (client_ids (d_in_flight d)))"
  using assms(1)
proof cases
  case (ds_write r w f w')
  with dispatch_inv_received[OF inv ds_write(3,2)] show ?thesis by (auto intro: es_start_send)
next
  case (ds_write_failed r w f e w' sp f' w'')
  from dispatch_inv_received[OF inv ds_write_failed(3,2)] ds_write_failed(5)
  have f: "client_ids f = insert (dr_request_id r) (client_ids (d_in_flight d))"
    and "dispatch_inv env ent hz W up (d\<lparr>d_in_flight := f, d_world := w\<rparr>)" by simp_all
  from dispatch_invD(2)[OF this(2)] have "client_inv (ce_delay_queue env) ent hz f" by simp
  from complete_request_env_steps(2)[OF this ds_write_failed(7)] f ds_write_failed(1) show ?thesis by auto
next
  case (ds_cancel i w ctx sp f res w')
  with cancel_request_result[OF dispatch_invD(2)[OF inv], of i] show ?thesis by (auto simp: client_ids_def)
next
  case (ds_cancel_missed i w f)
  with cancel_request_result[OF dispatch_invD(2)[OF inv], of i] show ?thesis by (auto simp: client_ids_def)
next
  case (ds_response resp w sp f w')
  with complete_request_env_steps(2)[OF dispatch_invD(2)[OF inv] ds_response(3)] show ?thesis by auto
next
  case (ds_expired p f w)
  with client_poll_expired_result[OF dispatch_invD(2)[OF inv] ds_expired(2)] show ?thesis
    by (auto simp: client_ids_def split: poll.splits option.splits)
next
  case (ds_fail_all e sps f w)
  with complete_all_requests_inv(2)[OF dispatch_invD(2)[OF inv] ds_fail_all(2)] show ?thesis by simp
qed simp_all

text \<open>Every step keeps the invariant.\<close>

lemma dispatch_step_inv:
  assumes "dispatch_step env d d'" "dispatch_inv env ent hz W up d"
  shows "dispatch_inv env ent hz W up d'"
  using assms
proof (induction rule: dispatch_step.induct)
  case (ds_idle d w)
  then show ?case by (simp add: dispatch_inv_world env_idle_step)
next
  case (ds_aborted d r w)
  then show ?case by (blast intro: dispatch_inv_world es_pending)
next
  case (ds_refused d r w e)
  from dispatch_inv_world[OF ds_refused.prems es_pending[OF ds_refused.hyps(1)]]
    dispatch_inv_world[of env ent hz W up "d\<lparr>d_world := w\<rparr>"] show ?case by (simp add: es_send[OF refl])
next
  case (ds_write d r w f w')
  from dispatch_inv_received[OF ds_write.prems ds_write.hyps(2,1)] ds_write.hyps(4)
  have "dispatch_inv env ent hz W up (d\<lparr>d_in_flight := f, d_world := w\<rparr>)" by simp
  from dispatch_inv_world[OF this, of w'] es_start_send[OF ds_write.hyps(5)] show ?case by simp
next
  case (ds_write_failed d r w f e w' sp f' w'')
  from dispatch_inv_received[OF ds_write_failed.prems ds_write_failed.hyps(2,1)] ds_write_failed.hyps(4)
  have inv: "dispatch_inv env ent hz W up (d\<lparr>d_in_flight := f, d_world := w\<rparr>)" by simp
  have c: "client_inv (ce_delay_queue env) ent hz f" using dispatch_invD(2)[OF inv] by simp
  note fin = complete_request_env_steps[OF c ds_write_failed.hyps(6)]
  have "(env_step env)\<^sup>*\<^sup>* w w''"
    using converse_rtranclp_into_rtranclp[OF es_start_send[OF ds_write_failed.hyps(5)] fin(3)] .
  with dispatch_inv_shrink[OF inv, of w'' f'] fin(1,2) show ?case by auto
next
  case (ds_cancel d i w ctx sp f res w')
  have "(env_step env)\<^sup>*\<^sup>* (d_world d) w'"
    using rtranclp.rtrancl_into_rtrancl[OF r_into_rtranclp[of "env_step env", OF es_canceled[OF ds_cancel.hyps(1)]]
        es_start_send[OF ds_cancel.hyps(3)]] .
  moreover have "client_inv (ce_delay_queue env) ent hz f" "client_ids f \<subseteq> client_ids (d_in_flight d)"
    using cancel_request_result[OF dispatch_invD(2)[OF ds_cancel.prems], of i] ds_cancel.hyps(2)
    by (auto simp: client_ids_def)
  ultimately show ?case using dispatch_inv_shrink[OF ds_cancel.prems] by blast
next
  case (ds_cancel_missed d i w f)
  have "client_inv (ce_delay_queue env) ent hz f" "client_ids f \<subseteq> client_ids (d_in_flight d)"
    using cancel_request_result[OF dispatch_invD(2)[OF ds_cancel_missed.prems], of i] ds_cancel_missed.hyps(2)
    by (auto simp: client_ids_def)
  with dispatch_inv_shrink[OF ds_cancel_missed.prems r_into_rtranclp[of "env_step env", OF es_canceled[OF ds_cancel_missed.hyps(1)]]]
  show ?case by blast
next
  case (ds_response d resp w sp f w')
  note fin = complete_request_env_steps[OF dispatch_invD(2)[OF ds_response.prems] ds_response.hyps(2)]
  have "(env_step env)\<^sup>*\<^sup>* (d_world d) w'"
    using converse_rtranclp_into_rtranclp[OF es_next[OF ds_response.hyps(1)] fin(3)] .
  with dispatch_inv_shrink[OF ds_response.prems, of w' f] fin(1,2) show ?case by auto
next
  case (ds_expired d p f w)
  note res = client_poll_expired_result[OF dispatch_invD(2)[OF ds_expired.prems] ds_expired.hyps]
  then have "(env_step env)\<^sup>*\<^sup>* (d_world d) w" "client_ids f \<subseteq> client_ids (d_in_flight d)"
    by (auto simp: client_ids_def split: poll.splits option.splits intro: env_step.intros)
  with dispatch_inv_shrink[OF ds_expired.prems] res show ?case by blast
next
  case (ds_fail_all d e sps f w)
  note res = complete_all_requests_inv[OF dispatch_invD(2)[OF ds_fail_all.prems] ds_fail_all.hyps]
  have "(env_step env)\<^sup>*\<^sup>* (d_world d) w"
    using ds_fail_all.hyps fold_send_steps[of env] by (auto simp: complete_all_requests_def)
  with dispatch_inv_shrink[OF ds_fail_all.prems] res show ?case by blast
next
  case (ds_terminal d e)
  then show ?case by (auto simp: dispatch_inv_def)
qed

lemma dispatch_steps_inv:
  "(dispatch_step env)\<^sup>*\<^sup>* d d' \<Longrightarrow> dispatch_inv env ent hz W up d \<Longrightarrow> dispatch_inv env ent hz W up d'"
  by (induction rule: rtranclp_induct) (simp_all add: dispatch_step_inv)

lemma dispatch_new_result:
  assumes "delay_queue_laws (ce_delay_queue env) ent hz" "client_env_laws env W up hz"
    and "mpsc_channel (pending_request_buffer config) w = Some w'" "W w'"
  shows "yields (dispatch_new mpsc_channel (ce_delay_queue env) config w)
    (\<lambda>d. dispatch_inv env ent hz W up d \<and> d_world d = w' \<and> client_is_empty (d_in_flight d))"
  using assms client_in_flight_default_inv[OF assms(1)]
  by (simp add: dispatch_new_def dispatch_inv_def client_is_empty_iff client_len_def client_in_flight_default_def
      client_ids_def)

end
