(* ===== verification/Client_Refinement.thy ===== *)
theory Client_Refinement
  imports Client_Steps
begin

text \<open>
  The functions of the dispatch task implement the step relation: from a state that
  satisfies the invariant no function panics, and the state it returns is reached by steps.
  Each lemma also says what the returned value tells about the state.
\<close>

abbreviation reach ::
  "('w, 'q, 'req, 'resp, 'e) client_env \<Rightarrow> ('w, 'q, 'e) dispatch \<Rightarrow> ('w, 'q, 'e) dispatch \<Rightarrow> bool" where
  "reach env \<equiv> (dispatch_step env)\<^sup>*\<^sup>*"

lemma reach_env:
  assumes "(env_idle env)\<^sup>*\<^sup>* (d_world d) w"
  shows "reach env d (d\<lparr>d_world := w\<rparr>)"
  using assms
proof (induction rule: rtranclp_induct)
  case (step w1 w2)
  have "dispatch_step env (d\<lparr>d_world := w1\<rparr>) (d\<lparr>d_world := w2\<rparr>)"
    using ds_idle[of env "d\<lparr>d_world := w1\<rparr>" w2] step.hyps(2) by simp
  with step.IH show ?case by (rule rtranclp.rtrancl_into_rtrancl)
qed simp

lemma reach_env1: "env_idle env (d_world d) w \<Longrightarrow> reach env d (d\<lparr>d_world := w\<rparr>)"
  by (rule reach_env) simp

lemma reach_envs: "reach env d d' \<Longrightarrow> env_idle env (d_world d') w \<Longrightarrow> reach env d (d'\<lparr>d_world := w\<rparr>)"
  by (rule rtranclp_trans[OF _ reach_env1])

lemma reach_step: "reach env d d' \<Longrightarrow> dispatch_step env d' d'' \<Longrightarrow> reach env d d''"
  by (rule rtranclp.rtrancl_into_rtrancl)

text \<open>\<open>progress\<close>: the last step took a message from the outside or a request that expired.\<close>

inductive message_taken :: "('w, 'q, 'req, 'resp, 'e) client_env \<Rightarrow> 'w \<Rightarrow> 'w \<Rightarrow> bool" for env where
  "tr_poll_next (ce_transport env) w = (Ready (Some (Ok resp)), w') \<Longrightarrow> message_taken env w w'"
| "ce_pending_poll_recv env w = (Ready (Some r), w') \<Longrightarrow> message_taken env w w'"
| "ce_canceled_poll_recv env w = (Ready (Some i), w') \<Longrightarrow> message_taken env w w'"

definition active_step ::
  "('w, 'q, 'req, 'resp, 'e) client_env \<Rightarrow> ('w, 'q, 'e) dispatch \<Rightarrow> ('w, 'q, 'e) dispatch \<Rightarrow> bool" where
  "active_step env d d' \<longleftrightarrow> dispatch_step env d d' \<and>
     ((\<exists>w. message_taken env (d_world d) w \<and> (env_step env)\<^sup>*\<^sup>* w (d_world d')) \<or>
      (\<exists>i. client_poll_expired (ce_delay_queue env) (ce_send env) (ce_now env (d_world d)) (d_world d)
             (d_in_flight d) (Err DeadlineExceeded) = (Ready (Some i), d_in_flight d', d_world d')))"

definition progress ::
  "('w, 'q, 'req, 'resp, 'e) client_env \<Rightarrow> ('w, 'q, 'e) dispatch \<Rightarrow> ('w, 'q, 'e) dispatch \<Rightarrow> bool" where
  "progress env d d' \<longleftrightarrow> (\<exists>d0. reach env d d0 \<and> active_step env d0 d')"

lemma progressI: "reach env d d0 \<Longrightarrow> active_step env d0 d' \<Longrightarrow> progress env d d'"
  by (auto simp: progress_def)

lemma progress_reach: "progress env d d' \<Longrightarrow> reach env d d'"
  by (auto simp: progress_def active_step_def)

lemma reach_progress: "reach env d d1 \<Longrightarrow> progress env d1 d' \<Longrightarrow> progress env d d'"
  unfolding progress_def by (blast intro: rtranclp_trans)

definition moved ::
  "('w, 'q, 'req, 'resp, 'e) client_env \<Rightarrow> ('w, 'q, 'e) dispatch \<Rightarrow>
   (unit, 'e channel_error) result option poll \<Rightarrow> ('w, 'q, 'e) dispatch \<Rightarrow> bool" where
  "moved env d p d' \<longleftrightarrow> (if p = Ready (Some (Ok ())) then progress env d d' else reach env d d')"

lemma moved_reach: "moved env d p d' \<Longrightarrow> reach env d d'"
  by (auto simp: moved_def progress_reach split: if_splits)

lemma reach_moved: "reach env d d1 \<Longrightarrow> moved env d1 p d' \<Longrightarrow> moved env d p d'"
  by (auto simp: moved_def reach_progress split: if_splits)

lemma moved_simps [simp]:
  "moved env d Pending d' \<longleftrightarrow> reach env d d'"
  "moved env d (Ready None) d' \<longleftrightarrow> reach env d d'"
  "moved env d (Ready (Some (Err e))) d' \<longleftrightarrow> reach env d d'"
  "moved env d (Ready (Some (Ok ()))) d' \<longleftrightarrow> progress env d d'"
  by (simp_all add: moved_def)

section \<open>The transport\<close>

lemma dispatch_transport_steps:
  "dispatch_poll_ready env w = (p, w') \<Longrightarrow> env_idle env w w'"
  "dispatch_poll_flush env w = (p, w') \<Longrightarrow> env_idle env w w'"
  "dispatch_poll_close env w = (p, w') \<Longrightarrow> env_idle env w w'"
  unfolding dispatch_poll_ready_def dispatch_poll_flush_def dispatch_poll_close_def
  by (auto split: prod.splits intro: env_idle.intros)

lemma ensure_writeable_steps:
  "holds (ensure_writeable n env w) (\<lambda>(p, w'). p \<noteq> Ready None \<and> (env_idle env)\<^sup>*\<^sup>* w w')"
  unfolding ensure_writeable_def
proof (rule loop_holds[where I = "\<lambda>w'. (env_idle env)\<^sup>*\<^sup>* w w'"], goal_cases)
  case (2 w1)
  obtain p w2 where r: "dispatch_poll_ready env w1 = (p, w2)" by fastforce
  obtain q w3 where f: "dispatch_poll_flush env w2 = (q, w3)" by fastforce
  have w2: "(env_idle env)\<^sup>*\<^sup>* w w2"
    using 2 dispatch_transport_steps(1)[OF r] by simp
  then have w3: "(env_idle env)\<^sup>*\<^sup>* w w3"
    using dispatch_transport_steps(2)[OF f] by simp
  show ?case
    using w2 w3 by (auto simp: ensure_writeable_turn_def r f split: poll.splits result.splits)
qed simp

section \<open>Reading\<close>

lemma dispatch_complete_steps:
  assumes inv: "dispatch_inv env ent hz W up d"
    and response: "tr_poll_next (ce_transport env) (d_world d) = (Ready (Some (Ok resp)), w)"
  shows "yields (dispatch_complete env (d\<lparr>d_world := w\<rparr>) resp)
    (\<lambda>(found, d'). active_step env d d' \<and> found = (request_id resp \<in> client_ids (d_in_flight d)) \<and>
       client_ids (d_in_flight d') = client_ids (d_in_flight d) - {request_id resp})"
proof -
  let ?i = "request_id resp" and ?r = "map_err Server (response_message resp)"
  obtain sp f w' where c: "complete_request (ce_delay_queue env) (ce_send env) w (d_in_flight d) ?i ?r =
      Return (sp, f, w')" and f: "request_data f = AList.delete ?i (request_data (d_in_flight d))"
    and sp: "sp \<noteq> None \<longleftrightarrow> map_of (request_data (d_in_flight d)) ?i \<noteq> None"
    using complete_request_result[OF dispatch_invD(2)[OF inv], of "ce_send env" w ?i ?r]
    by (auto simp: yields_def split: option.splits)
  have "active_step env d (d\<lparr>d_in_flight := f, d_world := w'\<rparr>)"
    using ds_response[OF response c] message_taken.intros(1)[OF response]
      complete_request_env_steps(3)[OF dispatch_invD(2)[OF inv] c] by (auto simp: active_step_def)
  with c f sp show ?thesis
    by (simp add: dispatch_complete_def client_ids_def map_of_eq_None_keys)
qed

lemma client_pump_read_steps:
  assumes inv: "dispatch_inv env ent hz W up d"
  shows "yields (client_pump_read env d) (\<lambda>(p, d'). moved env d p d')"
proof -
  obtain p w where n: "tr_poll_next (ce_transport env) (d_world d) = (p, w)" by fastforce
  have idle: "reach env d (d\<lparr>d_world := w\<rparr>)" if "\<forall>resp. p \<noteq> Ready (Some (Ok resp))"
    using reach_env1[of env d w] ei_next[OF n that] by simp
  show ?thesis
  proof (cases p rule: poll_option_result_cases)
    case (Item resp)
    have "yields (obind (dispatch_complete env (d\<lparr>d_world := w\<rparr>) resp)
        (\<lambda>(_, d'). Return (Ready (Some (Ok ())), d'))) (\<lambda>(p, d'). moved env d p d')"
      by (rule yields_bind_pair[OF dispatch_complete_steps[OF inv, of resp w]])
        (use n Item progressI[of env d d] in auto)
    with n Item show ?thesis by (simp add: client_pump_read_def)
  qed (use n idle in \<open>simp_all add: client_pump_read_def\<close>)
qed

section \<open>Writing\<close>

text \<open>A request that is handed on has just come out of the channel, to a caller that is
  waiting, and there is room for it.\<close>

definition taken ::
  "('w, 'q, 'req, 'resp, 'e) client_env \<Rightarrow> ('w, 'q, 'e) dispatch \<Rightarrow> 'req dispatch_request \<Rightarrow>
   ('w, 'q, 'e) dispatch \<Rightarrow> bool" where
  "taken env d r d' \<longleftrightarrow>
     (\<exists>d0 w. reach env d d0 \<and> ce_pending_poll_recv env (d_world d0) = (Ready (Some r), w) \<and>
        d' = d0\<lparr>d_world := w\<rparr> \<and> \<not> ce_is_closed env w (dr_response_completion r) \<and>
        client_len (d_in_flight d0) < max_in_flight_requests (d_config d0))"

definition next_request_post ::
  "('w, 'q, 'req, 'resp, 'e) client_env \<Rightarrow> ('w, 'q, 'e) dispatch \<Rightarrow>
   ('req dispatch_request, 'e channel_error) result option poll \<Rightarrow> ('w, 'q, 'e) dispatch \<Rightarrow> bool" where
  "next_request_post env d p d' \<longleftrightarrow>
     (case p of Ready (Some (Ok r)) \<Rightarrow> taken env d r d' | _ \<Rightarrow> reach env d d')"

lemma next_request_post_simps [simp]:
  "next_request_post env d (Ready (Some (Ok r))) d' \<longleftrightarrow> taken env d r d'"
  "next_request_post env d (Ready (Some (Err e))) d' \<longleftrightarrow> reach env d d'"
  "next_request_post env d (Ready None) d' \<longleftrightarrow> reach env d d'"
  "next_request_post env d Pending d' \<longleftrightarrow> reach env d d'"
  by (simp_all add: next_request_post_def)

lemma next_request_loop_steps:
  assumes "reach env d d1" "client_len (d_in_flight d1) < max_in_flight_requests (d_config d1)"
  shows "holds (loop n (next_request_turn env) d1) (\<lambda>(p, d'). next_request_post env d p d')"
proof (rule loop_holds[where I = "\<lambda>d'. reach env d d' \<and>
      client_len (d_in_flight d') < max_in_flight_requests (d_config d')"], goal_cases)
  case (2 d2)
  obtain p w where r: "ce_pending_poll_recv env (d_world d2) = (p, w)" by fastforce
  have idle: "reach env d (d2\<lparr>d_world := w\<rparr>)" if "\<forall>req. p \<noteq> Ready (Some req)"
    using reach_envs[of env d d2] 2 ei_pending[OF r that] by simp
  have "reach env d (d2\<lparr>d_world := w\<rparr>)"
    if "p = Ready (Some req)" "ce_is_closed env w (dr_response_completion req)" for req
    using reach_step[of env d d2] 2 ds_aborted[of env d2 req w] r that by simp
  with 2 r idle show ?case
    by (cases p rule: poll_option_cases) (auto simp: next_request_turn_def taken_def)
qed (use assms in simp)

lemma poll_next_request_steps:
  "holds (poll_next_request n env d) (\<lambda>(p, d'). next_request_post env d p d')"
proof (cases "client_len (d_in_flight d) \<ge> max_in_flight_requests (d_config d)")
  case False
  show ?thesis
    unfolding poll_next_request_def if_not_P[OF False]
  proof (rule holds_bind_pair[OF ensure_writeable_steps], goal_cases)
    case (1 p w)
    then show ?case
      using reach_env[of env d w] next_request_loop_steps[of env d "d\<lparr>d_world := w\<rparr>" n] False
      by (cases p rule: poll_option_result_cases) simp_all
  qed
qed (simp add: poll_next_request_def)

lemma poll_write_request_steps:
  assumes inv: "dispatch_inv env ent hz W up d"
  shows "holds (poll_write_request n env d) (\<lambda>(p, d'). moved env d p d')"
  unfolding poll_write_request_def
proof (rule holds_bind_pair[OF poll_next_request_steps], goal_cases)
  case (1 p d1)
  then show ?case
  proof (cases p rule: poll_option_result_cases)
    case (Item r)
    with 1 obtain d0 w where d0: "reach env d d0"
      and recv: "ce_pending_poll_recv env (d_world d0) = (Ready (Some r), w)"
      and d1: "d1 = d0\<lparr>d_world := w\<rparr>" and closed: "\<not> ce_is_closed env w (dr_response_completion r)"
      and room: "client_len (d_in_flight d0) < max_in_flight_requests (d_config d0)"
      by (auto simp: taken_def)
    note inv0 = dispatch_steps_inv[OF d0 inv]
    obtain f where ins: "insert_request (ce_delay_queue env) (ce_now env w) (d_in_flight d0)
        (dr_request_id r) (dr_ctx r) (dr_span r) (dr_response_completion r) = Return (Ok (), f)"
      and invf: "dispatch_inv env ent hz W up (d0\<lparr>d_in_flight := f, d_world := w\<rparr>)"
      using dispatch_inv_received[OF inv0 recv room] by (auto simp: yields_def)
    obtain res w' where send: "tr_start_send (ce_transport env) w (request_message r) = (res, w')" by fastforce
    show ?thesis
    proof (cases res)
      case (Ok u)
      then have "active_step env d0 (d0\<lparr>d_in_flight := f, d_world := w'\<rparr>)"
        using ds_write[OF room recv closed ins, of w'] send message_taken.intros(2)[OF recv] es_start_send[OF send]
        by (auto simp: active_step_def)
      with progressI[OF d0] Item ins send Ok d1 show ?thesis
        by (simp add: dispatch_start_send_def)
    next
      case (Err e)
      obtain sp f' w'' where c: "complete_request (ce_delay_queue env) (ce_send env) w' f
          (dr_request_id r) (Err (Send e)) = Return (sp, f', w'')"
        using complete_request_result[of "ce_delay_queue env" ent hz f] dispatch_invD(2)[OF invf]
        by (fastforce simp: yields_def)
      have "active_step env d0 (d0\<lparr>d_in_flight := f', d_world := w''\<rparr>)"
        using ds_write_failed[OF room recv closed ins send[unfolded Err] c] message_taken.intros(2)[OF recv]
          env_steps2[OF es_start_send[OF send] complete_request_env_steps(3)[OF _ c]] dispatch_invD(2)[OF invf]
        by (auto simp: active_step_def)
      with progressI[OF d0] Item ins send Err d1 c show ?thesis
        by (simp add: dispatch_start_send_def)
    qed
  qed (simp_all)
qed

text \<open>A cancellation that is handed on has just come out of the channel, and its request has
  just been taken out of the table.\<close>

definition next_cancellation_post ::
  "('w, 'q, 'req, 'resp, 'e) client_env \<Rightarrow> ('w, 'q, 'e) dispatch \<Rightarrow>
   (rpc_context \<times> span \<times> u64, 'e channel_error) result option poll \<Rightarrow> ('w, 'q, 'e) dispatch \<Rightarrow> bool" where
  "next_cancellation_post env d p d' \<longleftrightarrow>
     (case p of
        Ready (Some (Ok (ctx, sp, i))) \<Rightarrow>
          (\<exists>d0 w f. reach env d d0 \<and> ce_canceled_poll_recv env (d_world d0) = (Ready (Some i), w) \<and>
             cancel_request (ce_delay_queue env) (d_in_flight d0) i = Return (Some (ctx, sp), f) \<and>
             d' = d0\<lparr>d_in_flight := f, d_world := w\<rparr>)
      | _ \<Rightarrow> reach env d d')"

lemma next_cancellation_post_simps [simp]:
  "next_cancellation_post env d (Ready (Some (Err e))) d' \<longleftrightarrow> reach env d d'"
  "next_cancellation_post env d (Ready None) d' \<longleftrightarrow> reach env d d'"
  "next_cancellation_post env d Pending d' \<longleftrightarrow> reach env d d'"
  by (simp_all add: next_cancellation_post_def)

lemma next_cancellation_loop_steps:
  assumes inv: "dispatch_inv env ent hz W up d" and d1: "reach env d d1"
  shows "holds (loop n (next_cancellation_turn env) d1) (\<lambda>(p, d'). next_cancellation_post env d p d')"
proof (rule loop_holds[where I = "\<lambda>d'. reach env d d'"], goal_cases)
  case (2 d2)
  obtain p w where r: "ce_canceled_poll_recv env (d_world d2) = (p, w)" by fastforce
  have idle: "reach env d (d2\<lparr>d_world := w\<rparr>)" if "\<forall>i. p \<noteq> Ready (Some i)"
    using reach_envs[OF 2 ei_canceled[OF r that]] .
  show ?case
  proof (cases p rule: poll_option_cases)
    case (Item i)
    note c_inv = dispatch_invD(2)[OF dispatch_steps_inv[OF 2 inv]]
    obtain c f where c: "cancel_request (ce_delay_queue env) (d_in_flight d2) i = Return (c, f)"
      using cancel_request_result[OF c_inv, of i] by (auto simp: yields_def)
    show ?thesis
    proof (cases c)
      case None
      with c Item r have "dispatch_step env d2 (d2\<lparr>d_in_flight := f, d_world := w\<rparr>)"
        by (auto intro: ds_cancel_missed)
      with reach_step[OF 2] Item r c None show ?thesis by (simp add: next_cancellation_turn_def)
    next
      case (Some x)
      with 2 Item r c show ?thesis
        by (cases x) (auto simp: next_cancellation_turn_def next_cancellation_post_def)
    qed
  qed (use idle r in \<open>simp_all add: next_cancellation_turn_def\<close>)
qed (rule d1)

lemma poll_next_cancellation_steps:
  assumes inv: "dispatch_inv env ent hz W up d"
  shows "holds (poll_next_cancellation n env d) (\<lambda>(p, d'). next_cancellation_post env d p d')"
  unfolding poll_next_cancellation_def
proof (rule holds_bind_pair[OF ensure_writeable_steps], goal_cases)
  case (1 p w)
  then show ?case
    using reach_env[of env d w] next_cancellation_loop_steps[OF inv, of "d\<lparr>d_world := w\<rparr>" n]
    by (cases p rule: poll_option_result_cases) simp_all
qed

lemma poll_write_cancel_steps:
  assumes inv: "dispatch_inv env ent hz W up d"
  shows "holds (poll_write_cancel n env d) (\<lambda>(p, d'). moved env d p d')"
  unfolding poll_write_cancel_def
proof (rule holds_bind_pair[OF poll_next_cancellation_steps[OF inv]], goal_cases)
  case (1 p d1)
  then show ?case
  proof (cases p rule: poll_option_result_cases)
    case (Item x)
    obtain ctx sp i where x: "x = (ctx, sp, i)" by (cases x)
    with 1 Item obtain d0 w f where d0: "reach env d d0"
      and recv: "ce_canceled_poll_recv env (d_world d0) = (Ready (Some i), w)"
      and c: "cancel_request (ce_delay_queue env) (d_in_flight d0) i = Return (Some (ctx, sp), f)"
      and d1: "d1 = d0\<lparr>d_in_flight := f, d_world := w\<rparr>"
      by (auto simp: next_cancellation_post_def)
    obtain res w' where send: "tr_start_send (ce_transport env) w (Cancel (trace_context ctx) i) = (res, w')"
      by fastforce
    have "active_step env d0 (d0\<lparr>d_in_flight := f, d_world := w'\<rparr>)"
      using ds_cancel[OF recv c send] message_taken.intros(3)[OF recv] es_start_send[OF send]
      by (auto simp: active_step_def)
    with progressI[OF d0] progress_reach[OF progressI[OF d0]] Item x send d1 show ?thesis
      by (cases res) (simp_all add: dispatch_start_send_def)
  qed simp_all
qed

lemma expiry_steps:
  assumes "reach env d d1"
    and "client_poll_expired (ce_delay_queue env) (ce_send env) (ce_now env (d_world d1)) (d_world d1)
           (d_in_flight d1) (Err DeadlineExceeded) = (p, f, w)"
  shows "reach env d (d1\<lparr>d_in_flight := f, d_world := w\<rparr>)"
  using reach_step[OF assms(1) ds_expired[OF assms(2)]] .

lemma pump_write_idle_steps:
  assumes d: "reach env d d1" and r: "pump_write_idle env b1 b2 d1 = (p, d')"
  shows "moved env d p d'"
proof -
  obtain x f w where x: "client_poll_expired (ce_delay_queue env) (ce_send env) (ce_now env (d_world d1))
      (d_world d1) (d_in_flight d1) (Err DeadlineExceeded) = (x, f, w)" by (metis prod_cases3)
  obtain y w1 where y: "dispatch_poll_close env w = (y, w1)" by fastforce
  obtain z w2 where z: "dispatch_poll_flush env w = (z, w2)" by fastforce
  have f: "reach env d (d1\<lparr>d_in_flight := f, d_world := w\<rparr>)" using expiry_steps[OF d x] .
  have "reach env d (d1\<lparr>d_in_flight := f, d_world := w1\<rparr>)" "reach env d (d1\<lparr>d_in_flight := f, d_world := w2\<rparr>)"
    using reach_envs[OF f, of w1] reach_envs[OF f, of w2]
      dispatch_transport_steps(2)[OF z] dispatch_transport_steps(3)[OF y] by simp_all
  moreover have "progress env d (d1\<lparr>d_in_flight := f, d_world := w\<rparr>)" if "x = Ready (Some i)" for i
    using progressI[OF d, of "d1\<lparr>d_in_flight := f, d_world := w\<rparr>"] ds_expired[OF x] x that
    by (auto simp: active_step_def)
  ultimately show ?thesis using r f x y z
    by (cases x rule: poll_option_cases; cases y rule: poll_result_cases; cases z rule: poll_result_cases)
      (auto simp: pump_write_idle_def split: if_splits)
qed

lemma client_pump_write_steps:
  assumes inv: "dispatch_inv env ent hz W up d"
  shows "holds (client_pump_write n env d) (\<lambda>(p, d'). moved env d p d')"
  unfolding client_pump_write_def
proof (rule holds_bind_pair[OF poll_write_request_steps[OF inv]], goal_cases)
  case (1 p d1)
  note d1 = moved_reach[OF 1(2)]
  have idle: "holds (obind (poll_write_cancel n env d1) (\<lambda>(c, d). case c of
          Ready (Some r) \<Rightarrow> Return (Ready (Some r), d)
        | _ \<Rightarrow> Return (pump_write_idle env b (is_ready c) d))) (\<lambda>(p, d'). moved env d p d')" for b
  proof (rule holds_bind_pair[OF poll_write_cancel_steps[OF dispatch_steps_inv[OF d1 inv]]], goal_cases)
    case (1 c d2)
    note d2 = reach_moved[OF d1 1(2)]
    obtain q d3 where q: "pump_write_idle env b (is_ready c) d2 = (q, d3)" by fastforce
    from pump_write_idle_steps[OF moved_reach[OF d2] q] d2 q show ?case
      by (cases c rule: poll_option_cases) simp_all
  qed
  show ?case
    by (cases p rule: poll_option_cases; simp only: poll.case option.case prod.case)
      (rule idle | use 1 in simp)+
qed

section \<open>The task\<close>

lemma shut_down_loop_steps:
  assumes "reach env d d1"
  shows "holds (loop n (shut_down_turn env e) d1) (\<lambda>(p, d'). reach env d d')"
proof (rule loop_holds[where I = "\<lambda>d'. reach env d d'"], goal_cases)
  case (2 d2)
  obtain p w where r: "ce_pending_poll_recv env (d_world d2) = (p, w)" by fastforce
  have idle: "reach env d (d2\<lparr>d_world := w\<rparr>)" if "\<forall>req. p \<noteq> Ready (Some req)"
    using reach_envs[OF 2 ei_pending[OF r that]] .
  show ?case
  proof (cases p rule: poll_option_cases)
    case (Item req)
    show ?thesis
      using Item r reach_step[OF 2 ds_aborted, of req w] reach_step[OF 2 ds_refused, of req w e]
      by (simp add: shut_down_turn_def)
  qed (use idle r in \<open>simp_all add: shut_down_turn_def\<close>)
qed (rule assms)

lemma shut_down_steps:
  "holds (shut_down_with_terminal_error n env d e) (\<lambda>(p, d'). reach env d d')"
proof -
  let ?w = "ce_pending_close env (d_world d)"
  obtain sps f w where c: "complete_all_requests (ce_delay_queue env) (ce_send env) ?w (d_in_flight d)
      (Err (Channel e)) = (sps, f, w)" by (metis prod_cases3)
  have "reach env d (d\<lparr>d_world := ?w\<rparr>)" by (rule reach_env1) (rule ei_pending_close[OF refl])
  moreover have "dispatch_step env (d\<lparr>d_world := ?w\<rparr>) (d\<lparr>d_in_flight := f, d_world := w\<rparr>)"
    using ds_fail_all[of env "d\<lparr>d_world := ?w\<rparr>" e sps f w] c by simp
  ultimately have "reach env d (d\<lparr>d_in_flight := f, d_world := w\<rparr>)" by (rule reach_step)
  from shut_down_loop_steps[OF this] c show ?thesis
    by (simp add: shut_down_with_terminal_error_def)
qed

text \<open>A turn of \<^verbatim>\<open>run\<close> that goes on has made progress.\<close>

lemma run_verdict_continue:
  "run_verdict r wr b = Continue \<Longrightarrow> (\<exists>x. r = Ready (Some x)) \<or> (\<exists>x. wr = Ready (Some x))"
  by (cases "(r, wr, b)" rule: run_verdict.cases) auto

definition turned ::
  "('w, 'q, 'req, 'resp, 'e) client_env \<Rightarrow> ('w, 'q, 'e) dispatch \<Rightarrow> 'r control \<Rightarrow> ('w, 'q, 'e) dispatch \<Rightarrow> bool" where
  "turned env d c d' \<longleftrightarrow> reach env d d' \<and> (c = Continue \<longrightarrow> (\<exists>d1 d2. reach env d d1 \<and> progress env d1 d2 \<and> reach env d2 d'))"

lemma turned_write:
  assumes "moved env d r d1" "moved env d1 wr d2" "\<forall>e. r \<noteq> Ready (Some (Err e))" "\<forall>e. wr \<noteq> Ready (Some (Err e))"
  shows "turned env d (run_verdict r wr b) d2"
proof -
  have steps: "reach env d d1" "reach env d1 d2" using assms by (simp_all add: moved_reach)
  have "progress env d d1 \<or> progress env d1 d2" if "run_verdict r wr b = Continue"
    using run_verdict_continue[OF that] assms
    by (cases r rule: poll_option_result_cases; cases wr rule: poll_option_result_cases) auto
  with steps show ?thesis unfolding turned_def by (meson rtranclp.rtrancl_refl rtranclp_trans)
qed

lemma client_run_turn_steps:
  assumes inv: "dispatch_inv env ent hz W up d"
  shows "holds (client_run_turn n env d) (\<lambda>(c, d'). turned env d c d')"
  unfolding client_run_turn_def
proof (rule holds_bind_pair[OF yields_imp_holds[OF client_pump_read_steps[OF inv]]], goal_cases)
  case (1 r d1)
  note d1 = moved_reach[OF 1(2)]
  have wrote: "holds (obind (client_pump_write n env d1) (\<lambda>(wr, d). case wr of
      Ready (Some (Err e)) \<Rightarrow> Return (Break (Ready (Err e)), d)
    | _ \<Rightarrow> Return (run_verdict r wr (client_is_empty (d_in_flight d)), d))) (\<lambda>(c, d'). turned env d c d')"
    if "moved env d r d1" "\<forall>e. r \<noteq> Ready (Some (Err e))" for r
  proof (rule holds_bind_pair[OF client_pump_write_steps[OF dispatch_steps_inv[OF d1 inv]]], goal_cases)
    case (1 wr d2)
    have "reach env d d2" using d1 moved_reach[OF 1(2)] by simp
    with turned_write[OF that(1) 1(2) that(2)] show ?case
      by (cases wr rule: poll_option_result_cases) (auto simp: turned_def)
  qed
  show ?case
  proof (cases r rule: poll_option_result_cases)
    case (Failed e)
    then show ?thesis using d1 by (simp add: turned_def)
  qed (simp only: poll.case option.case result.case prod.case; rule wrote; use 1 in simp)+
qed

lemma client_run_steps:
  assumes inv: "dispatch_inv env ent hz W up d"
  shows "holds (client_run n env d) (\<lambda>(p, d'). reach env d d')"
  unfolding client_run_def
proof (rule loop_holds[where I = "\<lambda>d'. reach env d d'"], goal_cases)
  case (2 d1)
  show ?case
    by (rule holds_mono[OF client_run_turn_steps[OF dispatch_steps_inv[OF 2 inv]]])
      (use 2 in \<open>auto simp: turned_def split: control.splits\<close>)
qed simp

lemma dispatch_poll_steps:
  assumes inv: "dispatch_inv env ent hz W up d"
  shows "holds (dispatch_poll n env d) (\<lambda>(p, d'). reach env d d')"
  unfolding dispatch_poll_def
proof (rule loop_holds[where I = "\<lambda>d'. reach env d d'"], goal_cases)
  case (2 d1)
  note inv1 = dispatch_steps_inv[OF 2 inv]
  show ?case
  proof (cases "d_terminal_error d1")
    case (Some a)
    then obtain e where "downcast (ce_error_type env) a = Ok e"
      using dispatch_invD(6)[OF inv1] downcast_upcast_any by metis
    with Some show ?thesis
      unfolding dispatch_poll_turn_def
      by (simp only: option.case result.case)
        (rule holds_bind_pair[OF shut_down_steps], use 2 in \<open>auto split: poll.splits\<close>)
  next
    case None
    have set: "reach env d (d2\<lparr>d_terminal_error := Some (upcast_any (ce_error_type env) e)\<rparr>)"
      if "reach env d1 d2" for d2 e
      using 2 that by (intro reach_step[OF _ ds_terminal]) simp
    from None show ?thesis
      unfolding dispatch_poll_turn_def
      by (simp only: option.case)
        (rule holds_bind_pair[OF client_run_steps[OF inv1]], use 2 set in \<open>auto split: poll.splits result.splits\<close>)
  qed
qed simp

end
