(* ===== verification/Client_Wire.thy ===== *)
theory Client_Wire
  imports Client_Refinement
begin

text \<open>
  What the dispatch task writes to the transport and owes to its callers, over the whole
  life of the task.  The calls of the environment are logged in the world (\<open>recording\<close>), and
  the logs the task can produce are compared with two specifications: the wire protocol
  (\<open>wire_step\<close>) and the account of every request the task has received (\<open>accounted\<close>).
\<close>

section \<open>The life of the task\<close>

text \<open>
  An executor polls the task until it is ready.  Before each poll other tasks may have
  changed the world, by a function that respects \<open>R\<close>; during a poll they are part of what
  the environment's operations do.
\<close>

fun dispatch_life ::
  "('w, 'q, 'req, 'resp, 'e) client_env \<Rightarrow> (nat \<times> ('w \<Rightarrow> 'w)) list \<Rightarrow> ('w, 'q, 'e) dispatch \<Rightarrow>
   ((unit, 'e channel_error) result poll \<times> ('w, 'q, 'e) dispatch) outcome" where
  "dispatch_life env [] d = Return (Pending, d)"
| "dispatch_life env ((n, outside) # polls) d =
     obind (dispatch_poll n env (d\<lparr>d_world := outside (d_world d)\<rparr>)) (\<lambda>(p, d).
       case p of Pending \<Rightarrow> dispatch_life env polls d | Ready r \<Rightarrow> Return (Ready r, d))"

definition outside_ok :: "('w \<Rightarrow> bool) \<Rightarrow> ('w \<Rightarrow> 'w \<Rightarrow> bool) \<Rightarrow> (nat \<times> ('w \<Rightarrow> 'w)) list \<Rightarrow> bool" where
  "outside_ok W R polls \<longleftrightarrow> (\<forall>(n, outside) \<in> set polls. \<forall>w. W w \<longrightarrow> R w (outside w))"

text \<open>A property of the task's state that its steps and the other tasks keep.\<close>

locale dispatch_property =
  fixes env :: "('w, 'q, 'req, 'resp, 'e) client_env" and ent horizon W upcoming
    and R :: "'w \<Rightarrow> 'w \<Rightarrow> bool" and J :: "('w, 'q, 'e) dispatch \<Rightarrow> bool"
  assumes J_step: "dispatch_inv env ent horizon W upcoming d \<Longrightarrow> dispatch_step env d d' \<Longrightarrow> J d \<Longrightarrow> J d'"
    and J_outside: "dispatch_inv env ent horizon W upcoming d \<Longrightarrow> R (d_world d) w \<Longrightarrow> J d \<Longrightarrow>
      W w \<and> upcoming w \<subseteq> upcoming (d_world d) \<and> J (d\<lparr>d_world := w\<rparr>)"
begin

lemma J_reach:
  "reach env d d' \<Longrightarrow> dispatch_inv env ent horizon W upcoming d \<Longrightarrow> J d \<Longrightarrow> J d'"
  by (induction rule: rtranclp_induct) (use J_step dispatch_steps_inv in blast)+

lemma poll_keeps:
  assumes "dispatch_inv env ent horizon W upcoming d" "J d"
  shows "holds (dispatch_poll n env d) (\<lambda>(p, d'). dispatch_inv env ent horizon W upcoming d' \<and> J d')"
  by (rule holds_pair_mono[OF dispatch_poll_steps[OF assms(1)]])
    (simp add: dispatch_steps_inv[OF _ assms(1)] J_reach[OF _ assms])

lemma outside_keeps:
  assumes "dispatch_inv env ent horizon W upcoming d" "R (d_world d) w" "J d"
  shows "dispatch_inv env ent horizon W upcoming (d\<lparr>d_world := w\<rparr>)"
  using J_outside[OF assms] dispatch_invD[OF assms(1)] by (auto simp: dispatch_inv_def)

lemma life_keeps:
  assumes "outside_ok W R polls" "dispatch_inv env ent horizon W upcoming d" "J d"
  shows "holds (dispatch_life env polls d) (\<lambda>(p, d'). dispatch_inv env ent horizon W upcoming d' \<and> J d')"
  using assms
proof (induction polls arbitrary: d)
  case (Cons np polls)
  obtain n outside where np: "np = (n, outside)" by (cases np)
  let ?d = "d\<lparr>d_world := outside (d_world d)\<rparr>"
  have R: "R (d_world d) (outside (d_world d))"
    using Cons.prems(1) dispatch_invD(3)[OF Cons.prems(2)] by (auto simp: np outside_ok_def)
  have rest: "outside_ok W R polls" using Cons.prems(1) by (simp add: outside_ok_def)
  have "J ?d" using J_outside[OF Cons.prems(2) R Cons.prems(3)] by simp
  from poll_keeps[OF outside_keeps[OF Cons.prems(2) R Cons.prems(3)] this] show ?case
    unfolding np dispatch_life.simps
  proof (rule holds_bind_pair, goal_cases)
    case (1 p d')
    then show ?case using Cons.IH[OF rest, of d'] by (cases p) simp_all
  qed
qed simp

end

section \<open>The recorded environment\<close>

datatype ('req, 'resp, 'e) event =
    Polled "('resp response, 'e) result option poll"
  | Wrote "'req client_message" "(unit, 'e) result"
  | Closed "(unit, 'e) result poll"
  | Received "'req dispatch_request option poll"
  | Canceled "u64 option poll"
  | Completed oneshot "('resp, 'e rpc_error) result"

definition recording ::
  "('w, 'q, 'req, 'resp, 'e) client_env \<Rightarrow>
   ('w \<times> ('req, 'resp, 'e) event list, 'q, 'req, 'resp, 'e) client_env" where
  "recording env =
     \<lparr>ce_transport =
        \<lparr>tr_poll_next = recorded Polled (tr_poll_next (ce_transport env)),
         tr_poll_ready = unrecorded (tr_poll_ready (ce_transport env)),
         tr_start_send = (\<lambda>w m. recorded (Wrote m) (\<lambda>w. tr_start_send (ce_transport env) w m) w),
         tr_poll_flush = unrecorded (tr_poll_flush (ce_transport env)),
         tr_poll_close = recorded Closed (tr_poll_close (ce_transport env))\<rparr>,
      ce_pending_poll_recv = recorded Received (ce_pending_poll_recv env),
      ce_pending_close = apfst (ce_pending_close env),
      ce_canceled_poll_recv = recorded Canceled (ce_canceled_poll_recv env),
      ce_is_closed = (\<lambda>w. ce_is_closed env (fst w)),
      ce_send = (\<lambda>(w, log) os r. (ce_send env w os r, log @ [Completed os r])),
      ce_now = (\<lambda>w. ce_now env (fst w)),
      ce_delay_queue = ce_delay_queue env,
      ce_error_type = ce_error_type env\<rparr>"

lemma recording_simps [simp]:
  "tr_poll_next (ce_transport (recording env)) wl = (x, wl') \<longleftrightarrow>
     tr_poll_next (ce_transport env) (fst wl) = (x, fst wl') \<and> snd wl' = snd wl @ [Polled x]"
  "tr_poll_ready (ce_transport (recording env)) wl = (y, wl') \<longleftrightarrow>
     tr_poll_ready (ce_transport env) (fst wl) = (y, fst wl') \<and> snd wl' = snd wl"
  "tr_start_send (ce_transport (recording env)) wl m = (z, wl') \<longleftrightarrow>
     tr_start_send (ce_transport env) (fst wl) m = (z, fst wl') \<and> snd wl' = snd wl @ [Wrote m z]"
  "tr_poll_flush (ce_transport (recording env)) wl = (y, wl') \<longleftrightarrow>
     tr_poll_flush (ce_transport env) (fst wl) = (y, fst wl') \<and> snd wl' = snd wl"
  "tr_poll_close (ce_transport (recording env)) wl = (y, wl') \<longleftrightarrow>
     tr_poll_close (ce_transport env) (fst wl) = (y, fst wl') \<and> snd wl' = snd wl @ [Closed y]"
  "ce_pending_poll_recv (recording env) wl = (r, wl') \<longleftrightarrow>
     ce_pending_poll_recv env (fst wl) = (r, fst wl') \<and> snd wl' = snd wl @ [Received r]"
  "ce_canceled_poll_recv (recording env) wl = (c, wl') \<longleftrightarrow>
     ce_canceled_poll_recv env (fst wl) = (c, fst wl') \<and> snd wl' = snd wl @ [Canceled c]"
  "ce_pending_close (recording env) wl = (ce_pending_close env (fst wl), snd wl)"
  "ce_send (recording env) wl os res = (ce_send env (fst wl) os res, snd wl @ [Completed os res])"
  "ce_is_closed (recording env) wl = ce_is_closed env (fst wl)"
  "ce_now (recording env) wl = ce_now env (fst wl)"
  "ce_delay_queue (recording env) = ce_delay_queue env"
  "ce_error_type (recording env) = ce_error_type env"
  by (cases wl; simp add: recording_def recorded_eq_iff)+

lemma recording_env_step:
  "env_step (recording env) wl wl' \<Longrightarrow> env_step env (fst wl) (fst wl')"
  by (induction rule: env_step.induct) (auto intro: env_step.intros)

text \<open>Recording changes nothing of what the task relies on.\<close>

lemma recording_laws:
  "client_env_laws env W up hz \<Longrightarrow>
   client_env_laws (recording env) (\<lambda>wl. W (fst wl)) (\<lambda>wl. up (fst wl)) hz"
  unfolding client_env_laws_def using recording_env_step[of env] by auto

text \<open>An event that moves no message.\<close>

fun quiet :: "('req, 'resp, 'e) event \<Rightarrow> bool" where
  "quiet (Polled (Ready (Some (Ok _)))) = False"
| "quiet (Wrote _ _) = False"
| "quiet (Received (Ready (Some _))) = False"
| "quiet (Canceled (Ready (Some _))) = False"
| "quiet (Completed _ _) = False"
| "quiet _ = True"

lemma quiet_events:
  "\<forall>resp. p \<noteq> Ready (Some (Ok resp)) \<Longrightarrow> quiet (Polled p)"
  "\<forall>r. q \<noteq> Ready (Some r) \<Longrightarrow> quiet (Received q)"
  "\<forall>i. c \<noteq> Ready (Some i) \<Longrightarrow> quiet (Canceled c)"
  by (cases p rule: poll_option_result_cases; cases q rule: poll_option_cases;
      cases c rule: poll_option_cases; auto)+

lemma recording_env_idle:
  assumes "env_idle (recording env) wl wl'"
  shows "env_step env (fst wl) (fst wl')"
    and "snd wl' = snd wl \<or> (\<exists>ev. snd wl' = snd wl @ [ev] \<and> quiet ev)"
proof -
  show "env_step env (fst wl) (fst wl')"
    using recording_env_step[OF env_idle_step[OF assms]] .
  show "snd wl' = snd wl \<or> (\<exists>ev. snd wl' = snd wl @ [ev] \<and> quiet ev)"
    using assms by (induction rule: env_idle.induct) (auto simp: quiet_events)
qed

section \<open>The wire protocol\<close>

text \<open>
  A request id is written once.  A cancellation is written for a request that was written,
  with the trace context of that request, at most once, and not after the response to it
  was read.
\<close>

record wire =
  requested :: "u64 set"
  outstanding :: "u64 \<rightharpoonup> trace_context"

fun wire_step :: "wire \<Rightarrow> ('req, 'resp, 'e) event \<Rightarrow> wire option" where
  "wire_step st (Wrote (Request r) (Ok _)) =
     (if id r \<in> requested st then None
      else Some \<lparr>requested = insert (id r) (requested st),
                 outstanding = (outstanding st)(id r \<mapsto> trace_context (request_context r))\<rparr>)"
| "wire_step st (Wrote (Cancel tc i) (Ok _)) =
     (if outstanding st i = Some tc then Some (st\<lparr>outstanding := (outstanding st)(i := None)\<rparr>) else None)"
| "wire_step st (Polled (Ready (Some (Ok resp)))) =
     Some (st\<lparr>outstanding := (outstanding st)(request_id resp := None)\<rparr>)"
| "wire_step st _ = Some st"

definition wire_run :: "('req, 'resp, 'e) event list \<Rightarrow> wire option" where
  "wire_run log = foldl (\<lambda>st ev. Option.bind st (\<lambda>st. wire_step st ev))
     (Some \<lparr>requested = {}, outstanding = Map.empty\<rparr>) log"

lemma wire_run_append [simp]:
  "wire_run [] = Some \<lparr>requested = {}, outstanding = Map.empty\<rparr>"
  "wire_run (log @ evs) = foldl (\<lambda>st ev. Option.bind st (\<lambda>st. wire_step st ev)) (wire_run log) evs"
  by (simp_all add: wire_run_def)

text \<open>The requests of the table are outstanding on the wire, and the ids to come are new.\<close>

definition wire_rel :: "wire \<Rightarrow> u64 set \<Rightarrow> 'q client_in_flight \<Rightarrow> bool" where
  "wire_rel st U f \<longleftrightarrow> requested st \<inter> U = {} \<and>
     (\<forall>i rd. map_of (request_data f) i = Some rd \<longrightarrow> outstanding st i = Some (trace_context (rd_ctx rd)))"

definition wire_inv ::
  "('w \<Rightarrow> u64 set) \<Rightarrow> ('w \<times> ('req, 'resp, 'e) event list, 'q, 'e) dispatch \<Rightarrow> bool" where
  "wire_inv up d \<longleftrightarrow>
     (\<exists>st. wire_run (snd (d_world d)) = Some st \<and> wire_rel st (up (fst (d_world d))) (d_in_flight d))"

lemma wire_rel_shrink:
  "wire_rel st U f \<Longrightarrow> U' \<subseteq> U \<Longrightarrow> map_of (request_data f') \<subseteq>\<^sub>m map_of (request_data f) \<Longrightarrow> wire_rel st U' f'"
  unfolding wire_rel_def map_le_def dom_def by auto

lemma map_le_delete: "map_of (AList.delete i m) \<subseteq>\<^sub>m map_of m"
  by (simp add: map_le_def)

lemma wire_rel_removed:
  assumes "wire_rel st U f" "U' \<subseteq> U" "request_data f' = AList.delete i (request_data f)"
  shows "wire_rel (st\<lparr>outstanding := (outstanding st)(i := None)\<rparr>) U' f'" "wire_rel st U' f'"
  using assms by (auto simp: wire_rel_def split: if_splits)

lemma wire_invI:
  "wire_run (snd (d_world d)) = Some st \<Longrightarrow> wire_rel st (up (fst (d_world d))) (d_in_flight d) \<Longrightarrow> wire_inv up d"
  by (auto simp: wire_inv_def)

text \<open>What the operations of the table record.\<close>

fun completion_events :: "client_request_data option \<Rightarrow> ('resp, 'e rpc_error) result \<Rightarrow> ('req, 'resp, 'e) event list" where
  "completion_events None r = []"
| "completion_events (Some rd) r = [Completed (rd_response_completion rd) r]"

lemma recording_complete_request:
  assumes "client_inv dq ent hz f"
    and "complete_request dq (ce_send (recording env)) wl f i r = Return (sp, f', wl')"
  shows "request_data f' = AList.delete i (request_data f)"
    "snd wl' = snd wl @ completion_events (map_of (request_data f) i) r"
  using complete_request_result[OF assms(1), of "ce_send (recording env)" wl i r] assms(2)
  by (auto split: option.splits)

lemma recording_complete_all:
  assumes "complete_all_requests dq (ce_send (recording env)) wl f r = (sps, f', wl')"
  shows "request_data f' = []"
    "snd wl' = snd wl @ map (\<lambda>(i, rd). Completed (rd_response_completion rd) r) (request_data f)"
proof -
  have "snd (fold (\<lambda>(i, rd) wl. ce_send (recording env) wl (rd_response_completion rd) r) m wl) =
      snd wl @ map (\<lambda>(i, rd). Completed (rd_response_completion rd) r) m" for m
    by (induction m arbitrary: wl) auto
  from this[of "request_data f"] assms
  show "request_data f' = []"
    "snd wl' = snd wl @ map (\<lambda>(i, rd). Completed (rd_response_completion rd) r) (request_data f)"
    by (auto simp: complete_all_requests_def)
qed

lemma recording_poll_expired:
  assumes "client_inv dq ent hz f" "client_poll_expired dq (ce_send (recording env)) now wl f r = (p, f', wl')"
  shows "(\<exists>i rd. map_of (request_data f) i = Some rd \<and> request_data f' = AList.delete i (request_data f) \<and>
      snd wl' = snd wl @ [Completed (rd_response_completion rd) r]) \<or> request_data f' = request_data f \<and> wl' = wl"
proof (cases p rule: poll_option_cases)
  case (Item i)
  with client_poll_expired_result[OF assms] show ?thesis by (intro disjI1 exI[of _ i]) auto
qed (use client_poll_expired_result[OF assms] in simp_all)

lemma completion_events_set:
  "ev \<in> set (completion_events x r) \<longleftrightarrow> (\<exists>rd. x = Some rd \<and> ev = Completed (rd_response_completion rd) r)"
  by (cases x) auto

lemma wire_run_completions [simp]:
  "foldl (\<lambda>st ev. Option.bind st (\<lambda>st. wire_step st ev)) (Some st) (completion_events x r) = Some st"
  "foldl (\<lambda>st ev. Option.bind st (\<lambda>st. wire_step st ev)) (Some st)
     (map (\<lambda>(i, rd). Completed (rd_response_completion rd) r) m) = Some st"
  by (cases x; simp) (induction m; auto)

lemma wire_step_quiet: "quiet ev \<Longrightarrow> wire_step st ev = Some st"
  by (cases "(st, ev)" rule: wire_step.cases) auto

text \<open>The invariant after a step that removes requests and writes nothing of the protocol.\<close>

lemma wire_inv_shrink:
  assumes "wire_inv up d" "wire_run (snd wl) = wire_run (snd (d_world d))"
    and "up (fst wl) \<subseteq> up (fst (d_world d))" "map_of (request_data f) \<subseteq>\<^sub>m map_of (request_data (d_in_flight d))"
  shows "wire_inv up (d\<lparr>d_in_flight := f, d_world := wl\<rparr>)"
proof -
  from assms(1) obtain st where "wire_run (snd (d_world d)) = Some st"
    "wire_rel st (up (fst (d_world d))) (d_in_flight d)" by (auto simp: wire_inv_def)
  with assms(2) wire_rel_shrink[OF _ assms(3,4)] show ?thesis by (auto intro: wire_invI)
qed

lemma wire_inv_inserted:
  assumes inv: "wire_inv up d" and U: "id r \<in> up (fst (d_world d))" "id r \<notin> U'" "U' \<subseteq> up (fst (d_world d))"
    and f: "map_of (request_data f) (id r) = Some rd" "rd_ctx rd = request_context r"
      "\<forall>j. j \<noteq> id r \<longrightarrow> map_of (request_data f) j = map_of (request_data (d_in_flight d)) j"
  shows "\<exists>st. Option.bind (wire_run (snd (d_world d))) (\<lambda>st. wire_step st (Wrote (Request r) (Ok ()))) = Some st \<and>
    wire_rel st U' f"
proof -
  from inv obtain st where st: "wire_run (snd (d_world d)) = Some st"
    "wire_rel st (up (fst (d_world d))) (d_in_flight d)" by (auto simp: wire_inv_def)
  then have "id r \<notin> requested st" using U(1) by (auto simp: wire_rel_def)
  moreover have "wire_rel \<lparr>requested = insert (id r) (requested st),
      outstanding = (outstanding st)(id r \<mapsto> trace_context (request_context r))\<rparr> U' f"
    using st(2) U(2,3) f by (auto simp: wire_rel_def)
  ultimately show ?thesis using st(1) by simp
qed

text \<open>Writing the request that has just come out of the channel.\<close>

lemma request_message_simps:
  "request_message r = Request q \<longleftrightarrow>
     q = \<lparr>request_context = dr_ctx r, id = dr_request_id r, message = dr_request r\<rparr>"
  by (auto simp: request_message_def)

lemma insert_request_entry:
  assumes inv: "dispatch_inv env ent hz W up d"
    and recv: "ce_pending_poll_recv env (d_world d) = (Ready (Some r), w)"
    and ins: "insert_request (ce_delay_queue env) (ce_now env w) (d_in_flight d) (dr_request_id r) (dr_ctx r)
       (dr_span r) (dr_response_completion r) = Return (Ok (), f)"
  shows "\<exists>rd. map_of (request_data f) (dr_request_id r) = Some rd \<and> rd_ctx rd = dr_ctx r \<and>
      rd_response_completion rd = dr_response_completion r"
    and "\<forall>j. j \<noteq> dr_request_id r \<longrightarrow> map_of (request_data f) j = map_of (request_data (d_in_flight d)) j"
  using ins by (auto simp: insert_request_def obind_eq_Return split: option.splits)

lemma wire_step_failed [simp]: "wire_step st (Wrote m (Err e)) = Some st"
  by (cases m) simp_all

lemma insert_then_complete:
  assumes inv: "dispatch_inv (recording env) ent hz W up d"
    and room: "client_len (d_in_flight d) < max_in_flight_requests (d_config d)"
    and recv: "ce_pending_poll_recv (recording env) (d_world d) = (Ready (Some r), wl)"
    and ins: "insert_request (ce_delay_queue (recording env)) (ce_now (recording env) wl) (d_in_flight d)
       (dr_request_id r) (dr_ctx r) (dr_span r) (dr_response_completion r) = Return (Ok (), f)"
    and comp: "complete_request (ce_delay_queue (recording env)) (ce_send (recording env)) wl' f
       (dr_request_id r) res = Return (sp, f', wl'')"
  shows "map_of (request_data f') \<subseteq>\<^sub>m map_of (request_data (d_in_flight d))"
    and "snd wl'' = snd wl' @ [Completed (dr_response_completion r) res]"
    and "\<And>i rd. map_of (request_data (d_in_flight d)) i = Some rd \<Longrightarrow> map_of (request_data f') i = Some rd"
proof -
  have none: "map_of (request_data (d_in_flight d)) (dr_request_id r) = None"
    using ins by (auto simp: insert_request_def split: option.splits)
  note entry = insert_request_entry[OF inv recv ins]
  from dispatch_inv_received[OF inv recv room] ins
  have "dispatch_inv (recording env) ent hz W up (d\<lparr>d_in_flight := f, d_world := wl\<rparr>)" by simp
  from dispatch_invD(2)[OF this] have c: "client_inv (ce_delay_queue (recording env)) ent hz f" by simp
  from entry(1) obtain rd where rd: "map_of (request_data f) (dr_request_id r) = Some rd"
    "rd_response_completion rd = dr_response_completion r" by auto
  from complete_request_found[OF c rd(1), of "ce_send (recording env)" wl' res] comp rd(2)
  have "request_data f' = AList.delete (dr_request_id r) (request_data f)"
    "wl'' = ce_send (recording env) wl' (dr_response_completion r) res" by auto
  then show "map_of (request_data f') \<subseteq>\<^sub>m map_of (request_data (d_in_flight d))"
    "snd wl'' = snd wl' @ [Completed (dr_response_completion r) res]"
    "\<And>i rd. map_of (request_data (d_in_flight d)) i = Some rd \<Longrightarrow> map_of (request_data f') i = Some rd"
    using entry(2) none by (auto simp: map_le_def)
qed

lemma wire_inv_step:
  assumes inv: "dispatch_inv (recording env) ent hz W (\<lambda>wl. up (fst wl)) d"
    and step: "dispatch_step (recording env) d d'" and wire: "wire_inv up d"
  shows "wire_inv up d'"
proof -
  note laws = dispatch_invD(1)[OF inv] and W = dispatch_invD(3)[OF inv] and c_inv = dispatch_invD(2)[OF inv]
  have up: "up (fst (d_world d')) \<subseteq> up (fst (d_world d))"
    using dispatch_step_upcoming[OF step inv] by simp
  obtain st where st: "wire_run (snd (d_world d)) = Some st"
    "wire_rel st (up (fst (d_world d))) (d_in_flight d)" using wire by (auto simp: wire_inv_def)
  note shrink = wire_rel_shrink[OF st(2) up] and removed = wire_rel_removed[OF st(2) up]
  from step show ?thesis
  proof cases
    case (ds_idle wl)
    with recording_env_idle(2)[OF ds_idle(2)] shrink[of "d_in_flight d"] st(1) show ?thesis
      by (auto simp: wire_step_quiet intro!: wire_invI)
  next
    case (ds_write r wl f wl')
    note entry = insert_request_entry[OF inv ds_write(3,5)]
    then obtain rd where rd: "map_of (request_data f) (dr_request_id r) = Some rd" "rd_ctx rd = dr_ctx r" by auto
    have U: "dr_request_id r \<in> up (fst (d_world d))" "dr_request_id r \<notin> up (fst wl)" "W wl"
      using client_env_laws_recv[OF laws W ds_write(3)] client_env_laws_step[OF laws W es_pending[OF ds_write(3)]]
      by simp_all
    have "up (fst wl') \<subseteq> up (fst wl)"
      using client_env_laws_step[OF laws U(3) es_start_send[OF ds_write(6)]] by simp
    with U have "dr_request_id r \<notin> up (fst wl')" by auto
    moreover obtain q where q: "request_message r = Request q" "id q = dr_request_id r" "request_context q = dr_ctx r"
      using request_message_simps[of r] by auto
    ultimately show ?thesis
      using wire_inv_inserted[OF wire, of q "up (fst wl')" f rd] U(1) up rd entry(2) ds_write(1,3,6) st(1)
      by (auto intro: wire_invI)
  next
    case (ds_write_failed r wl f e wl' sp f' wl'')
    from insert_then_complete[OF inv ds_write_failed(2,3,5,7)] shrink[of f'] ds_write_failed(1,3,6) st(1)
    show ?thesis by (auto intro!: wire_invI)
  next
    case (ds_cancel i wl ctx sp f res wl')
    obtain rd where "map_of (request_data (d_in_flight d)) i = Some rd" "ctx = rd_ctx rd"
      and f: "request_data f = AList.delete i (request_data (d_in_flight d))"
      using cancel_request_result[OF c_inv, of i] ds_cancel(3)
      by (cases "map_of (request_data (d_in_flight d)) i") auto
    then have "outstanding st i = Some (trace_context ctx)" using st(2) by (simp add: wire_rel_def)
    with removed[of f i] f ds_cancel st(1) show ?thesis
      by (cases res) (auto intro!: wire_invI)
  next
    case (ds_cancel_missed i wl f)
    with cancel_request_result[OF c_inv, of i] removed(2)[of f i] st(1) show ?thesis
      by (auto intro!: wire_invI)
  next
    case (ds_response resp wl sp f wl')
    with recording_complete_request[OF c_inv ds_response(3)] removed(1)[of f "request_id resp"] st(1) show ?thesis
      by (auto intro!: wire_invI)
  next
    case (ds_expired p f wl)
    with recording_poll_expired[OF c_inv ds_expired(2)] st(1) removed(2)[of f] shrink[of f] show ?thesis
      by (auto intro!: wire_invI)
  next
    case (ds_fail_all e sps f wl)
    with recording_complete_all[OF ds_fail_all(2)] st(1) shrink[of f] show ?thesis
      by (auto intro!: wire_invI)
  qed (use shrink[of "d_in_flight d"] st(1) in \<open>auto intro!: wire_invI\<close>)
qed

text \<open>Other tasks may take ids and act on the channels, and leave the log alone.\<close>

definition outside_step ::
  "('w \<times> 'ev list \<Rightarrow> bool) \<Rightarrow> ('w \<Rightarrow> u64 set) \<Rightarrow> 'w \<times> 'ev list \<Rightarrow> 'w \<times> 'ev list \<Rightarrow> bool" where
  "outside_step W up wl wl' \<longleftrightarrow> W wl' \<and> up (fst wl') \<subseteq> up (fst wl) \<and> snd wl' = snd wl"

interpretation wire: dispatch_property
  "recording env" ent hz W "\<lambda>wl. up (fst wl)" "outside_step W up" "wire_inv up"
  for env :: "('w, 'q, 'req, 'resp, 'e) client_env" and ent hz W up
proof (unfold_locales, goal_cases)
  case (1 d d')
  then show ?case by (rule wire_inv_step)
next
  case (2 d wl)
  then show ?case
    using wire_inv_shrink[of up d wl "d_in_flight d"] by (simp add: outside_step_def)
qed

section \<open>The account of the requests\<close>

text \<open>
  Every request that came out of the channel was completed, or canceled by its caller, or
  its caller was gone when the task looked; or it is still in flight, and will be completed
  through its own one-shot channel.
\<close>

definition settled ::
  "('w, 'q, 'req, 'resp, 'e) client_env \<Rightarrow> 'w \<times> ('req, 'resp, 'e) event list \<Rightarrow> 'req dispatch_request \<Rightarrow> bool" where
  "settled env wl r \<longleftrightarrow>
     (\<exists>res. Completed (dr_response_completion r) res \<in> set (snd wl)) \<or>
     Canceled (Ready (Some (dr_request_id r))) \<in> set (snd wl) \<or>
     ce_is_closed env (fst wl) (dr_response_completion r)"

definition waiting :: "'q client_in_flight \<Rightarrow> 'req dispatch_request \<Rightarrow> bool" where
  "waiting f r \<longleftrightarrow> (\<exists>rd. map_of (request_data f) (dr_request_id r) = Some rd \<and>
     rd_response_completion rd = dr_response_completion r)"

definition accounted ::
  "('w, 'q, 'req, 'resp, 'e) client_env \<Rightarrow>
   ('w \<times> ('req, 'resp, 'e) event list, 'q, 'e) dispatch \<Rightarrow> bool" where
  "accounted env d \<longleftrightarrow> (\<forall>r. Received (Ready (Some r)) \<in> set (snd (d_world d)) \<longrightarrow>
     settled env (d_world d) r \<or> waiting (d_in_flight d) r)"

text \<open>\<^verbatim>\<open>oneshot\<close>: a receiver that is closed stays closed.\<close>

definition closed_stays :: "('w, 'q, 'req, 'resp, 'e) client_env \<Rightarrow> bool" where
  "closed_stays env \<longleftrightarrow>
     (\<forall>w w' os. env_step env w w' \<longrightarrow> ce_is_closed env w os \<longrightarrow> ce_is_closed env w' os)"

lemma closed_stays_steps:
  assumes "closed_stays env" "(env_step (recording env))\<^sup>*\<^sup>* wl wl'" "ce_is_closed env (fst wl) os"
  shows "ce_is_closed env (fst wl') os"
  using assms(2,3)
proof (induction rule: rtranclp_induct)
  case (step wl1 wl2)
  then show ?case using assms(1) recording_env_step[of env wl1 wl2] by (auto simp: closed_stays_def)
qed simp

lemma accountedI:
  assumes "accounted env d" and log: "snd wl = snd (d_world d) @ evs"
    and closed: "\<And>os. ce_is_closed env (fst (d_world d)) os \<Longrightarrow> ce_is_closed env (fst wl) os"
    and new: "\<And>r. Received (Ready (Some r)) \<in> set evs \<Longrightarrow> settled env wl r \<or> waiting f r"
    and old: "\<And>i rd. map_of (request_data (d_in_flight d)) i = Some rd \<Longrightarrow>
      map_of (request_data f) i = Some rd \<or> (\<exists>res. Completed (rd_response_completion rd) res \<in> set evs) \<or>
      Canceled (Ready (Some i)) \<in> set evs"
  shows "accounted env (d\<lparr>d_in_flight := f, d_world := wl\<rparr>)"
  unfolding accounted_def
proof (intro allI impI)
  fix r assume "Received (Ready (Some r)) \<in> set (snd (d_world (d\<lparr>d_in_flight := f, d_world := wl\<rparr>)))"
  with log consider "Received (Ready (Some r)) \<in> set evs" | "Received (Ready (Some r)) \<in> set (snd (d_world d))"
    by auto
  then have "settled env wl r \<or> waiting f r"
  proof cases
    case 2
    with assms(1) consider "settled env (d_world d) r" | "waiting (d_in_flight d) r"
      by (auto simp: accounted_def)
    then show ?thesis
    proof cases
      case 1
      then show ?thesis using closed log by (auto simp: settled_def)
    next
      case 2
      then obtain rd where "map_of (request_data (d_in_flight d)) (dr_request_id r) = Some rd"
        "rd_response_completion rd = dr_response_completion r" by (auto simp: waiting_def)
      with old[of "dr_request_id r" rd] log show ?thesis by (auto simp: waiting_def settled_def)
    qed
  qed (rule new)
  then show "settled env (d_world (d\<lparr>d_in_flight := f, d_world := wl\<rparr>)) r \<or>
      waiting (d_in_flight (d\<lparr>d_in_flight := f, d_world := wl\<rparr>)) r" by simp
qed

lemma accounted_step:
  assumes inv: "dispatch_inv (recording env) ent hz W (\<lambda>wl. up (fst wl)) d"
    and step: "dispatch_step (recording env) d d'" and acc: "accounted env d" and cl: "closed_stays env"
  shows "accounted env d'"
proof -
  note c_inv = dispatch_invD(2)[OF inv]
  note closed = closed_stays_steps[OF cl dispatch_step_world[OF step inv]]
  note acc' = accountedI[OF acc]
  from step show ?thesis
  proof cases
    case (ds_idle wl)
    from recording_env_idle(2)[OF ds_idle(2)] obtain evs where "snd wl = snd (d_world d) @ evs" "\<forall>ev \<in> set evs. quiet ev"
      by (metis append_Nil2 empty_iff empty_set list.set_cases set_ConsD)
    with acc'[of wl evs "d_in_flight d"] closed ds_idle(1) show ?thesis by fastforce
  next
    case (ds_aborted r wl)
    with acc'[of wl "[Received (Ready (Some r))]" "d_in_flight d"] closed show ?thesis
      by (auto simp: settled_def)
  next
    case (ds_refused r wl e)
    with acc'[of "d_world d'" "[Received (Ready (Some r)), Completed (dr_response_completion r) (Err (Channel e))]" "d_in_flight d"]
      closed show ?thesis by (auto simp: settled_def)
  next
    case (ds_write r wl f wl')
    have none: "map_of (request_data (d_in_flight d)) (dr_request_id r) = None"
      using ds_write(5) by (auto simp: insert_request_def split: option.splits)
    note entry = insert_request_entry[OF inv ds_write(3,5)]
    have "waiting f r" using entry(1) by (auto simp: waiting_def)
    moreover have "map_of (request_data f) i = Some rd"
      if "map_of (request_data (d_in_flight d)) i = Some rd" for i rd
      using that none entry(2) by (cases "i = dr_request_id r") auto
    ultimately show ?thesis
      using acc'[of wl' "[Received (Ready (Some r)), Wrote (request_message r) (Ok ())]" f] ds_write closed by auto
  next
    case (ds_write_failed r wl f e wl' sp f' wl'')
    note failed = insert_then_complete[OF inv ds_write_failed(2,3,5,7)]
    have log: "snd wl'' = snd (d_world d) @ [Received (Ready (Some r)), Wrote (request_message r) (Err e),
        Completed (dr_response_completion r) (Err (Send e))]"
      using failed(2) ds_write_failed(3,6) by simp
    show ?thesis unfolding ds_write_failed(1)
      by (rule acc'[OF log])
        (use closed ds_write_failed(1) failed(3) log in \<open>auto simp: settled_def\<close>)
  next
    case (ds_cancel i wl ctx sp f res wl')
    then have "request_data f = AList.delete i (request_data (d_in_flight d))"
      using cancel_request_result[OF c_inv, of i] by auto
    with acc'[of wl' "[Canceled (Ready (Some i)), Wrote (Cancel (trace_context ctx) i) res]" f] closed ds_cancel
    show ?thesis by auto
  next
    case (ds_cancel_missed i wl f)
    then have "request_data f = AList.delete i (request_data (d_in_flight d))"
      using cancel_request_result[OF c_inv, of i] by auto
    with acc'[of wl "[Canceled (Ready (Some i))]" f] closed ds_cancel_missed show ?thesis by auto
  next
    case (ds_response resp wl sp f wl')
    note rec = recording_complete_request[OF c_inv ds_response(3)]
    from ds_response(2) rec have log: "snd wl' = snd (d_world d) @ Polled (Ready (Some (Ok resp))) #
        completion_events (map_of (request_data (d_in_flight d)) (request_id resp)) (map_err Server (response_message resp))"
      by simp
    show ?thesis
      unfolding ds_response(1)
      by (rule acc'[OF log]) (use closed rec ds_response(1) in \<open>auto simp: completion_events_set\<close>)
  next
    case (ds_expired p f wl)
    from recording_poll_expired[OF c_inv ds_expired(2)] show ?thesis
    proof (elim disjE exE conjE)
      fix i rd assume i: "map_of (request_data (d_in_flight d)) i = Some rd"
        "request_data f = AList.delete i (request_data (d_in_flight d))"
        "snd wl = snd (d_world d) @ [Completed (rd_response_completion rd) (Err DeadlineExceeded)]"
      show ?thesis unfolding ds_expired(1)
        by (rule acc'[OF i(3)]) (use closed i ds_expired(1) in auto)
    next
      assume "request_data f = request_data (d_in_flight d)" "wl = d_world d"
      with acc ds_expired(1) show ?thesis by (simp add: accounted_def waiting_def)
    qed
  next
    case (ds_fail_all e sps f wl)
    note rec = recording_complete_all[OF ds_fail_all(2)]
    show ?thesis unfolding ds_fail_all(1)
      by (rule acc'[OF rec(2)]) (use closed ds_fail_all(1) in \<open>force dest: map_of_SomeD\<close>)+
  next
    case (ds_terminal e)
    with acc show ?thesis by (simp add: accounted_def)
  qed
qed

definition outside_closing ::
  "('w, 'q, 'req, 'resp, 'e) client_env \<Rightarrow> ('w \<times> 'ev list \<Rightarrow> bool) \<Rightarrow> ('w \<Rightarrow> u64 set) \<Rightarrow>
   'w \<times> 'ev list \<Rightarrow> 'w \<times> 'ev list \<Rightarrow> bool" where
  "outside_closing env W up wl wl' \<longleftrightarrow> outside_step W up wl wl' \<and>
     (\<forall>os. ce_is_closed env (fst wl) os \<longrightarrow> ce_is_closed env (fst wl') os)"

interpretation account: dispatch_property
  "recording env" ent hz W "\<lambda>wl. up (fst wl)" "outside_closing env W up"
  "\<lambda>d. closed_stays env \<and> accounted env d"
  for env :: "('w, 'q, 'req, 'resp, 'e) client_env" and ent hz W up
proof (unfold_locales, goal_cases)
  case (1 d d')
  then show ?case using accounted_step[of env ent hz W up d d'] by simp
next
  case (2 d wl)
  then show ?case
    using accountedI[of env d wl "[]" "d_in_flight d"]
    by (auto simp: outside_closing_def outside_step_def)
qed

section \<open>Cancellation before the request is written\<close>

text \<open>
  The comment on \<^verbatim>\<open>impl Drop for ResponseGuard\<close>: the receiver is closed before the
  cancellation is sent, so that a cancellation that overtakes its request still stops it.
  \<open>slot i\<close> is the one-shot channel of the request \<open>i\<close>.
\<close>

definition closed_before_cancel ::
  "('w, 'q, 'req, 'resp, 'e) client_env \<Rightarrow> ('w \<Rightarrow> bool) \<Rightarrow> (u64 \<Rightarrow> oneshot) \<Rightarrow> bool" where
  "closed_before_cancel env W slot \<longleftrightarrow> closed_stays env \<and>
     (\<forall>w i w'. ce_canceled_poll_recv env w = (Ready (Some i), w') \<longrightarrow> ce_is_closed env w' (slot i)) \<and>
     (\<forall>w r w'. W w \<longrightarrow> ce_pending_poll_recv env w = (Ready (Some r), w') \<longrightarrow>
        dr_response_completion r = slot (dr_request_id r))"

fun no_late_write :: "u64 set \<Rightarrow> ('req, 'resp, 'e) event list \<Rightarrow> bool" where
  "no_late_write C [] = True"
| "no_late_write C (Canceled (Ready (Some i)) # log) = no_late_write (insert i C) log"
| "no_late_write C (Wrote (Request r) res # log) = (id r \<notin> C \<and> no_late_write C log)"
| "no_late_write C (_ # log) = no_late_write C log"

definition canceled_ids :: "('req, 'resp, 'e) event list \<Rightarrow> u64 set" where
  "canceled_ids log = {i. Canceled (Ready (Some i)) \<in> set log}"

lemma canceled_ids_append [simp]:
  "canceled_ids [] = {}"
  "canceled_ids (log @ evs) = canceled_ids log \<union> canceled_ids evs"
  "canceled_ids (Canceled (Ready (Some i)) # log) = insert i (canceled_ids log)"
  "(\<And>i. ev \<noteq> Canceled (Ready (Some i))) \<Longrightarrow> canceled_ids (ev # log) = canceled_ids log"
  by (auto simp: canceled_ids_def)

lemma no_late_write_append:
  "no_late_write C (log @ evs) \<longleftrightarrow> no_late_write C log \<and> no_late_write (C \<union> canceled_ids log) evs"
  by (induction C log rule: no_late_write.induct) (auto simp: insert_commute)

lemma no_late_writeI:
  "(\<And>r res. Wrote (Request r) res \<in> set evs \<Longrightarrow> id r \<notin> C \<union> canceled_ids evs) \<Longrightarrow> no_late_write C evs"
  by (induction C evs rule: no_late_write.induct) auto

definition late_inv ::
  "('w, 'q, 'req, 'resp, 'e) client_env \<Rightarrow> ('w \<Rightarrow> bool) \<Rightarrow> (u64 \<Rightarrow> oneshot) \<Rightarrow>
   ('w \<times> ('req, 'resp, 'e) event list, 'q, 'e) dispatch \<Rightarrow> bool" where
  "late_inv env W slot d \<longleftrightarrow> closed_before_cancel env W slot \<and> no_late_write {} (snd (d_world d)) \<and>
     (\<forall>i \<in> canceled_ids (snd (d_world d)). ce_is_closed env (fst (d_world d)) (slot i))"

lemma late_invI:
  assumes late: "late_inv env W slot d" and log: "snd wl = snd (d_world d) @ evs"
    and closed: "\<And>os. ce_is_closed env (fst (d_world d)) os \<Longrightarrow> ce_is_closed env (fst wl) os"
    and canceled: "\<And>i. i \<in> canceled_ids evs \<Longrightarrow> ce_is_closed env (fst wl) (slot i)"
    and written: "\<And>r res. Wrote (Request r) res \<in> set evs \<Longrightarrow>
      id r \<notin> canceled_ids (snd (d_world d)) \<union> canceled_ids evs"
  shows "late_inv env W slot (d\<lparr>d_in_flight := f, d_world := wl\<rparr>)"
  using late log closed canceled no_late_writeI[OF written]
  by (auto simp: late_inv_def no_late_write_append)

lemma not_canceled:
  assumes late: "late_inv env W slot d"
    and recv: "ce_pending_poll_recv (recording env) (d_world d) = (Ready (Some r), wl)"
    and W: "W (fst (d_world d))"
    and wait: "\<not> ce_is_closed (recording env) wl (dr_response_completion r)"
  shows "dr_request_id r \<notin> canceled_ids (snd (d_world d))"
proof
  assume "dr_request_id r \<in> canceled_ids (snd (d_world d))"
  with late have "ce_is_closed env (fst (d_world d)) (slot (dr_request_id r))" by (auto simp: late_inv_def)
  moreover have "env_step env (fst (d_world d)) (fst wl)" using recv by (auto intro: es_pending)
  ultimately have "ce_is_closed env (fst wl) (slot (dr_request_id r))"
    using late by (auto simp: late_inv_def closed_before_cancel_def closed_stays_def)
  moreover have "dr_response_completion r = slot (dr_request_id r)"
    using late recv W unfolding late_inv_def closed_before_cancel_def recording_simps by blast
  ultimately show False using wait by simp
qed

lemma late_inv_cancel:
  assumes late: "late_inv env W slot d"
    and recv: "ce_canceled_poll_recv (recording env) (d_world d) = (Ready (Some i), wl)"
    and wl': "(env_step (recording env))\<^sup>*\<^sup>* wl wl'"
  shows "ce_is_closed env (fst wl') (slot i)"
  using late recv closed_stays_steps[OF _ wl', of "slot i"]
  by (auto simp: late_inv_def closed_before_cancel_def)

lemma late_inv_step:
  assumes inv: "dispatch_inv (recording env) ent hz (\<lambda>wl. W (fst wl)) (\<lambda>wl. up (fst wl)) d"
    and step: "dispatch_step (recording env) d d'" and late: "late_inv env W slot d"
  shows "late_inv env W slot d'"
proof -
  note c_inv = dispatch_invD(2)[OF inv]
  have "closed_stays env" using late by (simp add: late_inv_def closed_before_cancel_def)
  note closed = closed_stays_steps[OF this dispatch_step_world[OF step inv]]
  note late' = late_invI[OF late]
  from step show ?thesis
  proof cases
    case (ds_idle wl)
    from recording_env_idle(2)[OF ds_idle(2)] obtain evs where "snd wl = snd (d_world d) @ evs" "\<forall>ev \<in> set evs. quiet ev"
      by (metis append_Nil2 empty_iff empty_set list.set_cases set_ConsD)
    with late'[of wl evs "d_in_flight d"] closed ds_idle(1) show ?thesis
      by (fastforce simp: canceled_ids_def)
  next
    case (ds_aborted r wl)
    with late'[of wl "[Received (Ready (Some r))]" "d_in_flight d"] closed show ?thesis by auto
  next
    case (ds_refused r wl e)
    with late'[of "d_world d'" "[Received (Ready (Some r)), Completed (dr_response_completion r) (Err (Channel e))]" "d_in_flight d"]
      closed show ?thesis by auto
  next
    case (ds_write r wl f wl')
    with late'[of wl' "[Received (Ready (Some r)), Wrote (request_message r) (Ok ())]" f] closed
      not_canceled[OF late ds_write(3) dispatch_invD(3)[OF inv] ds_write(4)] show ?thesis
      by (auto simp: request_message_def)
  next
    case (ds_write_failed r wl f e wl' sp f' wl'')
    note failed = insert_then_complete(2)[OF inv ds_write_failed(2,3,5,7)]
    with late'[of wl'' "[Received (Ready (Some r)), Wrote (request_message r) (Err e),
        Completed (dr_response_completion r) (Err (Send e))]" f'] closed ds_write_failed
      not_canceled[OF late ds_write_failed(3) dispatch_invD(3)[OF inv] ds_write_failed(4)] show ?thesis
      by (auto simp: request_message_def)
  next
    case (ds_cancel i wl ctx sp f res wl')
    have "(env_step (recording env))\<^sup>*\<^sup>* wl wl'" using es_start_send[OF ds_cancel(4)] by simp
    from late_inv_cancel[OF late ds_cancel(2) this]
      late'[of wl' "[Canceled (Ready (Some i)), Wrote (Cancel (trace_context ctx) i) res]" f] closed ds_cancel
    show ?thesis by auto
  next
    case (ds_cancel_missed i wl f)
    with late_inv_cancel[OF late ds_cancel_missed(2) rtranclp.rtrancl_refl]
      late'[of wl "[Canceled (Ready (Some i))]" f] closed show ?thesis by auto
  next
    case (ds_response resp wl sp f wl')
    with late'[of wl' "Polled (Ready (Some (Ok resp))) # completion_events
        (map_of (request_data (d_in_flight d)) (request_id resp)) (map_err Server (response_message resp))" f]
      recording_complete_request[OF c_inv ds_response(3)] closed show ?thesis
      by (auto simp: completion_events_set canceled_ids_def)
  next
    case (ds_expired p f wl)
    then consider os where "snd wl = snd (d_world d) @ [Completed os (Err DeadlineExceeded)]"
      | "snd wl = snd (d_world d) @ []"
      using recording_poll_expired[OF c_inv ds_expired(2)] by auto
    then show ?thesis using late'[of wl _ f] closed ds_expired(1) by cases auto
  next
    case (ds_fail_all e sps f wl)
    show ?thesis unfolding ds_fail_all(1)
      by (rule late'[OF recording_complete_all(2)[OF ds_fail_all(2)]])
        (use closed ds_fail_all(1) in \<open>auto simp: canceled_ids_def\<close>)
  next
    case (ds_terminal e)
    with late show ?thesis by (simp add: late_inv_def)
  qed
qed

interpretation late: dispatch_property
  "recording env" ent hz "\<lambda>wl. W (fst wl)" "\<lambda>wl. up (fst wl)" "outside_closing env (\<lambda>wl. W (fst wl)) up" "late_inv env W slot"
  for env :: "('w, 'q, 'req, 'resp, 'e) client_env" and ent hz W up slot
proof (unfold_locales, goal_cases)
  case (1 d d')
  then show ?case by (rule late_inv_step)
next
  case (2 d wl)
  then show ?case
    using late_invI[of env W slot d wl "[]" "d_in_flight d"]
    by (auto simp: outside_closing_def outside_step_def)
qed

end
