(* ===== verification/Client_Liveness.thy ===== *)
theory Client_Liveness
  imports Client_Wire
begin

text \<open>
  That the loops of the dispatch task end, and what the values they return say.  A poll
  returns when a finite number of messages arrives during it and a flushed transport can be
  written to.
\<close>

section \<open>What a poll consumes\<close>

text \<open>
  \<open>work w\<close> bounds the messages that still arrive from \<open>w\<close> on.  \<^verbatim>\<open>poll_flush\<close> is ready when
  nothing is buffered, so the transport then has room.
\<close>

definition finite_work :: "('w, 'q, 'req, 'resp, 'e) client_env \<Rightarrow> ('w \<Rightarrow> nat) \<Rightarrow> bool" where
  "finite_work env work \<longleftrightarrow>
     (\<forall>w w'. env_step env w w' \<longrightarrow> work w' \<le> work w) \<and>
     (\<forall>w resp w'. tr_poll_next (ce_transport env) w = (Ready (Some resp), w') \<longrightarrow> work w' < work w) \<and>
     (\<forall>w r w'. ce_pending_poll_recv env w = (Ready (Some r), w') \<longrightarrow> work w' < work w) \<and>
     (\<forall>w i w'. ce_canceled_poll_recv env w = (Ready (Some i), w') \<longrightarrow> work w' < work w) \<and>
     (\<forall>w u w'. tr_poll_flush (ce_transport env) w = (Ready (Ok u), w') \<longrightarrow>
        fst (tr_poll_ready (ce_transport env) w') \<noteq> Pending)"

lemma finite_workD:
  assumes "finite_work env work"
  shows "env_step env w w' \<Longrightarrow> work w' \<le> work w"
    and "tr_poll_next (ce_transport env) w = (Ready (Some resp), w') \<Longrightarrow> work w' < work w"
    and "ce_pending_poll_recv env w = (Ready (Some r), w') \<Longrightarrow> work w' < work w"
    and "ce_canceled_poll_recv env w = (Ready (Some i), w') \<Longrightarrow> work w' < work w"
    and "tr_poll_flush (ce_transport env) w = (Ready (Ok u), w') \<Longrightarrow>
      fst (tr_poll_ready (ce_transport env) w') \<noteq> Pending"
  using assms unfolding finite_work_def by blast+

lemma finite_work_steps:
  "finite_work env work \<Longrightarrow> (env_step env)\<^sup>*\<^sup>* w w' \<Longrightarrow> work w' \<le> work w"
  by (rotate_tac, induction rule: rtranclp_induct) (auto dest: finite_workD(1))

text \<open>A message counts twice, a request in flight once: writing a request uses up a message
  and adds a request.\<close>

definition effort :: "('w \<Rightarrow> nat) \<Rightarrow> ('w, 'q, 'e) dispatch \<Rightarrow> nat" where
  "effort work d = 2 * work (d_world d) + client_len (d_in_flight d)"

lemma client_len_remove:
  assumes "client_inv dq ent hz f" "client_inv dq ent hz f'" "client_ids f' = client_ids f - {i}"
  shows "client_len f' \<le> client_len f" "i \<in> client_ids f \<Longrightarrow> client_len f' < client_len f"
  using client_len_card[OF assms(1)] client_len_card[OF assms(2)] assms(3)
    card_Diff1_le[of "client_ids f" i] card_Diff1_less[OF finite_client_ids, of i f] by auto

lemma effort_step:
  assumes fin: "finite_work env work" and inv: "dispatch_inv env ent hz W up d" and step: "dispatch_step env d d'"
  shows "effort work d' \<le> effort work d"
proof -
  have w: "work (d_world d') \<le> work (d_world d)"
    using finite_work_steps[OF fin dispatch_step_world[OF step inv]] .
  note c_inv = dispatch_invD(2)[OF inv] and c_inv' = dispatch_invD(2)[OF dispatch_step_inv[OF step inv]]
  note len = client_len_card[OF c_inv] client_len_card[OF c_inv']
  from dispatch_step_ids[OF step inv] show ?thesis
  proof (elim disjE exE conjE)
    assume "client_ids (d_in_flight d') \<subseteq> client_ids (d_in_flight d)"
    from card_mono[OF finite_client_ids this] w len show ?thesis by (simp add: effort_def)
  next
    fix r w' assume r: "ce_pending_poll_recv env (d_world d) = (Ready (Some r), w')"
      "env_step env w' (d_world d')"
      "client_ids (d_in_flight d') = insert (dr_request_id r) (client_ids (d_in_flight d))"
    have "client_len (d_in_flight d') \<le> Suc (client_len (d_in_flight d))"
      using r(3) len by (simp add: card_insert_if)
    moreover have "work (d_world d') < work (d_world d)"
      using finite_workD(3)[OF fin r(1)] finite_workD(1)[OF fin r(2)] by simp
    ultimately show ?thesis by (simp add: effort_def)
  qed
qed

lemma effort_reach:
  assumes "finite_work env work" "reach env d d'" "dispatch_inv env ent hz W up d"
  shows "effort work d' \<le> effort work d"
  using assms(2,3)
proof (induction rule: rtranclp_induct)
  case (step d1 d2)
  with effort_step[OF assms(1) dispatch_steps_inv[OF step.hyps(1) assms(3)] step.hyps(2)] show ?case by simp
qed simp

lemma effort_active:
  assumes fin: "finite_work env work" and inv: "dispatch_inv env ent hz W up d" and active: "active_step env d d'"
  shows "effort work d' < effort work d"
proof -
  have step: "dispatch_step env d d'" using active by (simp add: active_step_def)
  note c_inv = dispatch_invD(2)[OF inv] and c_inv' = dispatch_invD(2)[OF dispatch_step_inv[OF step inv]]
  have len: "client_len (d_in_flight d') \<le> Suc (client_len (d_in_flight d))"
    using dispatch_step_ids[OF step inv] client_len_card[OF c_inv] client_len_card[OF c_inv']
      card_mono[OF finite_client_ids, of "client_ids (d_in_flight d')" "d_in_flight d"]
    by (auto simp: card_insert_if)
  from active consider w where "message_taken env (d_world d) w" "(env_step env)\<^sup>*\<^sup>* w (d_world d')"
    | i where "client_poll_expired (ce_delay_queue env) (ce_send env) (ce_now env (d_world d)) (d_world d)
             (d_in_flight d) (Err DeadlineExceeded) = (Ready (Some i), d_in_flight d', d_world d')"
    by (auto simp: active_step_def)
  then show ?thesis
  proof cases
    case (1 w)
    have "work w < work (d_world d)"
      using 1(1) by cases (auto dest: finite_workD[OF fin])
    with finite_work_steps[OF fin 1(2)] len show ?thesis by (simp add: effort_def)
  next
    case (2 i)
    from client_poll_expired_some[OF c_inv 2] obtain rd
      where "map_of (request_data (d_in_flight d)) i = Some rd" "d_world d' = ce_send env (d_world d) (rd_response_completion rd) (Err DeadlineExceeded)"
        "request_data (d_in_flight d') = AList.delete i (request_data (d_in_flight d))" by blast
    with client_len_remove(2)[OF c_inv c_inv', of i]
      finite_workD(1)[OF fin es_send[OF refl, of env "d_world d" "rd_response_completion rd" "Err DeadlineExceeded"]] show ?thesis
      by (auto simp: effort_def client_ids_def dest: map_of_Some_keys)
  qed
qed

lemma effort_progress:
  assumes "finite_work env work" "dispatch_inv env ent hz W up d" "progress env d d'"
  shows "effort work d' < effort work d"
proof -
  from assms(3) obtain d0 where d0: "reach env d d0" "active_step env d0 d'" by (auto simp: progress_def)
  from effort_active[OF assms(1) dispatch_steps_inv[OF d0(1) assms(2)] d0(2)]
    effort_reach[OF assms(1) d0(1) assms(2)] show ?thesis by simp
qed

section \<open>The loops end\<close>

lemma table_returns [simp]:
  "insert_request dq now f i ctx sp os \<noteq> OutOfFuel"
  "complete_request dq send w f i r \<noteq> OutOfFuel"
  "cancel_request dq f i \<noteq> OutOfFuel"
  unfolding insert_request_def complete_request_def cancel_request_def
  by (auto simp: obind_eq_OutOfFuel split: option.splits)

lemma ensure_writeable_returns:
  assumes fin: "finite_work env work" and n: "2 \<le> n"
  shows "ensure_writeable n env w \<noteq> OutOfFuel"
proof -
  obtain m where n: "n = Suc (Suc m)" using n by (metis add_2_eq_Suc le_Suc_ex)
  obtain p w1 where r: "dispatch_poll_ready env w = (p, w1)" by fastforce
  obtain q w2 where f: "dispatch_poll_flush env w1 = (q, w2)" by fastforce
  obtain p' w3 where r': "dispatch_poll_ready env w2 = (p', w3)" by fastforce
  have "p' \<noteq> Pending" if "q = Ready (Ok u)" for u
    using finite_workD(5)[OF fin, of w1 u w2] f r' that
    by (auto simp: dispatch_poll_flush_def dispatch_poll_ready_def split: prod.splits)
  then show ?thesis
    unfolding ensure_writeable_def n
    by (cases p rule: poll_result_cases; cases q rule: poll_result_cases; cases p' rule: poll_result_cases)
      (auto simp: ensure_writeable_turn_def r f r')
qed

lemma receiving_loops_return:
  assumes "finite_work env work" "work (d_world d) < n"
  shows "loop n (next_request_turn env) d \<noteq> OutOfFuel"
    and "loop n (next_cancellation_turn env) d \<noteq> OutOfFuel"
    and "loop n (shut_down_turn env e) d \<noteq> OutOfFuel"
proof -
  note rule = loop_returns[of "\<lambda>_. True" d "\<lambda>d. work (d_world d)" n]
  show "loop n (next_request_turn env) d \<noteq> OutOfFuel"
    by (rule rule) (use assms(2) in \<open>auto simp: next_request_turn_def dest: finite_workD[OF assms(1)]
      split: prod.splits poll.splits option.splits if_splits\<close>)
  show "loop n (next_cancellation_turn env) d \<noteq> OutOfFuel"
    by (rule rule) (use assms(2) in \<open>auto simp: next_cancellation_turn_def obind_eq_Return obind_eq_OutOfFuel dest: finite_workD[OF assms(1)]
      split: prod.splits poll.splits option.splits if_splits\<close>)
  have "work (ce_send env w os res) < work w0" if "ce_pending_poll_recv env w0 = (Ready (Some r), w)" for w0 w os r res
    using finite_workD(1)[OF assms(1) es_send[OF refl, of env w os res]] finite_workD(3)[OF assms(1) that] by simp
  then show "loop n (shut_down_turn env e) d \<noteq> OutOfFuel"
    by (intro rule) (use assms(2) in \<open>auto simp: shut_down_turn_def dest: finite_workD(3)[OF assms(1)]
      split: prod.splits poll.splits option.splits if_splits\<close>)
qed

lemma poll_next_returns:
  assumes fin: "finite_work env work" and n: "2 \<le> n" "work (d_world d) < n"
  shows "poll_next_request n env d \<noteq> OutOfFuel" "poll_next_cancellation n env d \<noteq> OutOfFuel"
proof -
  have w: "work w < n" if "ensure_writeable n env (d_world d) = Return (p, w)" for p w
    using ensure_writeable_steps[of n env "d_world d"] that n(2) finite_work_steps[OF fin, of "d_world d" w]
      rtranclp_mono[of "env_idle env" "env_step env"] env_idle_step[of env] by fastforce
  note loops = receiving_loops_return[OF fin]
  show "poll_next_request n env d \<noteq> OutOfFuel"
    unfolding poll_next_request_def
    using ensure_writeable_returns[OF fin n(1)] w loops(1)
    by (auto simp: obind_eq_OutOfFuel split: poll.splits option.splits result.splits)
  show "poll_next_cancellation n env d \<noteq> OutOfFuel"
    unfolding poll_next_cancellation_def
    using ensure_writeable_returns[OF fin n(1)] w loops(2)
    by (auto simp: obind_eq_OutOfFuel split: poll.splits option.splits result.splits)
qed

lemma poll_write_returns:
  assumes fin: "finite_work env work" and n: "2 \<le> n" "work (d_world d) < n"
  shows "poll_write_request n env d \<noteq> OutOfFuel" "poll_write_cancel n env d \<noteq> OutOfFuel"
  unfolding poll_write_request_def poll_write_cancel_def
  using poll_next_returns[OF assms]
  by (auto simp: obind_eq_OutOfFuel split: poll.splits option.splits result.splits prod.splits)

lemma client_pump_write_returns:
  assumes fin: "finite_work env work" and n: "2 \<le> n" "work (d_world d) < n"
    and inv: "dispatch_inv env ent hz W up d"
  shows "client_pump_write n env d \<noteq> OutOfFuel"
proof -
  have "work (d_world d1) < n" if "poll_write_request n env d = Return (p, d1)" for p d1
  proof -
    have "reach env d d1" using poll_write_request_steps[OF inv, of n] that by (auto dest: moved_reach)
    then have "(env_step env)\<^sup>*\<^sup>* (d_world d) (d_world d1)"
    proof (induction rule: rtranclp_induct)
      case (step d1 d2)
      from dispatch_step_world[OF step.hyps(2) dispatch_steps_inv[OF step.hyps(1) inv]] step.IH
      show ?case by simp
    qed simp
    from finite_work_steps[OF fin this] n(2) show ?thesis by simp
  qed
  with poll_write_returns[OF fin n(1)] n(2) show ?thesis
    unfolding client_pump_write_def
    by (auto simp: obind_eq_OutOfFuel split: poll.splits option.splits)
qed

lemma client_run_turn_effort:
  assumes fin: "finite_work env work" and inv: "dispatch_inv env ent hz W up d"
    and turn: "client_run_turn n env d = Return (c, d')"
  shows "dispatch_inv env ent hz W up d'" "effort work d' \<le> effort work d"
    "c = Continue \<Longrightarrow> effort work d' < effort work d"
proof -
  have t: "turned env d c d'" using client_run_turn_steps[OF inv, of n] turn by simp
  show inv': "dispatch_inv env ent hz W up d'" "effort work d' \<le> effort work d"
    using t dispatch_steps_inv[OF _ inv] effort_reach[OF fin _ inv] by (auto simp: turned_def)
  assume "c = Continue"
  with t obtain d1 d2 where d: "reach env d d1" "progress env d1 d2" "reach env d2 d'" by (auto simp: turned_def)
  have "reach env d d2" using d(1) progress_reach[OF d(2)] by simp
  from effort_reach[OF fin d(3) dispatch_steps_inv[OF this inv]]
    effort_progress[OF fin dispatch_steps_inv[OF d(1) inv] d(2)] effort_reach[OF fin d(1) inv]
  show "effort work d' < effort work d" by simp
qed

lemma client_run_returns:
  assumes fin: "finite_work env work" and n: "2 \<le> n" "effort work d < n" and inv: "dispatch_inv env ent hz W up d"
  shows "client_run n env d \<noteq> OutOfFuel"
  unfolding client_run_def
proof (rule loop_returns[where I = "\<lambda>d. dispatch_inv env ent hz W up d \<and> effort work d < n" and \<mu> = "effort work"], goal_cases)
  case (3 d)
  have pump: "client_pump_read env d \<noteq> OutOfFuel"
    unfolding client_pump_read_def dispatch_complete_def
    by (auto simp: obind_eq_OutOfFuel split: prod.splits poll.splits option.splits result.splits)
  have "client_pump_write n env d1 \<noteq> OutOfFuel" if "client_pump_read env d = Return (r, d1)" for r d1
  proof -
    have d1: "reach env d d1" using client_pump_read_steps[of env ent hz W up d] 3 that by (auto dest: moved_reach)
    with effort_reach[OF fin this] 3 have "work (d_world d1) < n" by (fastforce simp: effort_def)
    from client_pump_write_returns[OF fin n(1) this dispatch_steps_inv[OF d1]] 3 show ?thesis by blast
  qed
  with pump show ?case
    unfolding client_run_turn_def
    by (auto simp: obind_eq_OutOfFuel split: poll.splits option.splits result.splits)
next
  case (4 d d')
  with client_run_turn_effort[OF fin, of ent hz W up d n Continue d'] show ?case by auto
qed (use n inv in simp_all)

lemma dispatch_poll_turn_continue:
  assumes "dispatch_poll_turn n env d = Return (Continue, d')"
  obtains d1 e where "client_run n env d = Return (Ready (Err e), d1)" "d_terminal_error d = None"
    "d' = d1\<lparr>d_terminal_error := Some (upcast_any (ce_error_type env) e)\<rparr>"
proof (cases "d_terminal_error d")
  case None
  with assms obtain p d1 where "client_run n env d = Return (p, d1)"
    by (auto simp: dispatch_poll_turn_def obind_eq_Return)
  with None assms that show ?thesis
    by (cases p rule: poll_result_cases) (auto simp: dispatch_poll_turn_def)
next
  case (Some a)
  show ?thesis
  proof (cases "downcast (ce_error_type env) a")
    case (Ok e)
    with Some assms obtain p d1 where "shut_down_with_terminal_error n env d (upcast_error e) = Return (p, d1)"
      by (auto simp: dispatch_poll_turn_def obind_eq_Return)
    with Some Ok assms show ?thesis by (cases p) (auto simp: dispatch_poll_turn_def)
  qed (use Some assms in \<open>simp add: dispatch_poll_turn_def\<close>)
qed

lemma dispatch_poll_returns:
  assumes fin: "finite_work env work" and n: "2 \<le> n" "effort work d < n" and inv: "dispatch_inv env ent hz W up d"
  shows "dispatch_poll n env d \<noteq> OutOfFuel"
  unfolding dispatch_poll_def
proof (rule loop_returns[where I = "\<lambda>d. dispatch_inv env ent hz W up d \<and> effort work d < n"
      and \<mu> = "\<lambda>d. if d_terminal_error d = None then 1 else 0"], goal_cases)
  case (3 d)
  have "shut_down_with_terminal_error n env d e \<noteq> OutOfFuel" for e
  proof -
    let ?w = "ce_pending_close env (d_world d)"
    obtain sps f w where c: "complete_all_requests (ce_delay_queue env) (ce_send env) ?w (d_in_flight d)
      (Err (Channel e)) = (sps, f, w)" by (metis prod_cases3)
    have "(env_step env)\<^sup>*\<^sup>* (d_world d) w"
      using fold_send_steps[of env ?w "Err (Channel e)" "request_data (d_in_flight d)"] c
        es_pending_close[OF refl, of env "d_world d"]
      by (auto simp: complete_all_requests_def intro: env_steps2)
    from finite_work_steps[OF fin this] 3 have "work w < n" by (simp add: effort_def)
    with receiving_loops_return(3)[OF fin, of "d\<lparr>d_in_flight := f, d_world := w\<rparr>"] c show ?thesis
      by (simp add: shut_down_with_terminal_error_def)
  qed
  with client_run_returns[OF fin n(1), of d ent hz W up] 3 show ?case
    by (auto simp: dispatch_poll_turn_def obind_eq_OutOfFuel split: option.splits poll.splits result.splits)
next
  case (4 d d')
  then obtain d1 e where d1: "client_run n env d = Return (Ready (Err e), d1)" "d_terminal_error d = None"
    and d': "d' = d1\<lparr>d_terminal_error := Some (upcast_any (ce_error_type env) e)\<rparr>"
    using dispatch_poll_turn_continue by metis
  have reach: "reach env d d1" using client_run_steps[of env ent hz W up d n] 4 d1(1) by simp
  have "dispatch_inv env ent hz W up d'"
    unfolding d' using 4 dispatch_steps_inv[OF reach] dispatch_step_inv[OF ds_terminal] by blast
  with effort_reach[OF fin reach] 4 d1(2) d' show ?case by (fastforce simp: effort_def)
qed (use n inv in simp_all)

end
