(* ===== verification/Client_Results.thy ===== *)
theory Client_Results
  imports Client_Liveness
begin

text \<open>
  What the value of \<^verbatim>\<open>RequestDispatch::poll\<close> tells: \<^verbatim>\<open>Ok\<close> is returned only when the server
  has closed its half, or all senders are gone, the transport is closed and nothing is in
  flight; \<^verbatim>\<open>Err\<close> only when nothing is in flight and the channel of requests is drained.
\<close>

lemma log_env_step: "env_step (recording env) wl wl' \<Longrightarrow> set (snd wl) \<subseteq> set (snd wl')"
  by (induction rule: env_step.induct) auto

lemma log_env_steps: "(env_step (recording env))\<^sup>*\<^sup>* wl wl' \<Longrightarrow> set (snd wl) \<subseteq> set (snd wl')"
  by (induction rule: rtranclp_induct) (auto dest: log_env_step)

lemma log_reach:
  assumes "reach (recording env) d d'" "dispatch_inv (recording env) ent hz W up d"
  shows "set (snd (d_world d)) \<subseteq> set (snd (d_world d'))"
  using assms(1)
proof (induction rule: rtranclp_induct)
  case (step d1 d2)
  from log_env_steps[OF dispatch_step_world[OF step.hyps(2) dispatch_steps_inv[OF step.hyps(1) assms(2)]]] step.IH
  show ?case by blast
qed simp

section \<open>The halves that are closed\<close>

lemma next_request_closed:
  assumes "loop n (next_request_turn (recording env)) d = Return (Ready None, d')"
  shows "Received (Ready None) \<in> set (snd (d_world d'))"
proof -
  from assms obtain d0 where "next_request_turn (recording env) d0 = Return (Break (Ready None), d')"
    by (rule loop_last_turn[where I = "\<lambda>_. True"]) auto
  then show ?thesis
    by (auto simp: next_request_turn_def split: prod.splits poll.splits option.splits if_splits)
qed

lemma next_cancellation_closed:
  assumes "loop n (next_cancellation_turn (recording env)) d = Return (Ready None, d')"
  shows "Canceled (Ready None) \<in> set (snd (d_world d'))"
proof -
  from assms obtain d0 where turn: "next_cancellation_turn (recording env) d0 = Return (Break (Ready None), d')"
    by (rule loop_last_turn[where I = "\<lambda>_. True"]) auto
  obtain p wl where r: "ce_canceled_poll_recv (recording env) (d_world d0) = (p, wl)" by fastforce
  with turn show ?thesis
    by (cases p rule: poll_option_cases)
      (auto simp: next_cancellation_turn_def obind_eq_Return split: option.splits)
qed

lemma ensure_writeable_not_closed: "ensure_writeable n env w = Return (p, w') \<Longrightarrow> p \<noteq> Ready None"
  using ensure_writeable_steps[of n env w] by simp

lemma poll_next_closed:
  "poll_next_request n (recording env) d = Return (Ready None, d') \<Longrightarrow> Received (Ready None) \<in> set (snd (d_world d'))"
  "poll_next_cancellation n (recording env) d = Return (Ready None, d') \<Longrightarrow> Canceled (Ready None) \<in> set (snd (d_world d'))"
proof -
  assume r: "poll_next_request n (recording env) d = Return (Ready None, d')"
  then obtain p w where p: "ensure_writeable n (recording env) (d_world d) = Return (p, w)"
    by (auto simp: poll_next_request_def obind_eq_Return split: if_splits)
  with r show "Received (Ready None) \<in> set (snd (d_world d'))"
    using ensure_writeable_not_closed[OF p]
    by (cases p rule: poll_option_result_cases)
      (auto simp: poll_next_request_def split: if_splits intro: next_request_closed)
next
  assume r: "poll_next_cancellation n (recording env) d = Return (Ready None, d')"
  then obtain p w where p: "ensure_writeable n (recording env) (d_world d) = Return (p, w)"
    by (auto simp: poll_next_cancellation_def obind_eq_Return)
  with r show "Canceled (Ready None) \<in> set (snd (d_world d'))"
    using ensure_writeable_not_closed[OF p]
    by (cases p rule: poll_option_result_cases)
      (auto simp: poll_next_cancellation_def intro: next_cancellation_closed)
qed

lemma poll_write_request_closed:
  assumes "poll_write_request n (recording env) d = Return (Ready None, d')"
  shows "Received (Ready None) \<in> set (snd (d_world d'))"
proof -
  from assms obtain p d1 where p: "poll_next_request n (recording env) d = Return (p, d1)"
    by (auto simp: poll_write_request_def obind_eq_Return)
  show ?thesis
  proof (cases p rule: poll_option_result_cases)
    case Closed
    with p assms have "d1 = d'" by (simp add: poll_write_request_def)
    with p Closed poll_next_closed(1) show ?thesis by blast
  next
    case (Item r)
    with p assms show ?thesis
      by (auto simp: poll_write_request_def obind_eq_Return split: result.splits prod.splits)
        (metis (full_types) old.unit.exhaust result.exhaust)+
  qed (use p assms in \<open>simp_all add: poll_write_request_def\<close>)
qed

lemma poll_write_cancel_closed:
  assumes "poll_write_cancel n (recording env) d = Return (Ready None, d')"
  shows "Canceled (Ready None) \<in> set (snd (d_world d'))"
proof -
  from assms obtain p d1 where p: "poll_next_cancellation n (recording env) d = Return (p, d1)"
    by (auto simp: poll_write_cancel_def obind_eq_Return)
  show ?thesis
  proof (cases p rule: poll_option_result_cases)
    case Closed
    with p assms have "d1 = d'" by (simp add: poll_write_cancel_def)
    with p Closed poll_next_closed(2) show ?thesis by blast
  next
    case (Item x)
    with p assms show ?thesis
      by (cases x) (auto simp: poll_write_cancel_def split: result.splits prod.splits)
  qed (use p assms in \<open>simp_all add: poll_write_cancel_def\<close>)
qed

lemma pump_write_idle_closed:
  assumes "pump_write_idle (recording env) b1 b2 d = (Ready None, d')"
  shows "b1 \<and> b2 \<and> Closed (Ready (Ok ())) \<in> set (snd (d_world d'))"
  using assms
  by (auto simp: pump_write_idle_def dispatch_poll_close_def
      split: prod.splits poll.splits option.splits result.splits if_splits)

lemma client_pump_write_closed:
  assumes inv: "dispatch_inv (recording env) ent hz W up d"
    and r: "client_pump_write n (recording env) d = Return (Ready None, d')"
  shows "{Received (Ready None), Canceled (Ready None), Closed (Ready (Ok ()))} \<subseteq> set (snd (d_world d'))"
proof -
  from r obtain p d1 where p: "poll_write_request n (recording env) d = Return (p, d1)"
    by (auto simp: client_pump_write_def obind_eq_Return)
  have d1: "reach (recording env) d d1" using poll_write_request_steps[OF inv, of n] p by (auto dest: moved_reach)
  note inv1 = dispatch_steps_inv[OF d1 inv]
  have "p = Pending \<or> p = Ready None"
    using r p by (cases p rule: poll_option_cases) (auto simp: client_pump_write_def)
  with r p obtain c d2 where c: "poll_write_cancel n (recording env) d1 = Return (c, d2)"
    by (auto simp: client_pump_write_def obind_eq_Return)
  have d2: "reach (recording env) d1 d2" using poll_write_cancel_steps[OF inv1, of n] c by (auto dest: moved_reach)
  have "c = Pending \<or> c = Ready None"
    using r p c \<open>p = Pending \<or> p = Ready None\<close>
    by (cases c rule: poll_option_cases) (auto simp: client_pump_write_def)
  with r p c \<open>p = Pending \<or> p = Ready None\<close>
  have idle: "pump_write_idle (recording env) (is_ready p) (is_ready c) d2 = (Ready None, d')"
    by (auto simp: client_pump_write_def)
  note closed = pump_write_idle_closed[OF idle]
  have d': "reach (recording env) d2 d'"
    using pump_write_idle_steps[OF rtranclp.rtrancl_refl idle] by simp
  from closed \<open>p = Pending \<or> p = Ready None\<close> \<open>c = Pending \<or> c = Ready None\<close> have "p = Ready None" "c = Ready None" by auto
  with poll_write_request_closed[of n env d d1] poll_write_cancel_closed[of n env d1 d2] p c closed
    log_reach[OF d2 inv1] log_reach[OF d' dispatch_steps_inv[OF d2 inv1]]
  show ?thesis by auto
qed

lemma client_pump_read_closed:
  assumes "client_pump_read (recording env) d = Return (Ready None, d')"
  shows "Polled (Ready None) \<in> set (snd (d_world d'))"
proof -
  obtain p wl where p: "tr_poll_next (ce_transport (recording env)) (d_world d) = (p, wl)" by fastforce
  with assms show ?thesis
    by (cases p rule: poll_option_result_cases) (auto simp: client_pump_read_def obind_eq_Return)
qed

section \<open>The value of the task\<close>

definition shut_down_cleanly :: "('req, 'resp, 'e) event list \<Rightarrow> 'q client_in_flight \<Rightarrow> bool" where
  "shut_down_cleanly log f \<longleftrightarrow>
     Polled (Ready None) \<in> set log \<or>
     {Received (Ready None), Canceled (Ready None), Closed (Ready (Ok ()))} \<subseteq> set log \<and> client_is_empty f"

lemma run_verdict_ok:
  "run_verdict r wr b = Break (Ready (Ok ())) \<Longrightarrow> r = Ready None \<or> wr = Ready None \<and> b"
  by (cases "(r, wr, b)" rule: run_verdict.cases) auto

lemma client_run_turn_ok:
  assumes inv: "dispatch_inv (recording env) ent hz W up d"
    and turn: "client_run_turn n (recording env) d = Return (Break (Ready (Ok ())), d')"
  shows "shut_down_cleanly (snd (d_world d')) (d_in_flight d')"
proof -
  from turn obtain r d1 where r: "client_pump_read (recording env) d = Return (r, d1)"
    by (auto simp: client_run_turn_def obind_eq_Return)
  have d1: "reach (recording env) d d1" using client_pump_read_steps[OF inv] r by (auto dest: moved_reach)
  note inv1 = dispatch_steps_inv[OF d1 inv]
  have nr: "\<forall>e. r \<noteq> Ready (Some (Err e))"
    using turn r by (auto simp: client_run_turn_def)
  with turn r obtain wr d2 where wr: "client_pump_write n (recording env) d1 = Return (wr, d2)"
    by (cases r rule: poll_option_result_cases) (auto simp: client_run_turn_def obind_eq_Return)
  have "\<forall>e. wr \<noteq> Ready (Some (Err e))"
    using turn r wr nr by (cases r rule: poll_option_result_cases) (auto simp: client_run_turn_def)
  with r wr nr have "client_run_turn n (recording env) d =
      Return (run_verdict r wr (client_is_empty (d_in_flight d2)), d2)"
    by (cases r rule: poll_option_result_cases; cases wr rule: poll_option_result_cases;
        simp add: client_run_turn_def)
  with turn have d': "d' = d2" "r = Ready None \<or> wr = Ready None \<and> client_is_empty (d_in_flight d2)"
    by (auto dest: run_verdict_ok)
  have "reach (recording env) d1 d2" using client_pump_write_steps[OF inv1, of n] wr by (auto dest: moved_reach)
  note mono = log_reach[OF this inv1]
  from d'(2) show ?thesis
    using client_pump_read_closed[of env d d1] client_pump_write_closed[OF inv1, of n d2] r wr mono d'(1)
    by (auto simp: shut_down_cleanly_def)
qed

lemma client_run_ok:
  assumes inv: "dispatch_inv (recording env) ent hz W up d"
    and run: "client_run n (recording env) d = Return (Ready (Ok ()), d')"
  shows "shut_down_cleanly (snd (d_world d')) (d_in_flight d')"
proof -
  have keeps: "dispatch_inv (recording env) ent hz W up s'"
    if "dispatch_inv (recording env) ent hz W up s" "client_run_turn n (recording env) s = Return (Continue, s')" for s s'
    using client_run_turn_steps[OF that(1), of n] that dispatch_steps_inv[of "recording env" s s']
    by (auto simp: turned_def)
  from run[unfolded client_run_def] inv obtain d0 where "dispatch_inv (recording env) ent hz W up d0"
    "client_run_turn n (recording env) d0 = Return (Break (Ready (Ok ())), d')"
    by (rule loop_last_turn) (rule keeps)
  then show ?thesis by (rule client_run_turn_ok)
qed

lemma dispatch_poll_last_turn:
  assumes inv: "dispatch_inv env ent hz W up d" and r: "dispatch_poll n env d = Return (p, d')"
  obtains d0 where "dispatch_inv env ent hz W up d0" "dispatch_poll_turn n env d0 = Return (Break p, d')"
proof -
  have keeps: "dispatch_inv env ent hz W up s'"
    if inv: "dispatch_inv env ent hz W up s" and "dispatch_poll_turn n env s = Return (Continue, s')" for s s'
  proof -
    from that(2) obtain d1 e where d1: "client_run n env s = Return (Ready (Err e), d1)"
      and s': "s' = d1\<lparr>d_terminal_error := Some (upcast_any (ce_error_type env) e)\<rparr>"
      by (rule dispatch_poll_turn_continue)
    have "reach env s d1" using client_run_steps[OF inv, of n] d1 by simp
    from dispatch_steps_inv[OF reach_step[OF this ds_terminal] inv] s' show ?thesis by simp
  qed
  from r[unfolded dispatch_poll_def] inv show ?thesis
    by (rule loop_last_turn) (use that keeps in auto)
qed

lemma dispatch_poll_ok:
  assumes inv: "dispatch_inv (recording env) ent hz W up d"
    and r: "dispatch_poll n (recording env) d = Return (Ready (Ok ()), d')"
  shows "shut_down_cleanly (snd (d_world d')) (d_in_flight d')"
proof -
  from inv r obtain d0 where inv0: "dispatch_inv (recording env) ent hz W up d0"
    and turn: "dispatch_poll_turn n (recording env) d0 = Return (Break (Ready (Ok ())), d')"
    by (rule dispatch_poll_last_turn)
  show ?thesis
  proof (cases "d_terminal_error d0")
    case None
    with turn obtain p d1 where "client_run n (recording env) d0 = Return (p, d1)"
      by (auto simp: dispatch_poll_turn_def obind_eq_Return)
    with None turn have "client_run n (recording env) d0 = Return (Ready (Ok ()), d')"
      by (cases p rule: poll_result_cases) (auto simp: dispatch_poll_turn_def)
    with inv0 show ?thesis by (rule client_run_ok)
  next
    case (Some a)
    with dispatch_invD(6)[OF inv0] obtain e' where a: "a = upcast_any (ce_error_type env) e'" by auto
    with turn Some obtain p d1 where "shut_down_with_terminal_error n (recording env) d0 (upcast_error e') = Return (p, d1)"
      by (auto simp: dispatch_poll_turn_def downcast_upcast_any obind_eq_Return)
    with turn Some a show ?thesis by (cases p) (auto simp: dispatch_poll_turn_def downcast_upcast_any)
  qed
qed

lemma shut_down_result:
  assumes "shut_down_with_terminal_error n (recording env) d e = Return (Ready (), d')"
  shows "client_is_empty (d_in_flight d')" "Received (Ready None) \<in> set (snd (d_world d'))"
    "d_terminal_error d' = d_terminal_error d"
proof -
  let ?wl = "ce_pending_close (recording env) (d_world d)"
  obtain sps f wl where c: "complete_all_requests (ce_delay_queue env) (ce_send (recording env)) ?wl (d_in_flight d)
      (Err (Channel e)) = (sps, f, wl)" by (metis prod_cases3)
  let ?I = "\<lambda>d'. d_in_flight d' = f \<and> d_terminal_error d' = d_terminal_error d"
  from assms c have loop: "loop n (shut_down_turn (recording env) e) (d\<lparr>d_in_flight := f, d_world := wl\<rparr>) = Return (Ready (), d')"
    by (simp add: shut_down_with_terminal_error_def)
  have keeps: "?I s'" if "?I s" "shut_down_turn (recording env) e s = Return (Continue, s')" for s s'
    using that by (auto simp: shut_down_turn_def split: prod.splits poll.splits option.splits if_splits)
  have start: "?I (d\<lparr>d_in_flight := f, d_world := wl\<rparr>)" by simp
  from loop start obtain d0 where "?I d0" "shut_down_turn (recording env) e d0 = Return (Break (Ready ()), d')"
    by (rule loop_last_turn[where I = ?I]) (erule (1) keeps)
  moreover have "request_data f = []" using c by (auto simp: complete_all_requests_def)
  ultimately show "client_is_empty (d_in_flight d')" "Received (Ready None) \<in> set (snd (d_world d'))"
    "d_terminal_error d' = d_terminal_error d"
    by (auto simp: shut_down_turn_def client_is_empty_def split: prod.splits poll.splits option.splits if_splits)
qed

lemma dispatch_poll_err:
  assumes inv: "dispatch_inv (recording env) ent hz W up d"
    and r: "dispatch_poll n (recording env) d = Return (Ready (Err e), d')"
  shows "client_is_empty (d_in_flight d') \<and> Received (Ready None) \<in> set (snd (d_world d')) \<and>
    d_terminal_error d' = Some (upcast_any (ce_error_type env) e)"
proof -
  from inv r obtain d0 where inv0: "dispatch_inv (recording env) ent hz W up d0"
    and turn: "dispatch_poll_turn n (recording env) d0 = Return (Break (Ready (Err e)), d')"
    by (rule dispatch_poll_last_turn)
  show ?thesis
  proof (cases "d_terminal_error d0")
    case None
    with turn obtain p d1 where "client_run n (recording env) d0 = Return (p, d1)"
      by (auto simp: dispatch_poll_turn_def obind_eq_Return)
    with None turn show ?thesis by (cases p rule: poll_result_cases) (auto simp: dispatch_poll_turn_def)
  next
    case (Some a)
    with dispatch_invD(6)[OF inv0] obtain e' where a: "a = upcast_any (ce_error_type env) e'" by auto
    with turn Some obtain p d1 where p: "shut_down_with_terminal_error n (recording env) d0 (upcast_error e') = Return (p, d1)"
      by (auto simp: dispatch_poll_turn_def downcast_upcast_any obind_eq_Return)
    with turn Some a have "p = Ready ()" "d1 = d'" "e' = e"
      by (cases p; auto simp: dispatch_poll_turn_def downcast_upcast_any)+
    with shut_down_result[of n env d0 "upcast_error e'" d'] p Some a show ?thesis by simp
  qed
qed

end
