(* ===== verification/Client_Theorems.thy ===== *)
theory Client_Theorems
  imports Client_Results
begin

text \<open>
  The properties of the client's in-flight table and of its dispatch task, and a scripted
  environment, all of whose messages are laid out in lists, at which they are applied.
\<close>

section \<open>A scripted environment\<close>

record script =
  sc_pending :: "nat dispatch_request list"
  sc_canceled :: "u64 list"
  sc_incoming :: "nat response list"
  sc_dropped :: "oneshot list"

fun next_of :: "'a list \<Rightarrow> 'a option poll" where
  "next_of [] = Ready None"
| "next_of (x # xs) = Ready (Some x)"

definition script_env :: "(script, ref_queue, nat, nat, nat) client_env" where
  "script_env =
     \<lparr>ce_transport =
        \<lparr>tr_poll_next = (\<lambda>w. (poll_map (map_option Ok) (next_of (sc_incoming w)), w\<lparr>sc_incoming := tl (sc_incoming w)\<rparr>)),
         tr_poll_ready = (\<lambda>w. (Ready (Ok ()), w)),
         tr_start_send = (\<lambda>w m. (Ok (), w)),
         tr_poll_flush = (\<lambda>w. (Ready (Ok ()), w)),
         tr_poll_close = (\<lambda>w. (Ready (Ok ()), w))\<rparr>,
      ce_pending_poll_recv = (\<lambda>w. (next_of (sc_pending w), w\<lparr>sc_pending := tl (sc_pending w)\<rparr>)),
      ce_pending_close = (\<lambda>w. w),
      ce_canceled_poll_recv = (\<lambda>w. (next_of (sc_canceled w),
        w\<lparr>sc_canceled := tl (sc_canceled w), sc_dropped := map unat (take 1 (sc_canceled w)) @ sc_dropped w\<rparr>)),
      ce_is_closed = (\<lambda>w os. os \<in> set (sc_dropped w)),
      ce_send = (\<lambda>w os r. w),
      ce_now = (\<lambda>w. 0),
      ce_delay_queue = ref_delay_queue,
      ce_error_type = 0\<rparr>"

definition script_ids :: "script \<Rightarrow> u64 set" where
  "script_ids w = dr_request_id ` set (sc_pending w)"

definition script_ok :: "script \<Rightarrow> bool" where
  "script_ok w \<longleftrightarrow> distinct (map dr_request_id (sc_pending w)) \<and>
     (\<forall>r \<in> set (sc_pending w). deadline (dr_ctx r) \<le> 100 \<and> dr_response_completion r = unat (dr_request_id r))"

lemma next_of_simps [simp]:
  "next_of xs = Ready None \<longleftrightarrow> xs = []" "next_of xs = Ready (Some x) \<longleftrightarrow> (\<exists>ys. xs = x # ys)"
  by (cases xs; auto)+

lemma script_tail_ok:
  "script_ok w \<Longrightarrow> sc_pending w' = tl (sc_pending w) \<or> sc_pending w' = sc_pending w \<Longrightarrow>
   script_ok w' \<and> script_ids w' \<subseteq> script_ids w"
  by (cases "sc_pending w") (auto simp: script_ok_def script_ids_def)

lemma script_env_pending:
  "env_step script_env w w' \<Longrightarrow> sc_pending w' = tl (sc_pending w) \<or> sc_pending w' = sc_pending w"
  by (induction rule: env_step.induct) (auto simp: script_env_def)

lemma script_laws: "client_env_laws script_env script_ok script_ids 100"
  unfolding client_env_laws_def
proof (intro conjI allI impI)
  fix w w' assume "script_ok w" "env_step script_env w w'"
  from script_tail_ok[OF this(1) script_env_pending[OF this(2)]]
  show "script_ok w'" "script_ids w' \<subseteq> script_ids w" by simp_all
next
  fix w r w' assume "script_ok w" "ce_pending_poll_recv script_env w = (Ready (Some r), w')"
  then show "dr_request_id r \<in> script_ids w" "dr_request_id r \<notin> script_ids w'" "deadline (dr_ctx r) \<le> 100"
    by (auto simp: script_env_def script_ids_def script_ok_def)
qed (simp add: script_env_def)



lemma script_closed_before_cancel: "closed_before_cancel script_env script_ok unat"
proof -
  have "set (sc_dropped w) \<subseteq> set (sc_dropped w')" if "env_step script_env w w'" for w w'
    using that by (induction rule: env_step.induct) (auto simp: script_env_def)
  then have "closed_stays script_env" by (auto simp: closed_stays_def script_env_def)
  then show ?thesis by (auto simp: closed_before_cancel_def script_env_def script_ok_def)
qed

text \<open>Three requests, a cancellation of the first one, and two responses, one of them to a
  request that was never made.\<close>

definition sample_context :: rpc_context where
  "sample_context = \<lparr>deadline = 50, trace_context = \<lparr>trace_id = TraceId 7, span_id = SpanId 8, sampling_decision = Sampled\<rparr>\<rparr>"

definition sample_request :: "u64 \<Rightarrow> nat dispatch_request" where
  "sample_request i = \<lparr>dr_ctx = sample_context, dr_span = 1, dr_request_id = i, dr_request = 5,
     dr_response_completion = unat i\<rparr>"

definition sample_script :: script where
  "sample_script = \<lparr>sc_pending = [sample_request 0, sample_request 1, sample_request 2], sc_canceled = [0],
     sc_incoming = [\<lparr>request_id = 1, response_message = Ok 6\<rparr>, \<lparr>request_id = 9, response_message = Ok 6\<rparr>],
     sc_dropped = []\<rparr>"

definition sample_config :: client_config where
  "sample_config = \<lparr>max_in_flight_requests = 2, pending_request_buffer = 1\<rparr>"

definition sample_dispatch :: "'w \<Rightarrow> ('w, ref_queue, 'e) dispatch" where
  "sample_dispatch w = \<lparr>d_world = w, d_in_flight = client_in_flight_default ref_delay_queue,
     d_config = sample_config, d_terminal_error = None\<rparr>"

lemma sample_script_ok: "script_ok sample_script"
  by (simp add: script_ok_def sample_script_def sample_request_def sample_context_def)

lemma script_delay_queue [simp]: "ce_delay_queue script_env = ref_delay_queue"
  by (simp add: script_env_def)

lemma sample_dispatch_new: "dispatch_new (\<lambda>n. Some) ref_delay_queue sample_config w = Return (sample_dispatch w)"
  by (simp add: dispatch_new_def sample_dispatch_def)

lemma sample_dispatch_inv:
  "client_env_laws env W up 100 \<Longrightarrow> ce_delay_queue env = ref_delay_queue \<Longrightarrow> W w \<Longrightarrow>
   dispatch_inv env map_of 100 W up (sample_dispatch w)"
  using dispatch_new_result[of env map_of 100 W up "\<lambda>n. Some" sample_config w w] ref_delay_queue_laws[of 100]
  by (simp add: sample_dispatch_new)

lemma sample_inv: "dispatch_inv script_env map_of 100 script_ok script_ids (sample_dispatch sample_script)"
  by (rule sample_dispatch_inv[OF script_laws]) (simp_all add: sample_script_ok)

lemma sample_recording_inv:
  "dispatch_inv (recording script_env) map_of 100 (\<lambda>wl. script_ok (fst wl)) (\<lambda>wl. script_ids (fst wl))
     (sample_dispatch (sample_script, []))"
  by (rule sample_dispatch_inv[OF recording_laws[OF script_laws]]) (simp_all add: sample_script_ok)

section \<open>The dispatch task\<close>

text \<open>C4: from a state that satisfies the invariant a poll of the dispatch task does not panic:
  neither \<^verbatim>\<open>expect("Request IDs should be unique")\<close>, nor the delay queue, nor the downcast of the
  stored error fails.  The state it leaves satisfies the invariant, and no more than
  \<^verbatim>\<open>max_in_flight_requests\<close> requests are in flight.  It is part of the invariant that the deadlines that
  callers set are within what the delay queue accepts (\<open>horizon\<close>), which the code does not check.\<close>

theorem dispatch_poll_safe:
  assumes "dispatch_inv env ent horizon W upcoming d"
  shows "holds (dispatch_poll n env d)
    (\<lambda>(p, d'). dispatch_inv env ent horizon W upcoming d' \<and>
       client_len (d_in_flight d') \<le> max_in_flight_requests (d_config d'))"
  by (rule holds_pair_mono[OF dispatch_poll_steps[OF assms]])
    (simp add: dispatch_steps_inv[OF _ assms] dispatch_invD(5)[OF dispatch_steps_inv[OF _ assms]])

theorem dispatch_poll_safe_witness:
  "dispatch_inv script_env map_of 100 script_ok script_ids (sample_dispatch sample_script) \<and>
   holds (dispatch_poll 20 script_env (sample_dispatch sample_script))
    (\<lambda>(p, d'). dispatch_inv script_env map_of 100 script_ok script_ids d' \<and>
       client_len (d_in_flight d') \<le> max_in_flight_requests (d_config d'))"
  using sample_inv dispatch_poll_safe[OF sample_inv] by blast



lemma recording_new:
  assumes "delay_queue_laws (ce_delay_queue env) ent hz" "client_env_laws env W up hz" "W w"
    and "dispatch_new mpsc_channel (ce_delay_queue env) config w0 = Return d" "d_world d = (w, [])"
  shows "dispatch_inv (recording env) ent hz (\<lambda>wl. W (fst wl)) (\<lambda>wl. up (fst wl)) d"
    and "client_is_empty (d_in_flight d)"
proof -
  from assms(4,5) have "mpsc_channel (pending_request_buffer config) w0 = Some (w, [])"
    by (auto simp: dispatch_new_def obind_eq_Return)
  with dispatch_new_result[of "recording env" ent hz "\<lambda>wl. W (fst wl)" "\<lambda>wl. up (fst wl)" mpsc_channel config w0 "(w, [])"]
    recording_laws[OF assms(2)] assms(1,3,4)
  show "dispatch_inv (recording env) ent hz (\<lambda>wl. W (fst wl)) (\<lambda>wl. up (fst wl)) d"
    "client_is_empty (d_in_flight d)" by simp_all
qed

lemmas sample_life = ref_delay_queue_laws sample_dispatch_new sample_dispatch_def outside_ok_def outside_step_def
  outside_closing_def

text \<open>C7: whatever the transport and the callers do, over any number of polls of a new task, with
  other tasks running in between, what the task writes follows the wire protocol: a request
  id is written once, and a cancellation is written at most once, only for a request that was
  written, with its trace context, and not after the response to it was read.\<close>

theorem dispatch_life_wire:
  assumes "delay_queue_laws (ce_delay_queue env) ent horizon" "client_env_laws env W upcoming horizon" "W w"
    and "dispatch_new mpsc_channel (ce_delay_queue env) config w0 = Return d" "d_world d = (w, [])"
    and "outside_ok (\<lambda>wl. W (fst wl)) (outside_step (\<lambda>wl. W (fst wl)) upcoming) polls"
  shows "holds (dispatch_life (recording env) polls d) (\<lambda>(p, d'). wire_run (snd (d_world d')) \<noteq> None)"
proof -
  note new = recording_new[OF assms(1-5)]
  have "wire_inv upcoming d"
    using new(2) assms(5) by (simp add: wire_inv_def wire_rel_def client_is_empty_def)
  from wire.life_keeps[OF assms(6) new(1) this] show ?thesis
    by (rule holds_pair_mono) (auto simp: wire_inv_def)
qed

theorem dispatch_life_wire_witness:
  "holds (dispatch_life (recording script_env) [(20, \<lambda>wl. wl), (20, \<lambda>wl. wl)] (sample_dispatch (sample_script, [])))
     (\<lambda>(p, d'). wire_run (snd (d_world d')) \<noteq> None)"
  by (rule dispatch_life_wire[OF _ script_laws sample_script_ok, of map_of "\<lambda>n. Some" sample_config "(sample_script, [])"])
    (simp_all add: sample_life)

text \<open>C8: no request is lost.  Over the life of the task every request that came out of the
  channel has been completed, or canceled by its caller, or its caller was gone; or it is in
  flight under its id, with the one-shot channel of its caller.\<close>

theorem dispatch_life_accounts:
  assumes "delay_queue_laws (ce_delay_queue env) ent horizon" "client_env_laws env W upcoming horizon" "W w"
    and "dispatch_new mpsc_channel (ce_delay_queue env) config w0 = Return d" "d_world d = (w, [])"
    and "outside_ok (\<lambda>wl. W (fst wl)) (outside_closing env (\<lambda>wl. W (fst wl)) upcoming) polls" "closed_stays env"
  shows "holds (dispatch_life (recording env) polls d) (\<lambda>(p, d').
    \<forall>r. Received (Ready (Some r)) \<in> set (snd (d_world d')) \<longrightarrow>
      settled env (d_world d') r \<or> waiting (d_in_flight d') r)"
proof -
  have "accounted env d" using assms(5) by (simp add: accounted_def)
  with assms(7) account.life_keeps[OF assms(6) recording_new(1)[OF assms(1-5)]] show ?thesis
    by (auto simp: accounted_def elim!: holds_pair_mono)
qed

theorem dispatch_life_accounts_witness:
  "holds (dispatch_life (recording script_env) [(20, \<lambda>wl. wl), (20, \<lambda>wl. wl)] (sample_dispatch (sample_script, [])))
     (\<lambda>(p, d'). \<forall>r. Received (Ready (Some r)) \<in> set (snd (d_world d')) \<longrightarrow>
        settled script_env (d_world d') r \<or> waiting (d_in_flight d') r)"
  by (rule dispatch_life_accounts[OF _ script_laws sample_script_ok, of map_of "\<lambda>n. Some" sample_config "(sample_script, [])"])
    (use script_closed_before_cancel in \<open>simp_all add: sample_life closed_before_cancel_def\<close>)

text \<open>C11: a request is not written once its cancellation has been seen.  The caller closes its
  receiver before it sends the cancellation, so a cancellation that overtakes its request
  still stops it.\<close>

theorem dispatch_life_no_late_write:
  assumes "delay_queue_laws (ce_delay_queue env) ent horizon" "client_env_laws env W upcoming horizon" "W w"
    and "dispatch_new mpsc_channel (ce_delay_queue env) config w0 = Return d" "d_world d = (w, [])"
    and "outside_ok (\<lambda>wl. W (fst wl)) (outside_closing env (\<lambda>wl. W (fst wl)) upcoming) polls"
    and "closed_before_cancel env W slot"
  shows "holds (dispatch_life (recording env) polls d) (\<lambda>(p, d'). no_late_write {} (snd (d_world d')))"
proof -
  have "late_inv env W slot d" using assms(5,7) by (simp add: late_inv_def)
  from late.life_keeps[OF assms(6) recording_new(1)[OF assms(1-5)] this] show ?thesis
    by (rule holds_pair_mono) (simp add: late_inv_def)
qed

theorem dispatch_life_no_late_write_witness:
  "holds (dispatch_life (recording script_env) [(20, \<lambda>wl. wl), (20, \<lambda>wl. wl)] (sample_dispatch (sample_script, [])))
     (\<lambda>(p, d'). no_late_write {} (snd (d_world d')))"
  by (rule dispatch_life_no_late_write[OF _ script_laws sample_script_ok, of map_of "\<lambda>n. Some" sample_config "(sample_script, [])"])
    (use script_closed_before_cancel in \<open>simp_all add: sample_life\<close>)

text \<open>C12: the task ends well only when the server has closed its half of the transport, or when
  all senders are gone, the transport is closed for writing and nothing is in flight.  It ends
  with an error only after every request in flight has been completed and the channel of
  requests is drained, and the error is the one it has stored.\<close>

theorem dispatch_poll_results:
  assumes "dispatch_inv (recording env) ent horizon W upcoming d"
  shows "holds (dispatch_poll n (recording env) d) (\<lambda>(p, d'). case p of
      Pending \<Rightarrow> True
    | Ready (Ok _) \<Rightarrow>
        Polled (Ready None) \<in> set (snd (d_world d')) \<or>
        {Received (Ready None), Canceled (Ready None), Closed (Ready (Ok ()))} \<subseteq> set (snd (d_world d')) \<and>
        client_is_empty (d_in_flight d')
    | Ready (Err e) \<Rightarrow>
        client_is_empty (d_in_flight d') \<and> Received (Ready None) \<in> set (snd (d_world d')) \<and>
        d_terminal_error d' = Some (upcast_any (ce_error_type env) e))"
proof (rule holds_pair_mono[OF dispatch_poll_steps[OF assms]], goal_cases)
  case (1 p d')
  then show ?case
    using dispatch_poll_ok[OF assms, of n d'] dispatch_poll_err[OF assms, of n _ d']
    by (cases p rule: poll_result_cases) (auto simp: shut_down_cleanly_def)
qed

theorem dispatch_poll_results_witness:
  "holds (dispatch_poll 20 (recording script_env) (sample_dispatch (sample_script, []))) (\<lambda>(p, d'). case p of
      Pending \<Rightarrow> True
    | Ready (Ok _) \<Rightarrow>
        Polled (Ready None) \<in> set (snd (d_world d')) \<or>
        {Received (Ready None), Canceled (Ready None), Closed (Ready (Ok ()))} \<subseteq> set (snd (d_world d')) \<and>
        client_is_empty (d_in_flight d')
    | Ready (Err e) \<Rightarrow>
        client_is_empty (d_in_flight d') \<and> Received (Ready None) \<in> set (snd (d_world d')) \<and>
        d_terminal_error d' = Some (upcast_any (ce_error_type script_env) e))"
  by (rule dispatch_poll_results[OF sample_recording_inv])

end
