(* ===== verification/Client_Call.thy ===== *)
theory Client_Call
  imports Client_Dispatch
begin

text \<open>
  \<^verbatim>\<open>Channel::call\<close> and \<^verbatim>\<open>ResponseGuard\<close> of \<^verbatim>\<open>tarpc/src/client.rs\<close>, with \<^verbatim>\<open>tarpc/src/cancellations.rs\<close>: the
  caller's side of a request.  A call allots an id, hands the request to the dispatch task, waits
  for the response, and, when it is dropped early, closes its receiver and sends a cancellation.
\<close>

section \<open>Cancellations\<close>

text \<open>\<^verbatim>\<open>cancellations\<close> opens an unbounded channel of ids, the one of \<^verbatim>\<open>tokio\<close>; the result of \<^verbatim>\<open>send\<close> is ignored.\<close>

record 'w cancellation_channel =
  un_send :: "'w \<Rightarrow> u64 \<Rightarrow> (unit, u64) result \<times> 'w"
  un_poll_recv :: "'w \<Rightarrow> u64 option poll \<times> 'w"

definition cancellation_cancel :: "'w cancellation_channel \<Rightarrow> 'w \<Rightarrow> u64 \<Rightarrow> 'w" where
  "cancellation_cancel un w i = snd (un_send un w i)"

definition canceled_poll_recv :: "'w cancellation_channel \<Rightarrow> 'w \<Rightarrow> u64 option poll \<times> 'w" where
  "canceled_poll_recv un w = un_poll_recv un w"

section \<open>The caller\<close>

text \<open>The environment: the current span, the random source, one-shot channels, the bounded channel
  to the dispatch task and the cancellation channel.  \<open>cl_send_poll\<close> polls \<^verbatim>\<open>Sender::send\<close>;
  \<open>cl_response_poll\<close> polls the receiver, with \<open>None\<close> for a sender that was dropped.\<close>

record ('w, 'req, 'resp, 'e) call_env =
  cl_current_span :: "'w \<Rightarrow> span"
  cl_active_span :: "'w \<Rightarrow> span \<Rightarrow> otel_span_context option"
  cl_random_span_id :: "'w \<Rightarrow> 64 word \<times> 'w"
  cl_oneshot :: "'w \<Rightarrow> oneshot \<times> 'w"
  cl_send_poll :: "'req dispatch_request \<Rightarrow> 'w \<Rightarrow> (unit, 'req dispatch_request) result poll \<times> 'w"
  cl_response_poll :: "oneshot \<Rightarrow> 'w \<Rightarrow> ('resp, 'e rpc_error) result option poll \<times> 'w"
  cl_close :: "'w \<Rightarrow> oneshot \<Rightarrow> 'w"
  cl_cancellation :: "'w cancellation_channel"

text \<open>What all clones of a channel share.\<close>

record 'w client_shared =
  cs_world :: 'w
  cs_next_request_id :: u64

record call_guard =
  cg_response :: oneshot
  cg_request_id :: u64
  cg_cancel :: bool

datatype 'req call_phase =
    Unstarted rpc_context 'req
  | Enqueuing "'req dispatch_request" call_guard
  | Awaiting call_guard

text \<open>\<^verbatim>\<open>impl Drop for ResponseGuard\<close>: the receiver is closed first.\<close>

definition call_guard_drop ::
  "('w, 'req, 'resp, 'e) call_env \<Rightarrow> call_guard \<Rightarrow> 'w client_shared \<Rightarrow> 'w client_shared" where
  "call_guard_drop env g s =
     (let w = cl_close env (cs_world s) (cg_response g);
          w = (if cg_cancel g then cancellation_cancel (cl_cancellation env) w (cg_request_id g) else w)
      in s\<lparr>cs_world := w\<rparr>)"

text \<open>\<^verbatim>\<open>fetch_add\<close> wraps around; a \<^verbatim>\<open>usize\<close> fits in a \<^verbatim>\<open>u64\<close>.\<close>

definition call_start ::
  "('w, 'req, 'resp, 'e) call_env \<Rightarrow> rpc_context \<Rightarrow> 'req \<Rightarrow> 'w client_shared \<Rightarrow>
   'req dispatch_request \<times> call_guard \<times> 'w client_shared" where
  "call_start env ctx request s =
     (let w = cs_world s;
          sp = cl_current_span env w;
          (tc, w) = (case trace_context_try_from (cl_active_span env w sp) of
                       Ok c \<Rightarrow> (c, w)
                     | Err _ \<Rightarrow> (let (x, w) = cl_random_span_id env w in (new_child x (trace_context ctx), w)));
          ctx = ctx\<lparr>trace_context := tc\<rparr>;
          (response, w) = cl_oneshot env w;
          i = cs_next_request_id s
      in (\<lparr>dr_ctx = ctx, dr_span = sp, dr_request_id = i, dr_request = request,
           dr_response_completion = response\<rparr>,
          \<lparr>cg_response = response, cg_request_id = i, cg_cancel = True\<rparr>,
          \<lparr>cs_world = w, cs_next_request_id = i + 1\<rparr>))"

text \<open>\<^verbatim>\<open>ResponseGuard::response\<close>.\<close>

definition call_await ::
  "('w, 'req, 'resp, 'e) call_env \<Rightarrow> call_guard \<Rightarrow> 'w client_shared \<Rightarrow>
   (('resp, 'e rpc_error) result + 'req call_phase) \<times> 'w client_shared" where
  "call_await env g s =
     (case cl_response_poll env (cg_response g) (cs_world s) of
        (Pending, w) \<Rightarrow> (Inr (Awaiting g), s\<lparr>cs_world := w\<rparr>)
      | (Ready response, w) \<Rightarrow>
          (Inl (case response of Some r \<Rightarrow> r | None \<Rightarrow> Err Shutdown),
           call_guard_drop env (g\<lparr>cg_cancel := False\<rparr>) (s\<lparr>cs_world := w\<rparr>)))"

definition call_enqueue ::
  "('w, 'req, 'resp, 'e) call_env \<Rightarrow> 'req dispatch_request \<Rightarrow> call_guard \<Rightarrow> 'w client_shared \<Rightarrow>
   (('resp, 'e rpc_error) result + 'req call_phase) \<times> 'w client_shared" where
  "call_enqueue env dr g s =
     (case cl_send_poll env dr (cs_world s) of
        (Pending, w) \<Rightarrow> (Inr (Enqueuing dr g), s\<lparr>cs_world := w\<rparr>)
      | (Ready (Err _), w) \<Rightarrow> (Inl (Err Shutdown), call_guard_drop env g (s\<lparr>cs_world := w\<rparr>))
      | (Ready (Ok _), w) \<Rightarrow> call_await env g (s\<lparr>cs_world := w\<rparr>))"

text \<open>One poll of the future that \<^verbatim>\<open>call\<close> returns: a result, or the phase it is suspended in.\<close>

fun call_poll ::
  "('w, 'req, 'resp, 'e) call_env \<Rightarrow> 'req call_phase \<Rightarrow> 'w client_shared \<Rightarrow>
   (('resp, 'e rpc_error) result + 'req call_phase) \<times> 'w client_shared" where
  "call_poll env (Unstarted ctx request) s =
     (let (dr, g, s) = call_start env ctx request s in call_enqueue env dr g s)"
| "call_poll env (Enqueuing dr g) s = call_enqueue env dr g s"
| "call_poll env (Awaiting g) s = call_await env g s"

fun call_drop :: "('w, 'req, 'resp, 'e) call_env \<Rightarrow> 'req call_phase \<Rightarrow> 'w client_shared \<Rightarrow> 'w client_shared" where
  "call_drop env (Unstarted ctx request) s = s"
| "call_drop env (Enqueuing dr g) s = call_guard_drop env g s"
| "call_drop env (Awaiting g) s = call_guard_drop env g s"

text \<open>The life of a call: polls, with other tasks running before each, until it is ready or dropped.\<close>

fun call_life ::
  "('w, 'req, 'resp, 'e) call_env \<Rightarrow> ('w client_shared \<Rightarrow> 'w client_shared) list \<Rightarrow> 'req call_phase \<Rightarrow>
   'w client_shared \<Rightarrow> ('resp, 'e rpc_error) result option \<times> 'w client_shared" where
  "call_life env [] phase s = (None, call_drop env phase s)"
| "call_life env (outside # polls) phase s =
     (case call_poll env phase (outside s) of
        (Inr phase, s) \<Rightarrow> call_life env polls phase s
      | (Inl r, s) \<Rightarrow> (Some r, s))"

section \<open>Identifiers\<close>

text \<open>Calls that start one after the other, on any clones of a channel, with other tasks in between.\<close>

fun start_calls ::
  "('w, 'req, 'resp, 'e) call_env \<Rightarrow> (('w \<Rightarrow> 'w) \<times> rpc_context \<times> 'req) list \<Rightarrow> 'w client_shared \<Rightarrow>
   'req dispatch_request list \<times> 'w client_shared" where
  "start_calls env [] s = ([], s)"
| "start_calls env ((outside, ctx, request) # calls) s =
     (let (dr, g, s) = call_start env ctx request (s\<lparr>cs_world := outside (cs_world s)\<rparr>);
          (drs, s) = start_calls env calls s
      in (dr # drs, s))"

lemma call_start_fields:
  assumes "call_start env ctx request s = (dr, g, s')"
  shows "dr_request_id dr = cs_next_request_id s" "cs_next_request_id s' = cs_next_request_id s + 1"
    "g = \<lparr>cg_response = dr_response_completion dr, cg_request_id = dr_request_id dr, cg_cancel = True\<rparr>"
    "dr_request dr = request" "deadline (dr_ctx dr) = deadline ctx"
  using assms by (auto simp: call_start_def Let_def split: prod.splits)

lemma start_calls_ids:
  "map dr_request_id (fst (start_calls env calls s)) =
   map (\<lambda>k. cs_next_request_id s + of_nat k) [0..<length calls]"
proof (induction calls arbitrary: s)
  case (Cons c calls)
  obtain outside ctx request where c: "c = (outside, ctx, request)" by (cases c)
  obtain dr g s1 where start: "call_start env ctx request (s\<lparr>cs_world := outside (cs_world s)\<rparr>) = (dr, g, s1)"
    by (metis prod_cases3)
  have shift: "[0..<length (c # calls)] = 0 # map Suc [0..<length calls]"
    by (simp add: map_Suc_upt upt_conv_Cons del: upt_Suc)
  show ?case
    unfolding shift using Cons[of s1] call_start_fields[OF start] c start
    by (cases "start_calls env calls s1") (simp add: comp_def add.assoc)
qed simp

lemma word_offsets_distinct:
  "n \<le> 2 ^ 64 \<Longrightarrow> distinct (map (\<lambda>k. i + of_nat k) [0..<n] :: u64 list)"
  by (auto simp: distinct_map inj_on_def word_of_nat_eq_iff take_bit_nat_eq_self)

section \<open>The end of a call\<close>

datatype call_event = ResponseClosed | CancelSent

text \<open>A \<open>log\<close> of what happens to one one-shot channel and one id: the receiver is closed, and the
  cancellation is sent.  Nothing else that the caller does shows in it.\<close>

definition call_logged ::
  "('w, 'req, 'resp, 'e) call_env \<Rightarrow> ('w \<Rightarrow> call_event list) \<Rightarrow> oneshot \<Rightarrow> u64 \<Rightarrow> bool" where
  "call_logged env log os i \<longleftrightarrow>
     (\<forall>w. log (cl_close env w os) = log w @ [ResponseClosed]) \<and>
     (\<forall>w. log (cancellation_cancel (cl_cancellation env) w i) = log w @ [CancelSent]) \<and>
     (\<forall>dr w. log (snd (cl_send_poll env dr w)) = log w) \<and>
     (\<forall>o' w. log (snd (cl_response_poll env o' w)) = log w)"

lemma call_loggedD:
  assumes "call_logged env log os i"
  shows "log (cl_close env w os) = log w @ [ResponseClosed]"
    "log (cancellation_cancel (cl_cancellation env) w i) = log w @ [CancelSent]"
    "cl_send_poll env dr w = (p, w') \<Longrightarrow> log w' = log w"
    "cl_response_poll env o' w = (q, w') \<Longrightarrow> log w' = log w"
  using assms by (auto simp: call_logged_def) (metis snd_conv)+

definition armed :: "oneshot \<Rightarrow> u64 \<Rightarrow> call_guard" where
  "armed os i = \<lparr>cg_response = os, cg_request_id = i, cg_cancel = True\<rparr>"

lemma call_guard_drop_log:
  assumes "call_logged env log os i" "cg_response g = os" "cg_request_id g = i"
  shows "log (cs_world (call_guard_drop env g s)) =
    log (cs_world s) @ ResponseClosed # (if cg_cancel g then [CancelSent] else [])"
  using assms call_loggedD[OF assms(1)] by (simp add: call_guard_drop_def Let_def)

lemma call_await_log:
  assumes lg: "call_logged env log os i" and r: "call_await env (armed os i) s = (p, s')"
  shows "case p of
      Inr phase \<Rightarrow> phase = Awaiting (armed os i) \<and> log (cs_world s') = log (cs_world s)
    | Inl _ \<Rightarrow> log (cs_world s') = log (cs_world s) @ [ResponseClosed]"
proof -
  obtain q w where q: "cl_response_poll env os (cs_world s) = (q, w)" by fastforce
  have w: "log w = log (cs_world s)" using call_loggedD(4)[OF lg q] .
  show ?thesis
  proof (cases q)
    case (Ready x)
    with r q w call_guard_drop_log[OF lg, of "(armed os i)\<lparr>cg_cancel := False\<rparr>" "s\<lparr>cs_world := w\<rparr>"] show ?thesis
      by (auto simp: call_await_def armed_def)
  qed (use r q w in \<open>auto simp: call_await_def armed_def\<close>)
qed

lemma call_enqueue_log:
  assumes lg: "call_logged env log os i" and r: "call_enqueue env dr (armed os i) s = (p, s')"
  shows "case p of
      Inr phase \<Rightarrow> phase \<in> {Enqueuing dr (armed os i), Awaiting (armed os i)} \<and> log (cs_world s') = log (cs_world s)
    | Inl x \<Rightarrow> log (cs_world s') = log (cs_world s) @ [ResponseClosed] \<or>
        x = Err Shutdown \<and> log (cs_world s') = log (cs_world s) @ [ResponseClosed, CancelSent]"
proof -
  obtain q w where q: "cl_send_poll env dr (cs_world s) = (q, w)" by fastforce
  have w: "log w = log (cs_world s)" using call_loggedD(3)[OF lg q] .
  show ?thesis
  proof (cases q rule: poll_result_cases)
    case (Item u)
    then have "call_await env (armed os i) (s\<lparr>cs_world := w\<rparr>) = (p, s')" using r q by (simp add: call_enqueue_def)
    from call_await_log[OF lg this] w show ?thesis by (auto split: sum.splits)
  next
    case (Failed e)
    with r q w call_guard_drop_log[OF lg, of "armed os i" "s\<lparr>cs_world := w\<rparr>"] show ?thesis
      by (auto simp: call_enqueue_def armed_def)
  qed (use r q w in \<open>auto simp: call_enqueue_def\<close>)
qed

definition ended :: "('resp, 'e rpc_error) result option \<Rightarrow> call_event list \<Rightarrow> bool" where
  "ended r evs \<longleftrightarrow>
     (case r of None \<Rightarrow> evs = [ResponseClosed, CancelSent]
      | Some x \<Rightarrow> evs = [ResponseClosed] \<or> x = Err Shutdown \<and> evs = [ResponseClosed, CancelSent])"

definition others_quiet :: "('w \<Rightarrow> 'ev list) \<Rightarrow> ('w client_shared \<Rightarrow> 'w client_shared) list \<Rightarrow> bool" where
  "others_quiet log polls \<longleftrightarrow> (\<forall>g \<in> set polls. \<forall>s. log (cs_world (g s)) = log (cs_world s))"

lemma call_life_ends:
  assumes lg: "call_logged env log os i"
  shows "others_quiet log polls \<Longrightarrow> phase = Enqueuing dr (armed os i) \<or> phase = Awaiting (armed os i) \<Longrightarrow>
    call_life env polls phase s = (r, s') \<Longrightarrow> \<exists>evs. log (cs_world s') = log (cs_world s) @ evs \<and> ended r evs"
proof (induction polls arbitrary: phase s)
  case Nil
  have "log (cs_world (call_guard_drop env (armed os i) s)) = log (cs_world s) @ [ResponseClosed, CancelSent]"
    using call_guard_drop_log[OF lg, of "armed os i" s] by (simp add: armed_def)
  with Nil show ?case by (auto simp: ended_def)
next
  case (Cons g polls)
  obtain p s1 where p: "call_poll env phase (g s) = (p, s1)" by fastforce
  have g: "log (cs_world (g s)) = log (cs_world s)" and rest: "others_quiet log polls"
    using Cons.prems(1) by (simp_all add: others_quiet_def)
  have step: "case p of
      Inr phase \<Rightarrow> phase \<in> {Enqueuing dr (armed os i), Awaiting (armed os i)} \<and> log (cs_world s1) = log (cs_world s)
    | Inl x \<Rightarrow> log (cs_world s1) = log (cs_world s) @ [ResponseClosed] \<or>
        x = Err Shutdown \<and> log (cs_world s1) = log (cs_world s) @ [ResponseClosed, CancelSent]"
    using Cons.prems(2)
  proof
    assume "phase = Enqueuing dr (armed os i)"
    then show ?thesis using call_enqueue_log[OF lg, of dr "g s" p s1] p g by (cases p) simp_all
  next
    assume "phase = Awaiting (armed os i)"
    then show ?thesis using call_await_log[OF lg, of "g s" p s1] p g by (auto split: sum.splits)
  qed
  show ?case
  proof (cases p)
    case (Inl x)
    with Cons.prems(3) p step show ?thesis by (auto simp: ended_def)
  next
    case (Inr phase')
    with Cons.prems(3) p have "call_life env polls phase' s1 = (r, s')" by simp
    with Cons.IH[OF rest _ this] step Inr show ?thesis by auto
  qed
qed

section \<open>Properties\<close>

text \<open>C24: The ids that \<^verbatim>\<open>Channel::call\<close> allots, over all clones of a channel, are consecutive, and so
  distinct for up to \<open>2\<^sup>64\<close> calls.  The counter is a \<^verbatim>\<open>usize\<close> of 64 bits.\<close>

theorem call_ids_distinct:
  assumes "length calls \<le> 2 ^ 64"
  shows "map dr_request_id (fst (start_calls env calls s)) =
           map (\<lambda>k. cs_next_request_id s + of_nat k) [0..<length calls] \<and>
         distinct (map dr_request_id (fst (start_calls env calls s)))"
  using start_calls_ids[of env calls s] word_offsets_distinct[OF assms, of "cs_next_request_id s"] by simp

text \<open>A caller whose request is taken at once and never answered.\<close>

definition unanswered_env :: "(call_event list, nat, nat, nat) call_env" where
  "unanswered_env =
     \<lparr>cl_current_span = (\<lambda>w. 0), cl_active_span = (\<lambda>w sp. None), cl_random_span_id = (\<lambda>w. (5, w)),
      cl_oneshot = (\<lambda>w. (3, w)), cl_send_poll = (\<lambda>dr w. (Ready (Ok ()), w)),
      cl_response_poll = (\<lambda>os w. (Pending, w)), cl_close = (\<lambda>w os. w @ [ResponseClosed]),
      cl_cancellation = \<lparr>un_send = (\<lambda>w i. (Ok (), w @ [CancelSent])), un_poll_recv = (\<lambda>w. (Pending, w))\<rparr>\<rparr>"

definition idle_shared :: "call_event list client_shared" where
  "idle_shared = \<lparr>cs_world = [], cs_next_request_id = 8\<rparr>"

theorem call_ids_distinct_witness:
  "\<forall>ctx. distinct (map dr_request_id (fst (start_calls unanswered_env [(\<lambda>w. w, ctx, 1), (\<lambda>w. w, ctx, 2)] idle_shared)))"
proof
  fix ctx
  show "distinct (map dr_request_id (fst (start_calls unanswered_env [(\<lambda>w. w, ctx, 1), (\<lambda>w. w, ctx, 2)] idle_shared)))"
    using call_ids_distinct[of "[(\<lambda>w. w, ctx, 1), (\<lambda>w. w, ctx, 2)]" unanswered_env idle_shared] by simp
qed

text \<open>C9: However a call that was polled at least once ends, its receiver is closed.  If it is dropped
  before it has a result, the cancellation of its id is sent exactly once and only after the
  receiver was closed; if it returns a response, no cancellation is sent; a cancellation with a
  result is sent only when the dispatch task was gone before it took the request, and the
  result is then \<^verbatim>\<open>Shutdown\<close>.\<close>

theorem call_closes_before_cancel:
  assumes "call_start env ctx request (outside s) = (dr, g, s1)"
    and "call_logged env log (dr_response_completion dr) (dr_request_id dr)"
    and "others_quiet log polls"
    and "call_life env (outside # polls) (Unstarted ctx request) s = (r, s')"
  shows "\<exists>evs. log (cs_world s') = log (cs_world s1) @ evs \<and>
    (case r of
       None \<Rightarrow> evs = [ResponseClosed, CancelSent]
     | Some x \<Rightarrow> evs = [ResponseClosed] \<or> x = Err Shutdown \<and> evs = [ResponseClosed, CancelSent])"
proof -
  let ?os = "dr_response_completion dr" let ?i = "dr_request_id dr"
  have g: "g = armed ?os ?i" using call_start_fields(3)[OF assms(1)] by (simp add: armed_def)
  have q: "others_quiet log ((\<lambda>s. s) # polls)" using assms(3) by (simp add: others_quiet_def)
  have "call_life env ((\<lambda>s. s) # polls) (Enqueuing dr (armed ?os ?i)) s1 = (r, s')"
    using assms(1,4) g by simp
  from call_life_ends[OF assms(2) q _ this, of dr] show ?thesis by (simp add: ended_def)
qed

theorem call_closes_before_cancel_witness:
  "\<forall>ctx. \<exists>s'. call_life unanswered_env [\<lambda>s. s, \<lambda>s. s] (Unstarted ctx 7) idle_shared = (None, s') \<and>
     cs_world s' = [ResponseClosed, CancelSent]"
proof
  fix ctx
  obtain dr g s1 where start: "call_start unanswered_env ctx 7 idle_shared = (dr, g, s1)" by (metis prod_cases3)
  obtain r s' where life: "call_life unanswered_env [\<lambda>s. s, \<lambda>s. s] (Unstarted ctx 7) idle_shared = (r, s')" by fastforce
  have s1: "cs_world s1 = []"
    using start by (auto simp: call_start_def unanswered_env_def idle_shared_def trace_context_try_from_def Let_def)
  have r: "r = None"
    using life start by (simp add: call_enqueue_def call_await_def unanswered_env_def)
  have lg: "call_logged unanswered_env (\<lambda>w. w) (dr_response_completion dr) (dr_request_id dr)"
    by (simp add: call_logged_def unanswered_env_def cancellation_cancel_def)
  have "\<exists>evs. cs_world s' = cs_world s1 @ evs \<and>
    (case r of None \<Rightarrow> evs = [ResponseClosed, CancelSent]
     | Some x \<Rightarrow> evs = [ResponseClosed] \<or> x = Err Shutdown \<and> evs = [ResponseClosed, CancelSent])"
    using call_closes_before_cancel[of unanswered_env ctx 7 "\<lambda>s. s" idle_shared dr g s1 "\<lambda>w. w" "[\<lambda>s. s]" r s'] start lg life
    by (simp add: others_quiet_def)
  with r s1 life show "\<exists>s'. call_life unanswered_env [\<lambda>s. s, \<lambda>s. s] (Unstarted ctx 7) idle_shared = (None, s') \<and>
     cs_world s' = [ResponseClosed, CancelSent]" by auto
qed

end
