(* ===== verification/Server_In_Flight.thy ===== *)
theory Server_In_Flight
  imports Deadline_Table
begin

text \<open>
  \<^verbatim>\<open>tarpc/src/server/in_flight_requests.rs\<close>: the requests a server channel has handed out
  and not answered.  The abort handles are those of \<^verbatim>\<open>futures::future::abortable\<close>, given by
  two operations on the world \<open>'w\<close>; a handle and its registration share one name.
\<close>

section \<open>State\<close>

record 'w abort_ops =
  ab_new_pair :: "'w \<Rightarrow> abort_handle \<times> 'w"
  ab_abort :: "'w \<Rightarrow> abort_handle \<Rightarrow> 'w"

record server_request_data =
  sd_abort_handle :: abort_handle
  sd_deadline_key :: dq_key
  sd_span :: span

record 'q server_in_flight =
  srv_request_data :: "(u64 \<times> server_request_data) list"
  srv_deadlines :: 'q

datatype server_already_exists_error = ServerAlreadyExistsError

definition server_in_flight_default :: "'q delay_queue \<Rightarrow> 'q server_in_flight" where
  "server_in_flight_default dq = \<lparr>srv_request_data = [], srv_deadlines = dq_default dq\<rparr>"

section \<open>Operations\<close>

definition server_len :: "'q server_in_flight \<Rightarrow> nat" where
  "server_len f = length (srv_request_data f)"

definition srv_start_request ::
  "'q delay_queue \<Rightarrow> 'w abort_ops \<Rightarrow> instant \<Rightarrow> 'w \<Rightarrow> 'q server_in_flight \<Rightarrow> u64 \<Rightarrow> instant \<Rightarrow> span \<Rightarrow>
   ((abort_handle, server_already_exists_error) result \<times> 'q server_in_flight \<times> 'w) outcome" where
  "srv_start_request dq ab now w f i dl sp =
     (case map_of (srv_request_data f) i of
        None \<Rightarrow>
          (let (handle, w') = ab_new_pair ab w in
           obind (or_panic (dq_insert dq (srv_deadlines f) now i (time_until now dl))) (\<lambda>(key, q).
             Return (Ok handle,
               \<lparr>srv_request_data =
                  (i, \<lparr>sd_abort_handle = handle, sd_deadline_key = key, sd_span = sp\<rparr>)
                    # srv_request_data f,
                srv_deadlines = q\<rparr>, w')))
      | Some _ \<Rightarrow> Return (Err ServerAlreadyExistsError, f, w))"

definition srv_cancel_request ::
  "'q delay_queue \<Rightarrow> 'w abort_ops \<Rightarrow> 'w \<Rightarrow> 'q server_in_flight \<Rightarrow> u64 \<Rightarrow>
   (bool \<times> 'q server_in_flight \<times> 'w) outcome" where
  "srv_cancel_request dq ab w f i =
     (case map_of (srv_request_data f) i of
        Some rd \<Rightarrow>
          (let w' = ab_abort ab w (sd_abort_handle rd) in
           obind (or_panic (dq_remove dq (srv_deadlines f) (sd_deadline_key rd))) (\<lambda>q.
             Return (True,
                     \<lparr>srv_request_data = AList.delete i (srv_request_data f), srv_deadlines = q\<rparr>, w')))
      | None \<Rightarrow> Return (False, f, w))"

definition srv_remove_request ::
  "'q delay_queue \<Rightarrow> 'q server_in_flight \<Rightarrow> u64 \<Rightarrow> (span option \<times> 'q server_in_flight) outcome" where
  "srv_remove_request dq f i =
     (case map_of (srv_request_data f) i of
        Some rd \<Rightarrow>
          obind (or_panic (dq_remove dq (srv_deadlines f) (sd_deadline_key rd))) (\<lambda>q.
            Return (Some (sd_span rd),
                    \<lparr>srv_request_data = AList.delete i (srv_request_data f), srv_deadlines = q\<rparr>))
      | None \<Rightarrow> Return (None, f))"

definition srv_poll_expired ::
  "'q delay_queue \<Rightarrow> 'w abort_ops \<Rightarrow> instant \<Rightarrow> 'w \<Rightarrow> 'q server_in_flight \<Rightarrow>
   u64 option poll \<times> 'q server_in_flight \<times> 'w" where
  "srv_poll_expired dq ab now w f =
     (if dq_is_empty dq (srv_deadlines f) then (Ready None, f, w)
      else case dq_poll_expired dq (srv_deadlines f) now of
        (Ready (Some i), q) \<Rightarrow>
          (case map_of (srv_request_data f) i of
             Some rd \<Rightarrow> (Ready (Some i),
                         \<lparr>srv_request_data = AList.delete i (srv_request_data f), srv_deadlines = q\<rparr>,
                         ab_abort ab w (sd_abort_handle rd))
           | None \<Rightarrow> (Ready (Some i), f\<lparr>srv_deadlines := q\<rparr>, w))
      | (p, q) \<Rightarrow> (p, f\<lparr>srv_deadlines := q\<rparr>, w))"

text \<open>\<^verbatim>\<open>impl Drop for InFlightRequests\<close>.\<close>

definition srv_drop_in_flight :: "'w abort_ops \<Rightarrow> 'w \<Rightarrow> 'q server_in_flight \<Rightarrow> 'w" where
  "srv_drop_in_flight ab w f =
     fold (\<lambda>(_, rd) w. ab_abort ab w (sd_abort_handle rd)) (srv_request_data f) w"

section \<open>Invariant and laws\<close>

definition server_ids :: "'q server_in_flight \<Rightarrow> u64 set" where
  "server_ids f = keys (srv_request_data f)"

definition server_inv :: "'q delay_queue \<Rightarrow> ('q \<Rightarrow> entries) \<Rightarrow> instant \<Rightarrow> 'q server_in_flight \<Rightarrow> bool" where
  "server_inv dq ent horizon f \<longleftrightarrow>
     delay_queue_laws dq ent horizon \<and>
     synced (ent (srv_deadlines f)) sd_deadline_key (srv_request_data f)"

lemma server_len_card: "server_inv dq ent hz f \<Longrightarrow> server_len f = card (server_ids f)"
  using card_keys[OF synced_distinct[of "ent (srv_deadlines f)" sd_deadline_key "srv_request_data f"]]
  by (simp add: server_inv_def server_len_def server_ids_def)

lemma finite_server_ids [simp]: "finite (server_ids f)"
  by (simp add: server_ids_def)

lemma server_in_flight_default_inv:
  "delay_queue_laws dq ent hz \<Longrightarrow> server_inv dq ent hz (server_in_flight_default dq)"
  by (simp add: server_inv_def server_in_flight_default_def dq_law_default)

lemma server_in_flight_default_ids [simp]: "server_ids (server_in_flight_default dq) = {}"
  by (simp add: server_ids_def server_in_flight_default_def)

lemma srv_start_request_accepted:
  assumes "server_inv dq ent hz f" "i \<notin> server_ids f"
    and ins: "dq_insert dq (srv_deadlines f) now i (time_until now dl) = Some (k, q)"
  shows "yields (srv_start_request dq ab now w f i dl sp)
    (\<lambda>(r, f', w'). server_inv dq ent hz f' \<and> server_ids f' = insert i (server_ids f) \<and>
       (\<exists>h rd. ab_new_pair ab w = (h, w') \<and> r = Ok h \<and> map_of (srv_request_data f') i = Some rd \<and>
          sd_abort_handle rd = h \<and> sd_span rd = sp \<and>
          ent (srv_deadlines f') (sd_deadline_key rd) = Some (i, max now dl)) \<and>
       (\<forall>j. j \<noteq> i \<longrightarrow> map_of (srv_request_data f') j = map_of (srv_request_data f) j))"
proof -
  let ?d = "time_until now dl"
  have laws: "delay_queue_laws dq ent hz"
    and s: "synced (ent (srv_deadlines f)) sd_deadline_key (srv_request_data f)"
    using assms(1) by (simp_all add: server_inv_def)
  have sum: "now + ?d = max now dl"
    by (simp add: time_until_def duration_since_def)
  obtain h w' where pair: "ab_new_pair ab w = (h, w')" by (cases "ab_new_pair ab w")
  let ?rd = "\<lparr>sd_abort_handle = h, sd_deadline_key = k, sd_span = sp\<rparr>"
  have none: "map_of (srv_request_data f) i = None"
    using assms(2) by (simp add: server_ids_def map_of_eq_None_keys)
  have ent: "ent q = (ent (srv_deadlines f))(k \<mapsto> (i, max now dl))"
    using dq_law_inserted[OF laws ins] sum by simp
  have "synced (ent q) sd_deadline_key ((i, ?rd) # srv_request_data f)"
    using synced_insert[OF s none, of ?rd "max now dl"] dq_law_insert[OF laws ins] ent by simp
  then show ?thesis
    using none ins ent laws pair by (simp add: srv_start_request_def server_inv_def server_ids_def)
qed

lemma srv_start_request_new:
  assumes "server_inv dq ent hz f" "i \<notin> server_ids f" "max now dl \<le> hz"
  shows "yields (srv_start_request dq ab now w f i dl sp)
    (\<lambda>(r, f', w'). server_inv dq ent hz f' \<and> server_ids f' = insert i (server_ids f) \<and>
       (\<exists>h rd. ab_new_pair ab w = (h, w') \<and> r = Ok h \<and> map_of (srv_request_data f') i = Some rd \<and>
          sd_abort_handle rd = h \<and> sd_span rd = sp \<and>
          ent (srv_deadlines f') (sd_deadline_key rd) = Some (i, max now dl)) \<and>
       (\<forall>j. j \<noteq> i \<longrightarrow> map_of (srv_request_data f') j = map_of (srv_request_data f) j))"
proof -
  have "now + time_until now dl = max now dl" by (simp add: time_until_def duration_since_def)
  then obtain k q where "dq_insert dq (srv_deadlines f) now i (time_until now dl) = Some (k, q)"
    using dq_law_accepts[of dq ent hz now "time_until now dl" "srv_deadlines f" i] assms(1,3)
    by (auto simp: server_inv_def)
  from srv_start_request_accepted[OF assms(1,2) this] show ?thesis .
qed

lemma srv_start_request_refused:
  assumes "i \<notin> server_ids f" "dq_insert dq (srv_deadlines f) now i (time_until now dl) = None"
  shows "srv_start_request dq ab now w f i dl sp = Panic"
  using assms
  by (simp add: srv_start_request_def server_ids_def map_of_eq_None_keys[THEN iffD2] split: prod.splits)

lemma srv_start_request_duplicate:
  "i \<in> server_ids f \<Longrightarrow> srv_start_request dq ab now w f i dl sp = Return (Err ServerAlreadyExistsError, f, w)"
  using map_of_eq_None_keys[of "srv_request_data f" i]
  by (cases "map_of (srv_request_data f) i") (auto simp: srv_start_request_def server_ids_def)

lemma srv_cancel_request_found:
  assumes "server_inv dq ent hz f" "map_of (srv_request_data f) i = Some rd"
  shows "\<exists>f'. srv_cancel_request dq ab w f i = Return (True, f', ab_abort ab w (sd_abort_handle rd)) \<and>
          server_inv dq ent hz f' \<and> srv_request_data f' = AList.delete i (srv_request_data f)"
  using assms synced_dq_remove[of dq ent hz "srv_deadlines f" sd_deadline_key "srv_request_data f" i rd]
  by (auto simp: srv_cancel_request_def server_inv_def)

lemma srv_cancel_request_absent:
  "i \<notin> server_ids f \<Longrightarrow> srv_cancel_request dq ab w f i = Return (False, f, w)"
  by (simp add: srv_cancel_request_def server_ids_def map_of_eq_None_keys[THEN iffD2])

lemma srv_remove_request_found:
  assumes "server_inv dq ent hz f" "map_of (srv_request_data f) i = Some rd"
  shows "\<exists>f'. srv_remove_request dq f i = Return (Some (sd_span rd), f') \<and>
          server_inv dq ent hz f' \<and> srv_request_data f' = AList.delete i (srv_request_data f)"
  using assms synced_dq_remove[of dq ent hz "srv_deadlines f" sd_deadline_key "srv_request_data f" i rd]
  by (auto simp: srv_remove_request_def server_inv_def)

lemma srv_remove_request_absent:
  "i \<notin> server_ids f \<Longrightarrow> srv_remove_request dq f i = Return (None, f)"
  by (simp add: srv_remove_request_def server_ids_def map_of_eq_None_keys[THEN iffD2])

lemma srv_remove_request_result:
  assumes "server_inv dq ent hz f"
  shows "yields (srv_remove_request dq f i)
    (\<lambda>(sp, f'). server_inv dq ent hz f' \<and> srv_request_data f' = AList.delete i (srv_request_data f) \<and>
       sp = map_option sd_span (map_of (srv_request_data f) i))"
proof (cases "map_of (srv_request_data f) i")
  case None
  then have "i \<notin> server_ids f" by (simp add: server_ids_def map_of_eq_None_keys)
  with None assms show ?thesis
    by (simp add: srv_remove_request_absent AList.delete_id server_ids_def keys_def)
next
  case (Some rd)
  with srv_remove_request_found[OF assms Some] show ?thesis by auto
qed

lemma srv_cancel_request_result:
  assumes "server_inv dq ent hz f"
  shows "yields (srv_cancel_request dq ab w f i)
    (\<lambda>(found, f', w'). server_inv dq ent hz f' \<and> srv_request_data f' = AList.delete i (srv_request_data f) \<and>
       (case map_of (srv_request_data f) i of
          None \<Rightarrow> \<not> found \<and> w' = w
        | Some rd \<Rightarrow> found \<and> w' = ab_abort ab w (sd_abort_handle rd)))"
proof (cases "map_of (srv_request_data f) i")
  case None
  then have "i \<notin> server_ids f" by (simp add: server_ids_def map_of_eq_None_keys)
  with None assms show ?thesis
    by (simp add: srv_cancel_request_absent AList.delete_id server_ids_def keys_def)
next
  case (Some rd)
  with srv_cancel_request_found[OF assms Some, of ab w] show ?thesis by auto
qed

lemma srv_poll_expired_some:
  assumes "server_inv dq ent hz f" "srv_poll_expired dq ab now w f = (Ready (Some i), f', w')"
  shows "\<exists>rd. map_of (srv_request_data f) i = Some rd \<and> w' = ab_abort ab w (sd_abort_handle rd) \<and>
           srv_request_data f' = AList.delete i (srv_request_data f) \<and> server_inv dq ent hz f'"
proof -
  from assms(2) obtain q where q: "dq_poll_expired dq (srv_deadlines f) now = (Ready (Some i), q)"
    and ne: "\<not> dq_is_empty dq (srv_deadlines f)"
    by (auto simp: srv_poll_expired_def split: prod.splits poll.splits option.splits if_splits)
  have laws: "delay_queue_laws dq ent hz"
    and s: "synced (ent (srv_deadlines f)) sd_deadline_key (srv_request_data f)"
    using assms(1) by (simp_all add: server_inv_def)
  from synced_dq_expired[OF laws s q] assms(2) q ne laws show ?thesis
    by (auto simp: srv_poll_expired_def server_inv_def)
qed

lemma srv_poll_expired_idle:
  assumes "server_inv dq ent hz f" "srv_poll_expired dq ab now w f = (p, f', w')"
    and "p = Pending \<or> p = Ready None"
  shows "server_inv dq ent hz f' \<and> srv_request_data f' = srv_request_data f \<and> w' = w"
proof (cases "dq_is_empty dq (srv_deadlines f)")
  case True
  with assms show ?thesis by (simp add: srv_poll_expired_def)
next
  case False
  from False assms(2,3) obtain q where q: "dq_poll_expired dq (srv_deadlines f) now = (p, q)"
    and f': "f' = f\<lparr>srv_deadlines := q\<rparr>" "w' = w"
    by (auto simp: srv_poll_expired_def split: prod.splits poll.splits option.splits)
  have laws: "delay_queue_laws dq ent hz" using assms(1) by (simp add: server_inv_def)
  have "ent q = ent (srv_deadlines f)"
    using assms(3)
  proof
    assume "p = Pending"
    with q show ?thesis by (simp add: dq_law_pending[OF laws])
  next
    assume "p = Ready None"
    with q dq_law_none[OF laws, of "srv_deadlines f" now q] show ?thesis by simp
  qed
  with f' assms(1) show ?thesis by (simp add: server_inv_def)
qed

text \<open>The workaround for the delay queue makes the answer exact: \<open>Ready None\<close> says that
  nothing is in flight, and nothing else does.\<close>

lemma srv_poll_expired_none_iff:
  assumes "server_inv dq ent hz f"
  shows "fst (srv_poll_expired dq ab now w f) = Ready None \<longleftrightarrow> server_ids f = {}"
proof -
  have laws: "delay_queue_laws dq ent hz"
    and s: "synced (ent (srv_deadlines f)) sd_deadline_key (srv_request_data f)"
    using assms by (simp_all add: server_inv_def)
  have empty: "dq_is_empty dq (srv_deadlines f) \<longleftrightarrow> server_ids f = {}"
    using dq_law_is_empty[OF laws] synced_no_timers[OF s] by (simp add: server_ids_def)
  show ?thesis
  proof (cases "dq_is_empty dq (srv_deadlines f)")
    case False
    have "fst (dq_poll_expired dq (srv_deadlines f) now) \<noteq> Ready None"
      using dq_law_none[OF laws, of "srv_deadlines f" now] False dq_law_is_empty[OF laws]
      by (cases "dq_poll_expired dq (srv_deadlines f) now") auto
    with False empty show ?thesis
      by (auto simp: srv_poll_expired_def split: prod.splits poll.splits option.splits)
  qed (use empty in \<open>simp add: srv_poll_expired_def\<close>)
qed

interpretation server_remove: in_flight_table
  "server_inv dq ent hz" server_ids server_len
  "\<lambda>i f. obind (srv_remove_request dq f i) (\<lambda>(sp, f'). Return (sp \<noteq> None, f'))"
  "\<lambda>now f. case srv_poll_expired dq ab now w f of (p, f', w') \<Rightarrow> (p, f')"
  for dq ent hz ab w
proof (unfold_locales, goal_cases)
  case (3 f i)
  show ?case
  proof (cases "map_of (srv_request_data f) i")
    case None
    then have "i \<notin> server_ids f" by (simp add: server_ids_def map_of_eq_None_keys)
    with 3 show ?thesis by (simp add: srv_remove_request_absent)
  next
    case (Some rd)
    with srv_remove_request_found[OF 3 Some] show ?thesis
      by (auto simp: server_ids_def map_of_Some_keys)
  qed
next
  case (4 f now i f')
  then show ?case
    using srv_poll_expired_some[of dq ent hz f ab now w i f']
    by (auto simp: server_ids_def map_of_Some_keys split: prod.splits)
next
  case (5 f now p f')
  then show ?case
    using srv_poll_expired_idle[of dq ent hz f ab now w p f']
    by (auto simp: server_ids_def split: prod.splits)
qed (simp_all add: server_len_card)

interpretation server_cancel: in_flight_table
  "server_inv dq ent hz" server_ids server_len
  "\<lambda>i f. obind (srv_cancel_request dq ab w f i) (\<lambda>(found, f', w'). Return (found, f'))"
  "\<lambda>now f. case srv_poll_expired dq ab now w f of (p, f', w') \<Rightarrow> (p, f')"
  for dq ent hz ab w
proof (unfold_locales, goal_cases)
  case (3 f i)
  show ?case
  proof (cases "map_of (srv_request_data f) i")
    case None
    then have "i \<notin> server_ids f" by (simp add: server_ids_def map_of_eq_None_keys)
    with 3 show ?thesis by (simp add: srv_cancel_request_absent)
  next
    case (Some rd)
    with srv_cancel_request_found[OF 3 Some, of ab w] show ?thesis
      by (auto simp: server_ids_def map_of_Some_keys)
  qed
next
  case (4 f now i f')
  then show ?case by (rule server_remove.expire_some)
next
  case (5 f now p f')
  then show ?case by (rule server_remove.expire_idle)
qed (simp_all add: server_len_card)

end
