(* ===== verification/Channel.thy ===== *)
theory Channel
  imports Server_In_Flight
begin

text \<open>
  The trait \<^verbatim>\<open>Channel\<close> of \<^verbatim>\<open>tarpc/src/server.rs\<close> and what its users rely on.  A channel is a
  record of operations on a state \<open>'s\<close>, in which the transport and the other tasks are
  included.  The locale \<open>channel_contract\<close> says how the operations treat the set of tracked
  requests; \<^verbatim>\<open>BaseChannel\<close> provides it (\<open>Base_Channel\<close>), \<^verbatim>\<open>MaxRequests\<close> passes it on
  (\<open>Max_Requests\<close>) and \<^verbatim>\<open>Requests\<close> relies on it (\<open>Requests\<close>).
\<close>

section \<open>Data\<close>

record server_config =
  pending_response_buffer :: nat

definition server_config_default :: server_config where
  "server_config_default = \<lparr>pending_response_buffer = 100\<rparr>"

record response_guard =
  rg_request_id :: u64
  rg_cancel :: bool

text \<open>\<^verbatim>\<open>impl Drop for ResponseGuard\<close>: an armed guard cancels its request.\<close>

definition response_guard_drop :: "('s \<Rightarrow> u64 \<Rightarrow> 's) \<Rightarrow> response_guard \<Rightarrow> 's \<Rightarrow> 's" where
  "response_guard_drop cancel g s = (if rg_cancel g then cancel s (rg_request_id g) else s)"

record 'req tracked_request =
  tk_request :: "'req request"
  tk_abort_registration :: abort_handle
  tk_span :: span
  tk_response_guard :: response_guard

record ('s, 'req, 'resp, 'e) channel =
  ch_config :: "'s \<Rightarrow> server_config"
  ch_in_flight_requests :: "'s \<Rightarrow> nat"
  ch_poll_next :: "'s \<Rightarrow> (('req tracked_request, 'e) result option poll \<times> 's) outcome"
  ch_poll_ready :: "'s \<Rightarrow> (unit, 'e) result poll \<times> 's"
  ch_start_send :: "'s \<Rightarrow> 'resp response \<Rightarrow> ((unit, 'e) result \<times> 's) outcome"
  ch_poll_flush :: "'s \<Rightarrow> (unit, 'e) result poll \<times> 's"
  ch_poll_close :: "'s \<Rightarrow> (unit, 'e) result poll \<times> 's"

section \<open>The contract\<close>

text \<open>\<open>tracks tracked s p s'\<close>: what a poll that answers \<open>p\<close> may do to the tracked requests.\<close>

definition tracks ::
  "('s \<Rightarrow> u64 set) \<Rightarrow> 's \<Rightarrow> ('req tracked_request, 'e) result option poll \<Rightarrow> 's \<Rightarrow> bool" where
  "tracks tracked s p s' \<longleftrightarrow>
     (case p of
        Pending \<Rightarrow> tracked s' \<subseteq> tracked s
      | Ready None \<Rightarrow> tracked s' = {}
      | Ready (Some (Err e)) \<Rightarrow> tracked s' \<subseteq> tracked s
      | Ready (Some (Ok r)) \<Rightarrow>
          id (tk_request r) \<in> tracked s' \<and> tracked s' \<subseteq> insert (id (tk_request r)) (tracked s) \<and>
          tk_response_guard r = \<lparr>rg_request_id = id (tk_request r), rg_cancel = False\<rparr>)"

lemma tracks_simps [simp]:
  "tracks tracked s Pending s' \<longleftrightarrow> tracked s' \<subseteq> tracked s"
  "tracks tracked s (Ready None) s' \<longleftrightarrow> tracked s' = {}"
  "tracks tracked s (Ready (Some (Err e))) s' \<longleftrightarrow> tracked s' \<subseteq> tracked s"
  "tracks tracked s (Ready (Some (Ok r))) s' \<longleftrightarrow>
     id (tk_request r) \<in> tracked s' \<and> tracked s' \<subseteq> insert (id (tk_request r)) (tracked s) \<and>
     tk_response_guard r = \<lparr>rg_request_id = id (tk_request r), rg_cancel = False\<rparr>"
  by (simp_all add: tracks_def)

lemma tracks_after: "tracked s1 \<subseteq> tracked s \<Longrightarrow> tracks tracked s1 p s' \<Longrightarrow> tracks tracked s p s'"
  by (cases p rule: poll_option_result_cases) auto

lemma tracks_comp: "tracks (\<lambda>m. tracked (g m)) m p m' \<longleftrightarrow> tracks tracked (g m) p (g m')"
  by (simp add: tracks_def)

locale channel_contract =
  fixes ch :: "('s, 'req, 'resp, 'e) channel" and inv :: "'s \<Rightarrow> bool" and tracked :: "'s \<Rightarrow> u64 set"
  assumes finite_tracked: "inv s \<Longrightarrow> finite (tracked s)"
    and in_flight_card: "inv s \<Longrightarrow> ch_in_flight_requests ch s = card (tracked s)"
    and poll_next_law: "inv s \<Longrightarrow> holds (ch_poll_next ch s) (\<lambda>(p, s'). inv s' \<and> tracks tracked s p s')"
    and start_send_law: "inv s \<Longrightarrow>
      yields (ch_start_send ch s r) (\<lambda>(res, s'). inv s' \<and> tracked s' = tracked s - {request_id r})"
    and poll_ready_law: "inv s \<Longrightarrow> ch_poll_ready ch s = (x, s') \<Longrightarrow> inv s' \<and> tracked s' = tracked s"
    and poll_flush_law: "inv s \<Longrightarrow> ch_poll_flush ch s = (x, s') \<Longrightarrow> inv s' \<and> tracked s' = tracked s"
    and poll_close_law: "inv s \<Longrightarrow> ch_poll_close ch s = (x, s') \<Longrightarrow> inv s' \<and> tracked s' = tracked s"
begin

text \<open>A poll adds at most one request, and none without handing it out.\<close>

lemma in_flight_poll_next:
  assumes "inv s"
  shows "holds (ch_poll_next ch s) (\<lambda>(p, s'). ch_in_flight_requests ch s' \<le>
    (case p of Ready (Some (Ok _)) \<Rightarrow> Suc (ch_in_flight_requests ch s) | Ready None \<Rightarrow> 0
     | _ \<Rightarrow> ch_in_flight_requests ch s))"
proof (rule holds_pair_mono[OF poll_next_law[OF assms]])
  fix p s' assume "inv s' \<and> tracks tracked s p s'"
  then have inv: "inv s'" and t: "tracks tracked s p s'" by simp_all
  have le: "card (tracked s') \<le> card (tracked s)" if "tracked s' \<subseteq> tracked s"
    using card_mono[OF finite_tracked[OF assms] that] .
  have suc: "card (tracked s') \<le> Suc (card (tracked s))" if "tracked s' \<subseteq> insert i (tracked s)" for i
    using card_mono[OF _ that] finite_tracked[OF assms] card_insert_le_m1[of "Suc (card (tracked s))" "tracked s" i]
    by (fastforce simp: card_insert_if split: if_splits)
  show "ch_in_flight_requests ch s' \<le> (case p of Ready (Some (Ok _)) \<Rightarrow> Suc (ch_in_flight_requests ch s)
      | Ready None \<Rightarrow> 0 | _ \<Rightarrow> ch_in_flight_requests ch s)"
    using t le suc inv assms
    by (cases p rule: poll_option_result_cases) (auto simp: in_flight_card)
qed

lemma in_flight_start_send:
  assumes "inv s"
  shows "yields (ch_start_send ch s r) (\<lambda>(res, s'). ch_in_flight_requests ch s' \<le> ch_in_flight_requests ch s \<and>
    (request_id r \<in> tracked s \<longrightarrow> ch_in_flight_requests ch s' < ch_in_flight_requests ch s))"
proof (rule yields_mono[OF start_send_law[OF assms]], clarify)
  fix res s' assume "inv s'" "tracked s' = tracked s - {request_id r}"
  with assms show "ch_in_flight_requests ch s' \<le> ch_in_flight_requests ch s \<and>
      (request_id r \<in> tracked s \<longrightarrow> ch_in_flight_requests ch s' < ch_in_flight_requests ch s)"
    using card_Diff1_le[of "tracked s" "request_id r"] card_Diff1_less[OF finite_tracked[OF assms]]
    by (simp add: in_flight_card)
qed

lemma guarded_contract: "channel_contract ch (\<lambda>s. inv s \<and> G) tracked"
proof (unfold_locales, goal_cases)
  case (3 s)
  then show ?case using poll_next_law[of s] by (auto elim!: holds_mono)
next
  case (4 s r)
  then show ?case using start_send_law[of s r] by (auto elim!: yields_mono)
next
  case (5 s x s')
  then show ?case using poll_ready_law[of s x s'] by simp
next
  case (6 s x s')
  then show ?case using poll_flush_law[of s x s'] by simp
next
  case (7 s x s')
  then show ?case using poll_close_law[of s x s'] by simp
qed (simp_all add: finite_tracked in_flight_card)

end

end
