(* ===== verification/Base_Channel.thy ===== *)
theory Base_Channel
  imports Channel
begin

text \<open>
  \<^verbatim>\<open>BaseChannel\<close> of \<^verbatim>\<open>tarpc/src/server.rs\<close>: the stream of tracked requests and the sink of
  responses over a transport.  The environment record holds the transport, the receiving end
  of the cancellation channel, the abort handles, the clock and what the code uses of spans.
\<close>

section \<open>State\<close>

record ('w, 'q, 'req, 'resp, 'e) server_env =
  se_transport :: "('w, 'resp response, 'req client_message, 'e) transport"
  se_canceled_poll_recv :: "'w \<Rightarrow> u64 option poll \<times> 'w"
  se_abort :: "'w abort_ops"
  se_now :: "'w \<Rightarrow> instant"
  se_new_span :: "'w \<Rightarrow> otel_span_context \<times> instant \<Rightarrow> span \<times> 'w"
  se_active_span :: "'w \<Rightarrow> span \<Rightarrow> otel_span_context option"
  se_random_span_id :: "'w \<Rightarrow> 64 word \<times> 'w"
  se_delay_queue :: "'q delay_queue"

record ('w, 'q) base_channel =
  b_world :: 'w
  b_in_flight :: "'q server_in_flight"
  b_config :: server_config

definition base_channel_new :: "'q delay_queue \<Rightarrow> server_config \<Rightarrow> 'w \<Rightarrow> ('w, 'q) base_channel" where
  "base_channel_new dq config w =
     \<lparr>b_world = w, b_in_flight = server_in_flight_default dq, b_config = config\<rparr>"

text \<open>\<^verbatim>\<open>Config::channel\<close> and \<^verbatim>\<open>BaseChannel::with_defaults\<close>.\<close>

definition config_channel :: "'q delay_queue \<Rightarrow> server_config \<Rightarrow> 'w \<Rightarrow> ('w, 'q) base_channel" where
  "config_channel dq self w = base_channel_new dq self w"

definition base_channel_with_defaults :: "'q delay_queue \<Rightarrow> 'w \<Rightarrow> ('w, 'q) base_channel" where
  "base_channel_with_defaults dq w = base_channel_new dq server_config_default w"

section \<open>Receiver status\<close>

text \<open>The local enum of \<^verbatim>\<open>poll_next\<close>; its constructors carry a prefix, since \<^verbatim>\<open>Ready\<close> and
  \<^verbatim>\<open>Pending\<close> are those of \<^verbatim>\<open>Poll\<close>.\<close>

datatype receiver_status = ReceiverReady | ReceiverPending | ReceiverClosed

fun combine :: "receiver_status \<Rightarrow> receiver_status \<Rightarrow> receiver_status" where
  "combine ReceiverReady _ = ReceiverReady"
| "combine _ ReceiverReady = ReceiverReady"
| "combine ReceiverClosed ReceiverClosed = ReceiverClosed"
| "combine _ _ = ReceiverPending"

section \<open>Reading requests\<close>

definition base_start_request ::
  "('w, 'q, 'req, 'resp, 'e) server_env \<Rightarrow> ('w, 'q) base_channel \<Rightarrow> 'req request \<Rightarrow>
   (('req tracked_request, server_already_exists_error) result \<times> ('w, 'q) base_channel) outcome" where
  "base_start_request env b r =
     (let (sp, w) = se_new_span env (b_world b) (set_context (request_context r));
          (tc, w) = (case trace_context_try_from (se_active_span env w sp) of
                       Ok c \<Rightarrow> (c, w)
                     | Err _ \<Rightarrow> (let (x, w) = se_random_span_id env w in
                                (new_child x (trace_context (request_context r)), w)));
          r = r\<lparr>request_context := (request_context r)\<lparr>trace_context := tc\<rparr>\<rparr>
      in obind (srv_start_request (se_delay_queue env) (se_abort env) (se_now env w) w (b_in_flight b)
                  (id r) (deadline (request_context r)) sp) (\<lambda>(start, f, w).
           case start of
             Ok abort_registration \<Rightarrow>
               Return (Ok \<lparr>tk_request = r, tk_abort_registration = abort_registration, tk_span = sp,
                           tk_response_guard = \<lparr>rg_request_id = id r, rg_cancel = False\<rparr>\<rparr>,
                       b\<lparr>b_in_flight := f, b_world := w\<rparr>)
           | Err e \<Rightarrow> Return (Err e, b\<lparr>b_in_flight := f, b_world := w\<rparr>)))"

text \<open>The three sources that a turn of \<^verbatim>\<open>poll_next\<close> polls.\<close>

definition base_poll_cancellation ::
  "('w, 'q, 'req, 'resp, 'e) server_env \<Rightarrow> ('w, 'q) base_channel \<Rightarrow>
   (receiver_status \<times> ('w, 'q) base_channel) outcome" where
  "base_poll_cancellation env b =
     (case se_canceled_poll_recv env (b_world b) of
        (Ready (Some i), w) \<Rightarrow>
          obind (srv_remove_request (se_delay_queue env) (b_in_flight b) i) (\<lambda>(sp, f).
            Return (ReceiverReady, b\<lparr>b_in_flight := f, b_world := w\<rparr>))
      | (_, w) \<Rightarrow> Return (ReceiverClosed, b\<lparr>b_world := w\<rparr>))"

definition base_poll_expiration ::
  "('w, 'q, 'req, 'resp, 'e) server_env \<Rightarrow> ('w, 'q) base_channel \<Rightarrow> receiver_status \<times> ('w, 'q) base_channel" where
  "base_poll_expiration env b =
     (let (p, f, w) = srv_poll_expired (se_delay_queue env) (se_abort env) (se_now env (b_world b))
                        (b_world b) (b_in_flight b)
      in (case p of Ready (Some _) \<Rightarrow> ReceiverReady | Ready None \<Rightarrow> ReceiverClosed
          | Pending \<Rightarrow> ReceiverPending,
          b\<lparr>b_in_flight := f, b_world := w\<rparr>))"

datatype ('req, 'e) request_status =
    Status receiver_status
  | Yield "('req tracked_request, 'e channel_error) result"
  | Duplicate

definition base_poll_request ::
  "('w, 'q, 'req, 'resp, 'e) server_env \<Rightarrow> ('w, 'q) base_channel \<Rightarrow>
   (('req, 'e) request_status \<times> ('w, 'q) base_channel) outcome" where
  "base_poll_request env b =
     (case tr_poll_next (se_transport env) (b_world b) of
        (Ready (Some (Err e)), w) \<Rightarrow> Return (Yield (Err (ErrRead e)), b\<lparr>b_world := w\<rparr>)
      | (Ready (Some (Ok (Request r))), w) \<Rightarrow>
          obind (base_start_request env (b\<lparr>b_world := w\<rparr>) r) (\<lambda>(started, b).
            case started of
              Ok tracked \<Rightarrow> Return (Yield (Ok tracked), b)
            | Err _ \<Rightarrow> Return (Duplicate, b))
      | (Ready (Some (Ok (Cancel tc i))), w) \<Rightarrow>
          obind (srv_cancel_request (se_delay_queue env) (se_abort env) w (b_in_flight b) i) (\<lambda>(found, f, w).
            Return (Status ReceiverReady, b\<lparr>b_in_flight := f, b_world := w\<rparr>))
      | (Ready None, w) \<Rightarrow> Return (Status ReceiverClosed, b\<lparr>b_world := w\<rparr>)
      | (Pending, w) \<Rightarrow> Return (Status ReceiverPending, b\<lparr>b_world := w\<rparr>))"

definition base_poll_next_turn ::
  "('w, 'q, 'req, 'resp, 'e) server_env \<Rightarrow> ('w, 'q) base_channel \<Rightarrow>
   (('req tracked_request, 'e channel_error) result option poll control \<times> ('w, 'q) base_channel) outcome" where
  "base_poll_next_turn env b =
     obind (base_poll_cancellation env b) (\<lambda>(cancellation_status, b).
       case base_poll_expiration env b of (expiration_status, b) \<Rightarrow>
         obind (base_poll_request env b) (\<lambda>(request_status, b).
           case request_status of
             Yield r \<Rightarrow> Return (Break (Ready (Some r)), b)
           | Duplicate \<Rightarrow> Return (Continue, b)
           | Status request_status \<Rightarrow>
               (case combine (combine cancellation_status expiration_status) request_status of
                  ReceiverReady \<Rightarrow> Return (Continue, b)
                | ReceiverClosed \<Rightarrow> Return (Break (Ready None), b)
                | ReceiverPending \<Rightarrow> Return (Break Pending, b))))"

definition base_poll_next ::
  "nat \<Rightarrow> ('w, 'q, 'req, 'resp, 'e) server_env \<Rightarrow> ('w, 'q) base_channel \<Rightarrow>
   (('req tracked_request, 'e channel_error) result option poll \<times> ('w, 'q) base_channel) outcome" where
  "base_poll_next n env = loop n (base_poll_next_turn env)"

section \<open>Writing responses\<close>

definition base_poll_ready ::
  "('w, 'q, 'req, 'resp, 'e) server_env \<Rightarrow> ('w, 'q) base_channel \<Rightarrow>
   (unit, 'e channel_error) result poll \<times> ('w, 'q) base_channel" where
  "base_poll_ready env b =
     (let (p, w) = tr_poll_ready (se_transport env) (b_world b) in (poll_map (map_err ErrReady) p, b\<lparr>b_world := w\<rparr>))"

definition base_start_send ::
  "('w, 'q, 'req, 'resp, 'e) server_env \<Rightarrow> ('w, 'q) base_channel \<Rightarrow> 'resp response \<Rightarrow>
   ((unit, 'e channel_error) result \<times> ('w, 'q) base_channel) outcome" where
  "base_start_send env b r =
     obind (srv_remove_request (se_delay_queue env) (b_in_flight b) (request_id r)) (\<lambda>(sp, f).
       case sp of
         Some _ \<Rightarrow>
           (let (res, w) = tr_start_send (se_transport env) (b_world b) r
            in Return (map_err ErrWrite res, b\<lparr>b_in_flight := f, b_world := w\<rparr>))
       | None \<Rightarrow> Return (Ok (), b\<lparr>b_in_flight := f\<rparr>))"

definition base_poll_flush ::
  "('w, 'q, 'req, 'resp, 'e) server_env \<Rightarrow> ('w, 'q) base_channel \<Rightarrow>
   (unit, 'e channel_error) result poll \<times> ('w, 'q) base_channel" where
  "base_poll_flush env b =
     (let (p, w) = tr_poll_flush (se_transport env) (b_world b) in (poll_map (map_err ErrFlush) p, b\<lparr>b_world := w\<rparr>))"

definition base_poll_close ::
  "('w, 'q, 'req, 'resp, 'e) server_env \<Rightarrow> ('w, 'q) base_channel \<Rightarrow>
   (unit, 'e channel_error) result poll \<times> ('w, 'q) base_channel" where
  "base_poll_close env b =
     (let (p, w) = tr_poll_close (se_transport env) (b_world b) in (poll_map (map_err ErrClose) p, b\<lparr>b_world := w\<rparr>))"

text \<open>\<^verbatim>\<open>impl Channel for BaseChannel\<close>.\<close>

definition base_channel_ops ::
  "nat \<Rightarrow> ('w, 'q, 'req, 'resp, 'e) server_env \<Rightarrow> (('w, 'q) base_channel, 'req, 'resp, 'e channel_error) channel" where
  "base_channel_ops n env =
     \<lparr>ch_config = b_config,
      ch_in_flight_requests = (\<lambda>b. server_len (b_in_flight b)),
      ch_poll_next = base_poll_next n env,
      ch_poll_ready = base_poll_ready env,
      ch_start_send = base_start_send env,
      ch_poll_flush = base_poll_flush env,
      ch_poll_close = base_poll_close env\<rparr>"

section \<open>The order of the statuses\<close>

text \<open>A closed source is less alive than a pending one, and that less than a ready one; the
  combined status is the most alive one.\<close>

fun status_rank :: "receiver_status \<Rightarrow> nat" where
  "status_rank ReceiverClosed = 0"
| "status_rank ReceiverPending = 1"
| "status_rank ReceiverReady = 2"

lemma status_rank_inject: "status_rank a = status_rank b \<Longrightarrow> a = b"
  by (cases a; cases b) simp_all

instantiation receiver_status :: linorder
begin

definition less_eq_receiver_status :: "receiver_status \<Rightarrow> receiver_status \<Rightarrow> bool" where
  "less_eq_receiver_status a b \<longleftrightarrow> status_rank a \<le> status_rank b"

definition less_receiver_status :: "receiver_status \<Rightarrow> receiver_status \<Rightarrow> bool" where
  "less_receiver_status a b \<longleftrightarrow> status_rank a < status_rank b"

instance
  by standard (auto simp: less_eq_receiver_status_def less_receiver_status_def dest: status_rank_inject)

end

lemma combine_max: "combine a b = max a b"
  by (cases a; cases b) (simp_all add: max_def less_eq_receiver_status_def)

lemma combine_eq_Ready: "combine a b = ReceiverReady \<longleftrightarrow> a = ReceiverReady \<or> b = ReceiverReady"
  by (cases a; cases b) simp_all

lemma combine_eq_Closed: "combine a b = ReceiverClosed \<longleftrightarrow> a = ReceiverClosed \<and> b = ReceiverClosed"
  by (cases a; cases b) simp_all

section \<open>The environment and the invariant\<close>

inductive server_step :: "('w, 'q, 'req, 'resp, 'e) server_env \<Rightarrow> 'w \<Rightarrow> 'w \<Rightarrow> bool" for env where
  ss_next: "tr_poll_next (se_transport env) w = (x, w') \<Longrightarrow> server_step env w w'"
| ss_ready: "tr_poll_ready (se_transport env) w = (y, w') \<Longrightarrow> server_step env w w'"
| ss_start_send: "tr_start_send (se_transport env) w m = (z, w') \<Longrightarrow> server_step env w w'"
| ss_flush: "tr_poll_flush (se_transport env) w = (y, w') \<Longrightarrow> server_step env w w'"
| ss_close: "tr_poll_close (se_transport env) w = (y, w') \<Longrightarrow> server_step env w w'"
| ss_canceled: "se_canceled_poll_recv env w = (c, w') \<Longrightarrow> server_step env w w'"
| ss_new_pair: "ab_new_pair (se_abort env) w = (h, w') \<Longrightarrow> server_step env w w'"
| ss_abort: "ab_abort (se_abort env) w h = w' \<Longrightarrow> server_step env w w'"
| ss_new_span: "se_new_span env w c = (sp, w') \<Longrightarrow> server_step env w w'"
| ss_random: "se_random_span_id env w = (r, w') \<Longrightarrow> server_step env w w'"

text \<open>What the channel relies on: the clock and the deadlines of the requests that arrive stay
  within what the delay queue accepts.\<close>

definition server_env_laws ::
  "('w, 'q, 'req, 'resp, 'e) server_env \<Rightarrow> ('w \<Rightarrow> bool) \<Rightarrow> instant \<Rightarrow> bool" where
  "server_env_laws env W horizon \<longleftrightarrow>
     (\<forall>w w'. W w \<longrightarrow> server_step env w w' \<longrightarrow> W w') \<and>
     (\<forall>w. W w \<longrightarrow> se_now env w \<le> horizon) \<and>
     (\<forall>w r w'. W w \<longrightarrow> tr_poll_next (se_transport env) w = (Ready (Some (Ok (Request r))), w') \<longrightarrow>
        request_deadline r \<le> horizon)"

lemma server_env_lawsD:
  assumes "server_env_laws env W hz"
  shows "W w \<Longrightarrow> server_step env w w' \<Longrightarrow> W w'" "W w \<Longrightarrow> se_now env w \<le> hz"
    "W w \<Longrightarrow> tr_poll_next (se_transport env) w = (Ready (Some (Ok (Request r))), w') \<Longrightarrow> request_deadline r \<le> hz"
  using assms by (auto simp: server_env_laws_def)

definition base_inv ::
  "('w, 'q, 'req, 'resp, 'e) server_env \<Rightarrow> ('q \<Rightarrow> entries) \<Rightarrow> instant \<Rightarrow> ('w \<Rightarrow> bool) \<Rightarrow>
   ('w, 'q) base_channel \<Rightarrow> bool" where
  "base_inv env ent horizon W b \<longleftrightarrow>
     server_env_laws env W horizon \<and> server_inv (se_delay_queue env) ent horizon (b_in_flight b) \<and> W (b_world b)"

definition base_tracked :: "('w, 'q) base_channel \<Rightarrow> u64 set" where
  "base_tracked b = server_ids (b_in_flight b)"

lemma base_tracked_simps [simp]:
  "base_tracked (b\<lparr>b_world := w\<rparr>) = base_tracked b"
  "base_tracked (b\<lparr>b_in_flight := f\<rparr>) = server_ids f"
  by (simp_all add: base_tracked_def)

lemma base_invD:
  assumes "base_inv env ent hz W b"
  shows "server_env_laws env W hz" "server_inv (se_delay_queue env) ent hz (b_in_flight b)" "W (b_world b)"
  using assms by (simp_all add: base_inv_def)

lemma base_inv_world:
  "base_inv env ent hz W b \<Longrightarrow> server_step env (b_world b) w \<Longrightarrow> base_inv env ent hz W (b\<lparr>b_world := w\<rparr>)"
  by (auto simp: base_inv_def dest: server_env_lawsD)

lemma base_inv_change:
  "base_inv env ent hz W b \<Longrightarrow> W w \<Longrightarrow> server_inv (se_delay_queue env) ent hz f \<Longrightarrow>
   base_inv env ent hz W (b\<lparr>b_in_flight := f, b_world := w\<rparr>)"
  by (simp add: base_inv_def)

lemma base_inv_step: "base_inv env ent hz W b \<Longrightarrow> server_step env (b_world b) w \<Longrightarrow> W w"
  by (auto simp: base_inv_def dest: server_env_lawsD)

lemma base_channel_new_inv:
  "delay_queue_laws (se_delay_queue env) ent hz \<Longrightarrow> server_env_laws env W hz \<Longrightarrow> W w \<Longrightarrow>
   base_inv env ent hz W (base_channel_new (se_delay_queue env) config w) \<and>
   base_tracked (base_channel_new (se_delay_queue env) config w) = {}"
  by (simp add: base_inv_def base_channel_new_def base_tracked_def server_in_flight_default_inv)

section \<open>What the operations do\<close>

lemma base_start_request_law:
  assumes inv: "base_inv env ent hz W b" and r: "request_deadline r \<le> hz"
  shows "yields (base_start_request env b r) (\<lambda>(res, b'). base_inv env ent hz W b' \<and>
    (case res of
       Ok t \<Rightarrow> id r \<notin> base_tracked b \<and> base_tracked b' = insert (id r) (base_tracked b) \<and>
         id (tk_request t) = id r \<and> message (tk_request t) = message r \<and>
         deadline (request_context (tk_request t)) = deadline (request_context r) \<and>
         tk_response_guard t = \<lparr>rg_request_id = id r, rg_cancel = False\<rparr>
     | Err _ \<Rightarrow> id r \<in> base_tracked b \<and> b_in_flight b' = b_in_flight b))"
proof -
  obtain sp w1 where sp: "se_new_span env (b_world b) (set_context (request_context r)) = (sp, w1)" by fastforce
  obtain tc w2 where tc: "(case trace_context_try_from (se_active_span env w1 sp) of Ok c \<Rightarrow> (c, w1)
      | Err _ \<Rightarrow> (let (x, w) = se_random_span_id env w1 in (new_child x (trace_context (request_context r)), w))) = (tc, w2)"
    by fastforce
  have inv1: "base_inv env ent hz W (b\<lparr>b_world := w1\<rparr>)" using base_inv_world[OF inv ss_new_span[OF sp]] .
  have inv2: "base_inv env ent hz W (b\<lparr>b_world := w2\<rparr>)"
    using inv1 base_inv_world[OF inv1, of w2] ss_random[of env w1 _ w2] tc
    by (auto split: result.splits prod.splits)
  note table = base_invD(2)[OF inv]
  show ?thesis
  proof (cases "id r \<in> server_ids (b_in_flight b)")
    case True
    with inv2 sp tc show ?thesis
      by (simp add: base_start_request_def base_tracked_def Let_def srv_start_request_duplicate[OF True])
  next
    case False
    have "max (se_now env w2) (deadline (request_context r)) \<le> hz"
      using server_env_lawsD(2)[OF base_invD(1)[OF inv], of w2] base_invD(3)[OF inv2] r
      by (simp add: request_deadline_def)
    from srv_start_request_new[OF table False this, of "se_abort env" w2 sp]
    obtain h f w3 where start: "srv_start_request (se_delay_queue env) (se_abort env) (se_now env w2) w2 (b_in_flight b)
        (id r) (deadline (request_context r)) sp = Return (Ok h, f, w3)"
      and f: "server_inv (se_delay_queue env) ent hz f" "server_ids f = insert (id r) (server_ids (b_in_flight b))"
      and h: "ab_new_pair (se_abort env) w2 = (h, w3)"
      by (auto simp: yields_def)
    have "base_inv env ent hz W (b\<lparr>b_in_flight := f, b_world := w3\<rparr>)"
      using base_inv_change[OF inv _ f(1), of w3] base_inv_step[OF inv2, of w3] ss_new_pair[OF h] by simp
    with False start sp tc f(2) show ?thesis
      by (simp add: base_start_request_def base_tracked_def Let_def)
  qed
qed

lemma base_poll_cancellation_law:
  assumes inv: "base_inv env ent hz W b"
  shows "yields (base_poll_cancellation env b) (\<lambda>(st, b'). base_inv env ent hz W b' \<and> base_tracked b' \<subseteq> base_tracked b \<and>
    (st \<noteq> ReceiverReady \<longrightarrow> base_tracked b' = base_tracked b))"
proof -
  obtain c w where c: "se_canceled_poll_recv env (b_world b) = (c, w)" by fastforce
  have inv1: "base_inv env ent hz W (b\<lparr>b_world := w\<rparr>)" using base_inv_world[OF inv ss_canceled[OF c]] .
  show ?thesis
  proof (cases c rule: poll_option_cases)
    case (Item i)
    obtain sp f where f: "srv_remove_request (se_delay_queue env) (b_in_flight b) i = Return (sp, f)"
      "server_inv (se_delay_queue env) ent hz f" "server_ids f = server_ids (b_in_flight b) - {i}"
      using srv_remove_request_result[OF base_invD(2)[OF inv], of i] by (auto simp: yields_def server_ids_def)
    from base_inv_change[OF inv base_inv_step[OF inv ss_canceled[OF c]] f(2)] Item c f show ?thesis
      by (auto simp: base_poll_cancellation_def base_tracked_def)
  qed (use inv1 c in \<open>simp_all add: base_poll_cancellation_def\<close>)
qed

lemma base_poll_expiration_law:
  assumes inv: "base_inv env ent hz W b" and e: "base_poll_expiration env b = (st, b')"
  shows "base_inv env ent hz W b' \<and> base_tracked b' \<subseteq> base_tracked b \<and>
    (st = ReceiverClosed \<longleftrightarrow> base_tracked b = {}) \<and> (st \<noteq> ReceiverReady \<longrightarrow> base_tracked b' = base_tracked b)"
proof -
  obtain p f w where p: "srv_poll_expired (se_delay_queue env) (se_abort env) (se_now env (b_world b)) (b_world b)
      (b_in_flight b) = (p, f, w)" by (metis prod_cases3)
  note table = base_invD(2)[OF inv]
  have none: "p = Ready None \<longleftrightarrow> server_ids (b_in_flight b) = {}"
    using srv_poll_expired_none_iff[OF table, of "se_abort env" "se_now env (b_world b)" "b_world b"] p by simp
  show ?thesis
  proof (cases p rule: poll_option_cases)
    case (Item i)
    from srv_poll_expired_some[OF table p[unfolded Item]] obtain rd where rd: "map_of (srv_request_data (b_in_flight b)) i = Some rd"
      "w = ab_abort (se_abort env) (b_world b) (sd_abort_handle rd)"
      "srv_request_data f = AList.delete i (srv_request_data (b_in_flight b))" "server_inv (se_delay_queue env) ent hz f" by blast
    from base_inv_change[OF inv base_inv_step[OF inv ss_abort[OF rd(2)[symmetric]]] rd(4)] rd none Item p e show ?thesis
      by (auto simp: base_poll_expiration_def base_tracked_def server_ids_def)
  qed (use srv_poll_expired_idle[OF table p] base_inv_change[OF inv base_invD(3)[OF inv], of f] none p e in
      \<open>auto simp: base_poll_expiration_def base_tracked_def server_ids_def\<close>)
qed

lemma base_poll_request_law:
  assumes inv: "base_inv env ent hz W b"
  shows "yields (base_poll_request env b) (\<lambda>(st, b'). base_inv env ent hz W b' \<and>
    (case st of
       Yield r \<Rightarrow> tracks base_tracked b (Ready (Some r)) b'
     | Duplicate \<Rightarrow> base_tracked b' = base_tracked b
     | Status s \<Rightarrow> base_tracked b' \<subseteq> base_tracked b \<and> (s \<noteq> ReceiverReady \<longrightarrow> base_tracked b' = base_tracked b)))"
proof -
  obtain p w where p: "tr_poll_next (se_transport env) (b_world b) = (p, w)" by fastforce
  have inv1: "base_inv env ent hz W (b\<lparr>b_world := w\<rparr>)" using base_inv_world[OF inv ss_next[OF p]] .
  show ?thesis
  proof (cases p rule: poll_option_result_cases)
    case (Item m)
    show ?thesis
    proof (cases m)
      case (Request r)
      have "request_deadline r \<le> hz"
        using server_env_lawsD(3)[OF base_invD(1)[OF inv] base_invD(3)[OF inv]] p Item Request by simp
      note start = base_start_request_law[OF inv1 this]
      have "yields (obind (base_start_request env (b\<lparr>b_world := w\<rparr>) r) (\<lambda>(started, b).
            case started of Ok tracked \<Rightarrow> Return (Yield (Ok tracked), b) | Err _ \<Rightarrow> Return (Duplicate, b)))
          (\<lambda>(st, b'). base_inv env ent hz W b' \<and> (case st of
             Yield r \<Rightarrow> tracks base_tracked b (Ready (Some r)) b' | Duplicate \<Rightarrow> base_tracked b' = base_tracked b
           | Status s \<Rightarrow> base_tracked b' \<subseteq> base_tracked b \<and> (s \<noteq> ReceiverReady \<longrightarrow> base_tracked b' = base_tracked b)))"
        by (rule yields_bind_pair[OF start]) (auto simp: base_tracked_def split: result.splits)
      with p Item Request show ?thesis by (simp add: base_poll_request_def)
    next
      case (Cancel tc i)
      obtain found f w' where c: "srv_cancel_request (se_delay_queue env) (se_abort env) w (b_in_flight b) i = Return (found, f, w')"
        and f: "server_inv (se_delay_queue env) ent hz f" "srv_request_data f = AList.delete i (srv_request_data (b_in_flight b))"
        and found: "case map_of (srv_request_data (b_in_flight b)) i of None \<Rightarrow> \<not> found \<and> w' = w
          | Some rd \<Rightarrow> found \<and> w' = ab_abort (se_abort env) w (sd_abort_handle rd)"
        using srv_cancel_request_result[OF base_invD(2)[OF inv], of "se_abort env" w i]
        unfolding yields_def by auto
      have w': "w' = w \<or> (\<exists>h. ab_abort (se_abort env) w h = w')"
        using found by (auto split: option.splits)
      have "W w'" using w' base_inv_step[OF inv1] base_invD(3)[OF inv1] by (auto intro: ss_abort)
      from base_inv_change[OF inv this f(1)] f(2) p Item Cancel c show ?thesis
        by (auto simp: base_poll_request_def base_tracked_def server_ids_def)
    qed
  qed (use p inv1 in \<open>simp_all add: base_poll_request_def\<close>)
qed

lemma base_poll_next_turn_law:
  assumes inv: "base_inv env ent hz W b"
  shows "yields (base_poll_next_turn env b) (\<lambda>(c, b'). base_inv env ent hz W b' \<and>
    (case c of Continue \<Rightarrow> base_tracked b' \<subseteq> base_tracked b | Break p \<Rightarrow> tracks base_tracked b p b'))"
  unfolding base_poll_next_turn_def
proof (rule yields_bind_pair[OF base_poll_cancellation_law[OF inv]], goal_cases)
  case (1 s1 b1)
  then have inv1: "base_inv env ent hz W b1" and t1: "base_tracked b1 \<subseteq> base_tracked b" by simp_all
  obtain s2 b2 where s2: "base_poll_expiration env b1 = (s2, b2)" by fastforce
  note e = base_poll_expiration_law[OF inv1 s2]
  then have inv2: "base_inv env ent hz W b2" by simp
  have "yields (obind (base_poll_request env b2) (\<lambda>(request_status, b).
      case request_status of Yield r \<Rightarrow> Return (Break (Ready (Some r)), b) | Duplicate \<Rightarrow> Return (Continue, b)
      | Status request_status \<Rightarrow>
          (case combine (combine s1 s2) request_status of
             ReceiverReady \<Rightarrow> Return (Continue, b) | ReceiverClosed \<Rightarrow> Return (Break (Ready None), b)
           | ReceiverPending \<Rightarrow> Return (Break Pending, b))))
     (\<lambda>(c, b'). base_inv env ent hz W b' \<and>
        (case c of Continue \<Rightarrow> base_tracked b' \<subseteq> base_tracked b | Break p \<Rightarrow> tracks base_tracked b p b'))"
  proof (rule yields_bind_pair[OF base_poll_request_law[OF inv2]], goal_cases)
    case (1 s3 b3)
    show ?case
    proof (cases s3)
      case (Status s)
      have sub: "base_tracked b3 \<subseteq> base_tracked b" using 1 e t1 Status by auto
      have "base_tracked b3 = {}" if "combine (combine s1 s2) s = ReceiverClosed"
        using that 1 e Status by (simp add: combine_eq_Closed)
      with sub 1 Status show ?thesis
        by (cases "combine (combine s1 s2) s") simp_all
    next
      case (Yield r)
      have "tracks base_tracked b (Ready (Some r)) b3"
        by (rule tracks_after[of base_tracked b2]) (use 1 e t1 Yield in auto)
      with 1 Yield show ?thesis by simp
    qed (use 1 e t1 in auto)
  qed
  with s2 show ?case by simp
qed

lemma base_poll_next_law:
  assumes inv: "base_inv env ent hz W b"
  shows "holds (base_poll_next n env b) (\<lambda>(p, b'). base_inv env ent hz W b' \<and> tracks base_tracked b p b')"
  unfolding base_poll_next_def
proof (rule loop_holds[where I = "\<lambda>b'. base_inv env ent hz W b' \<and> base_tracked b' \<subseteq> base_tracked b"], goal_cases)
  case (2 b1)
  show ?case
  proof (rule yields_imp_holds, rule yields_mono[OF base_poll_next_turn_law[of env ent hz W b1]], goal_cases)
    case (2 x)
    then show ?case
      using \<open>base_inv env ent hz W b1 \<and> base_tracked b1 \<subseteq> base_tracked b\<close> tracks_after[of base_tracked b1 b]
      by (auto split: control.splits)
  qed (use 2 in simp)
qed (use inv in simp)

lemma base_start_send_law:
  assumes inv: "base_inv env ent hz W b"
  shows "yields (base_start_send env b r) (\<lambda>(res, b'). base_inv env ent hz W b' \<and>
    base_tracked b' = base_tracked b - {request_id r})"
proof -
  obtain sp f where f: "srv_remove_request (se_delay_queue env) (b_in_flight b) (request_id r) = Return (sp, f)"
    "server_inv (se_delay_queue env) ent hz f" "server_ids f = server_ids (b_in_flight b) - {request_id r}"
    using srv_remove_request_result[OF base_invD(2)[OF inv], of "request_id r"]
    by (auto simp: yields_def server_ids_def)
  obtain res w where s: "tr_start_send (se_transport env) (b_world b) r = (res, w)" by fastforce
  from base_inv_change[OF inv base_inv_step[OF inv ss_start_send[OF s]] f(2)]
    base_inv_change[OF inv base_invD(3)[OF inv] f(2)] f s show ?thesis
    by (cases sp) (simp_all add: base_start_send_def base_tracked_def)
qed

text \<open>\<^verbatim>\<open>BaseChannel\<close> provides the contract.\<close>

interpretation base: channel_contract "base_channel_ops n env" "base_inv env ent hz W" base_tracked
  for n env ent hz W
proof (unfold_locales, goal_cases)
  case (2 b)
  then show ?case using server_len_card[OF base_invD(2)[OF 2]] by (simp add: base_channel_ops_def base_tracked_def)
next
  case (3 b)
  then show ?case using base_poll_next_law[of env ent hz W b n] by (simp add: base_channel_ops_def)
next
  case (4 b r)
  then show ?case using base_start_send_law[of env ent hz W b r] by (simp add: base_channel_ops_def)
next
  case (5 b x b')
  then show ?case
    by (auto simp: base_channel_ops_def base_poll_ready_def split: prod.splits intro: base_inv_world ss_ready)
next
  case (6 b x b')
  then show ?case
    by (auto simp: base_channel_ops_def base_poll_flush_def split: prod.splits intro: base_inv_world ss_flush)
next
  case (7 b x b')
  then show ?case
    by (auto simp: base_channel_ops_def base_poll_close_def split: prod.splits intro: base_inv_world ss_close)
qed (simp add: base_tracked_def)

end
