(* ===== verification/Max_Requests.thy ===== *)
theory Max_Requests
  imports Base_Channel
begin

text \<open>
  \<^verbatim>\<open>tarpc/src/server/limits/requests_per_channel.rs\<close>: a channel that answers the requests
  over a limit itself, with the error \<^verbatim>\<open>WouldBlock\<close>.
\<close>

section \<open>Operations\<close>

record 's max_requests =
  mr_max_in_flight_requests :: nat
  mr_inner :: 's

definition max_requests_new :: "'s \<Rightarrow> nat \<Rightarrow> 's max_requests" where
  "max_requests_new inner n = \<lparr>mr_max_in_flight_requests = n, mr_inner = inner\<rparr>"

definition throttle_response :: "'req tracked_request \<Rightarrow> 'resp response" where
  "throttle_response r =
     \<lparr>request_id = id (tk_request r),
      response_message = Err \<lparr>kind = WouldBlock, detail = ''server throttled the request.''\<rparr>\<rparr>"

definition max_requests_turn ::
  "('s, 'req, 'resp, 'e) channel \<Rightarrow> 's max_requests \<Rightarrow>
   (('req tracked_request, 'e) result option poll control \<times> 's max_requests) outcome" where
  "max_requests_turn ch m =
     (if ch_in_flight_requests ch (mr_inner m) \<ge> mr_max_in_flight_requests m then
        (case ch_poll_ready ch (mr_inner m) of
           (Pending, s) \<Rightarrow> Return (Break Pending, m\<lparr>mr_inner := s\<rparr>)
         | (Ready (Err e), s) \<Rightarrow> Return (Break (Ready (Some (Err e))), m\<lparr>mr_inner := s\<rparr>)
         | (Ready (Ok _), s) \<Rightarrow>
             obind (ch_poll_next ch s) (\<lambda>(p, s).
               case p of
                 Pending \<Rightarrow> Return (Break Pending, m\<lparr>mr_inner := s\<rparr>)
               | Ready (Some (Err e)) \<Rightarrow> Return (Break (Ready (Some (Err e))), m\<lparr>mr_inner := s\<rparr>)
               | Ready None \<Rightarrow> Return (Break (Ready None), m\<lparr>mr_inner := s\<rparr>)
               | Ready (Some (Ok r)) \<Rightarrow>
                   obind (ch_start_send ch s (throttle_response r)) (\<lambda>(res, s).
                     case res of
                       Err e \<Rightarrow> Return (Break (Ready (Some (Err e))), m\<lparr>mr_inner := s\<rparr>)
                     | Ok _ \<Rightarrow> Return (Continue, m\<lparr>mr_inner := s\<rparr>))))
      else obind (ch_poll_next ch (mr_inner m)) (\<lambda>(p, s). Return (Break p, m\<lparr>mr_inner := s\<rparr>)))"

definition max_requests_poll_next ::
  "nat \<Rightarrow> ('s, 'req, 'resp, 'e) channel \<Rightarrow> 's max_requests \<Rightarrow>
   (('req tracked_request, 'e) result option poll \<times> 's max_requests) outcome" where
  "max_requests_poll_next n ch = loop n (max_requests_turn ch)"

text \<open>The sink and the \<^verbatim>\<open>Channel\<close> instance pass everything on.\<close>

definition max_requests_ops ::
  "nat \<Rightarrow> ('s, 'req, 'resp, 'e) channel \<Rightarrow> ('s max_requests, 'req, 'resp, 'e) channel" where
  "max_requests_ops n ch =
     \<lparr>ch_config = (\<lambda>m. ch_config ch (mr_inner m)),
      ch_in_flight_requests = (\<lambda>m. ch_in_flight_requests ch (mr_inner m)),
      ch_poll_next = max_requests_poll_next n ch,
      ch_poll_ready = (\<lambda>m. let (p, s) = ch_poll_ready ch (mr_inner m) in (p, m\<lparr>mr_inner := s\<rparr>)),
      ch_start_send = (\<lambda>m r. obind (ch_start_send ch (mr_inner m) r) (\<lambda>(res, s). Return (res, m\<lparr>mr_inner := s\<rparr>))),
      ch_poll_flush = (\<lambda>m. let (p, s) = ch_poll_flush ch (mr_inner m) in (p, m\<lparr>mr_inner := s\<rparr>)),
      ch_poll_close = (\<lambda>m. let (p, s) = ch_poll_close ch (mr_inner m) in (p, m\<lparr>mr_inner := s\<rparr>))\<rparr>"

text \<open>\<^verbatim>\<open>MaxRequestsPerChannel\<close>: the listener wraps every channel that comes in.\<close>

definition max_requests_per_channel_poll_next ::
  "('l \<Rightarrow> 's option poll \<times> 'l) \<Rightarrow> nat \<Rightarrow> 'l \<Rightarrow> 's max_requests option poll \<times> 'l" where
  "max_requests_per_channel_poll_next inner_poll_next limit l =
     (case inner_poll_next l of
        (Pending, l) \<Rightarrow> (Pending, l)
      | (Ready (Some channel), l) \<Rightarrow> (Ready (Some (max_requests_new channel limit)), l)
      | (Ready None, l) \<Rightarrow> (Ready None, l))"

section \<open>The limit\<close>

text \<open>A request is handed out within the limit, and otherwise a poll does not add to what is
  in flight beyond it.\<close>

definition within_limit ::
  "('s, 'req, 'resp, 'e) channel \<Rightarrow> 's max_requests \<Rightarrow> ('req tracked_request, 'e) result option poll \<Rightarrow>
   's max_requests \<Rightarrow> bool" where
  "within_limit ch m p m' \<longleftrightarrow>
     mr_max_in_flight_requests m' = mr_max_in_flight_requests m \<and>
     ch_in_flight_requests ch (mr_inner m') \<le>
       (if \<exists>r. p = Ready (Some (Ok r)) then mr_max_in_flight_requests m
        else max (ch_in_flight_requests ch (mr_inner m)) (mr_max_in_flight_requests m))"

context channel_contract
begin

lemma throttled_turn:
  assumes inv: "inv (mr_inner m)" and full: "ch_in_flight_requests ch (mr_inner m) \<ge> mr_max_in_flight_requests m"
  shows "holds (max_requests_turn ch m) (\<lambda>(c, m'). inv (mr_inner m') \<and>
    mr_max_in_flight_requests m' = mr_max_in_flight_requests m \<and>
    (case c of Continue \<Rightarrow> tracked (mr_inner m') \<subseteq> tracked (mr_inner m)
     | Break p \<Rightarrow> tracks (\<lambda>m. tracked (mr_inner m)) m p m' \<and> (\<forall>r. p \<noteq> Ready (Some (Ok r)))))"
proof -
  obtain x s where x: "ch_poll_ready ch (mr_inner m) = (x, s)" by fastforce
  have s: "inv s" "tracked s = tracked (mr_inner m)" using poll_ready_law[OF inv x] by simp_all
  have next_item: "holds (obind (ch_start_send ch s1 (throttle_response r)) (\<lambda>(res, s). case res of
        Err e \<Rightarrow> Return (Break (Ready (Some (Err e))), m\<lparr>mr_inner := s\<rparr>) | Ok _ \<Rightarrow> Return (Continue, m\<lparr>mr_inner := s\<rparr>)))
      (\<lambda>(c, m'). inv (mr_inner m') \<and> mr_max_in_flight_requests m' = mr_max_in_flight_requests m \<and>
        (case c of Continue \<Rightarrow> tracked (mr_inner m') \<subseteq> tracked (mr_inner m)
         | Break p \<Rightarrow> tracks (\<lambda>m. tracked (mr_inner m)) m p m' \<and> (\<forall>r. p \<noteq> Ready (Some (Ok r)))))"
    if "inv s1" "tracked s1 \<subseteq> insert (id (tk_request r)) (tracked (mr_inner m))" for s1 r
    by (rule holds_bind_pair[OF yields_imp_holds[OF start_send_law[OF that(1)]]])
      (use that(2) in \<open>auto simp: throttle_response_def split: result.splits\<close>)
  have "holds (obind (ch_poll_next ch s) (\<lambda>(p, s). case p of
          Pending \<Rightarrow> Return (Break Pending, m\<lparr>mr_inner := s\<rparr>)
        | Ready (Some (Err e)) \<Rightarrow> Return (Break (Ready (Some (Err e))), m\<lparr>mr_inner := s\<rparr>)
        | Ready None \<Rightarrow> Return (Break (Ready None), m\<lparr>mr_inner := s\<rparr>)
        | Ready (Some (Ok r)) \<Rightarrow>
            obind (ch_start_send ch s (throttle_response r)) (\<lambda>(res, s). case res of
              Err e \<Rightarrow> Return (Break (Ready (Some (Err e))), m\<lparr>mr_inner := s\<rparr>) | Ok _ \<Rightarrow> Return (Continue, m\<lparr>mr_inner := s\<rparr>))))
      (\<lambda>(c, m'). inv (mr_inner m') \<and> mr_max_in_flight_requests m' = mr_max_in_flight_requests m \<and>
        (case c of Continue \<Rightarrow> tracked (mr_inner m') \<subseteq> tracked (mr_inner m)
         | Break p \<Rightarrow> tracks (\<lambda>m. tracked (mr_inner m)) m p m' \<and> (\<forall>r. p \<noteq> Ready (Some (Ok r)))))"
  proof (rule holds_bind_pair[OF poll_next_law[OF s(1)]], goal_cases)
    case (1 p s1)
    then show ?case
      using next_item[of s1] s(2)
      by (cases p rule: poll_option_result_cases; simp only: prod.case poll.case option.case result.case)
        (auto simp del: holds_obind)
  qed
  with full x s show ?thesis
    unfolding max_requests_turn_def by (cases x rule: poll_result_cases) auto
qed

lemma admitting_turn:
  assumes inv: "inv (mr_inner m)" and room: "\<not> ch_in_flight_requests ch (mr_inner m) \<ge> mr_max_in_flight_requests m"
  shows "holds (max_requests_turn ch m) (\<lambda>(c, m'). inv (mr_inner m') \<and>
    mr_max_in_flight_requests m' = mr_max_in_flight_requests m \<and>
    (case c of Continue \<Rightarrow> False
     | Break p \<Rightarrow> tracks (\<lambda>m. tracked (mr_inner m)) m p m' \<and>
         ch_in_flight_requests ch (mr_inner m') \<le> mr_max_in_flight_requests m))"
proof -
  have "holds (ch_poll_next ch (mr_inner m)) (\<lambda>(p, s). inv s \<and> tracks tracked (mr_inner m) p s \<and>
      ch_in_flight_requests ch s \<le> mr_max_in_flight_requests m)"
    using holds_conj[OF poll_next_law[OF inv] in_flight_poll_next[OF inv]] room
    by (elim holds_mono) (auto split: poll.splits option.splits result.splits)
  then show ?thesis
    unfolding max_requests_turn_def if_not_P[OF room]
    by (rule holds_bind_pair) (auto simp: tracks_comp)
qed

lemma full_in_flight:
  "inv s' \<Longrightarrow> inv s \<Longrightarrow> tracked s' \<subseteq> tracked s \<Longrightarrow> ch_in_flight_requests ch s' \<le> ch_in_flight_requests ch s"
  using card_mono[OF finite_tracked] by (simp add: in_flight_card)

text \<open>The contract of the wrapped channel holds of the limited one, which never hands out a
  request beyond its limit.\<close>

lemma max_requests_poll_next_law:
  assumes "inv (mr_inner m)"
  shows "holds (max_requests_poll_next n ch m) (\<lambda>(p, m'). inv (mr_inner m') \<and>
    tracks (\<lambda>m. tracked (mr_inner m)) m p m' \<and> within_limit ch m p m')"
  unfolding max_requests_poll_next_def
proof (rule loop_holds[where I = "\<lambda>m'. inv (mr_inner m') \<and> tracked (mr_inner m') \<subseteq> tracked (mr_inner m) \<and>
      mr_max_in_flight_requests m' = mr_max_in_flight_requests m"], goal_cases)
  case (2 m1)
  then have m1: "inv (mr_inner m1)" "tracked (mr_inner m1) \<subseteq> tracked (mr_inner m)"
    "mr_max_in_flight_requests m1 = mr_max_in_flight_requests m" by simp_all
  note le1 = full_in_flight[OF m1(1) assms m1(2)]
  have after: "tracks (\<lambda>m. tracked (mr_inner m)) m1 p m2 \<Longrightarrow> tracks (\<lambda>m. tracked (mr_inner m)) m p m2" for p m2
    using tracks_after[of tracked "mr_inner m1" "mr_inner m"] m1(2) by (simp add: tracks_comp)
  show ?case
  proof (cases "ch_in_flight_requests ch (mr_inner m1) \<ge> mr_max_in_flight_requests m1")
    case True
    show ?thesis
    proof (rule holds_mono[OF throttled_turn[OF m1(1) True]], goal_cases)
      case (1 x)
      obtain c m2 where x: "x = (c, m2)" by (cases x)
      show ?case
      proof (cases c)
        case (Break p)
        then have "tracked (mr_inner m2) \<subseteq> tracked (mr_inner m1)"
          using 1 x by (cases p rule: poll_option_result_cases) auto
        with 1 x Break m1 full_in_flight[of "mr_inner m2" "mr_inner m1"] le1 show ?thesis
          by (auto simp: within_limit_def after)
      qed (use 1 x m1 in auto)
    qed
  next
    case False
    show ?thesis
    proof (rule holds_mono[OF admitting_turn[OF m1(1) False]], goal_cases)
      case (1 x)
      then show ?case using m1(3) by (cases x; cases "fst x") (auto simp: within_limit_def after)
    qed
  qed
qed (use assms in simp)

lemma limited_contract:
  "channel_contract (max_requests_ops n ch) (\<lambda>m. inv (mr_inner m)) (\<lambda>m. tracked (mr_inner m))"
proof (unfold_locales, goal_cases)
  case (3 m)
  show ?case
    using max_requests_poll_next_law[OF 3, of n] unfolding max_requests_ops_def
    by (simp only: channel.simps) (elim holds_mono, auto)
next
  case (4 m r)
  show ?case
    unfolding max_requests_ops_def channel.simps
    by (rule yields_bind_pair[OF start_send_law[OF 4, of r]]) simp
next
  case (5 m x m')
  obtain y s where y: "ch_poll_ready ch (mr_inner m) = (y, s)" by fastforce
  with 5(2) have "m' = m\<lparr>mr_inner := s\<rparr>" by (simp add: max_requests_ops_def)
  with poll_ready_law[OF 5(1) y] show ?case by simp
next
  case (6 m x m')
  obtain y s where y: "ch_poll_flush ch (mr_inner m) = (y, s)" by fastforce
  with 6(2) have "m' = m\<lparr>mr_inner := s\<rparr>" by (simp add: max_requests_ops_def)
  with poll_flush_law[OF 6(1) y] show ?case by simp
next
  case (7 m x m')
  obtain y s where y: "ch_poll_close ch (mr_inner m) = (y, s)" by fastforce
  with 7(2) have "m' = m\<lparr>mr_inner := s\<rparr>" by (simp add: max_requests_ops_def)
  with poll_close_law[OF 7(1) y] show ?case by simp
qed (simp_all add: max_requests_ops_def finite_tracked in_flight_card)

end

interpretation limited_base: channel_contract
  "max_requests_ops k (base_channel_ops n env)" "\<lambda>m. base_inv env ent hz W (mr_inner m)" "\<lambda>m. base_tracked (mr_inner m)"
  for k n env ent hz W
  by (rule base.limited_contract)

end
