(* ===== verification/Requests.thy ===== *)
theory Requests
  imports Max_Requests
begin

text \<open>
  \<^verbatim>\<open>Requests\<close> and \<^verbatim>\<open>InFlightRequest\<close> of \<^verbatim>\<open>tarpc/src/server.rs\<close>: the stream of requests with
  handlers over any \<^verbatim>\<open>Channel\<close>, and the execution of a handler.  \<open>recv\<close> is \<^verbatim>\<open>poll_recv\<close> on
  the channel of pending responses, which is part of the state \<open>'s\<close> like the transport.
\<close>

section \<open>The stream of requests\<close>

record 'req in_flight_request =
  if_request :: "'req request"
  if_abort_registration :: abort_handle
  if_span :: span
  if_response_guard :: response_guard

text \<open>\<^verbatim>\<open>Channel::requests\<close>: \<open>mpsc_channel\<close> panics (\<open>None\<close>) on a buffer of size zero.\<close>

definition channel_requests ::
  "(nat \<Rightarrow> 's \<Rightarrow> 's option) \<Rightarrow> ('s, 'req, 'resp, 'e) channel \<Rightarrow> 's \<Rightarrow> 's outcome" where
  "channel_requests mpsc_channel ch s = or_panic (mpsc_channel (pending_response_buffer (ch_config ch s)) s)"

definition begin_request :: "'req tracked_request \<Rightarrow> 'req in_flight_request" where
  "begin_request t =
     \<lparr>if_request = tk_request t, if_abort_registration = tk_abort_registration t, if_span = tk_span t,
      if_response_guard = (tk_response_guard t)\<lparr>rg_cancel := True\<rparr>\<rparr>"

definition requests_pump_read ::
  "('s, 'req, 'resp, 'e) channel \<Rightarrow> 's \<Rightarrow> (('req in_flight_request, 'e) result option poll \<times> 's) outcome" where
  "requests_pump_read ch s =
     obind (ch_poll_next ch s) (\<lambda>(p, s). Return (poll_map (map_option (result_map begin_request)) p, s))"

definition requests_ensure_writeable_turn ::
  "('s, 'req, 'resp, 'e) channel \<Rightarrow> 's \<Rightarrow> ((unit, 'e) result option poll control \<times> 's) outcome" where
  "requests_ensure_writeable_turn ch s =
     (case ch_poll_ready ch s of
        (Ready (Err e), s) \<Rightarrow> Return (Break (Ready (Some (Err e))), s)
      | (Ready (Ok _), s) \<Rightarrow> Return (Break (Ready (Some (Ok ()))), s)
      | (Pending, s) \<Rightarrow>
          (case ch_poll_flush ch s of
             (Ready (Err e), s) \<Rightarrow> Return (Break (Ready (Some (Err e))), s)
           | (Pending, s) \<Rightarrow> Return (Break Pending, s)
           | (Ready (Ok _), s) \<Rightarrow> Return (Continue, s)))"

definition requests_ensure_writeable ::
  "nat \<Rightarrow> ('s, 'req, 'resp, 'e) channel \<Rightarrow> 's \<Rightarrow> ((unit, 'e) result option poll \<times> 's) outcome" where
  "requests_ensure_writeable n ch = loop n (requests_ensure_writeable_turn ch)"

definition poll_next_response ::
  "nat \<Rightarrow> ('s, 'req, 'resp, 'e) channel \<Rightarrow> ('s \<Rightarrow> 'resp response option poll \<times> 's) \<Rightarrow> 's \<Rightarrow>
   (('resp response, 'e) result option poll \<times> 's) outcome" where
  "poll_next_response n ch recv s =
     obind (requests_ensure_writeable n ch s) (\<lambda>(p, s).
       case p of
         Pending \<Rightarrow> Return (Pending, s)
       | Ready (Some (Err e)) \<Rightarrow> Return (Ready (Some (Err e)), s)
       | Ready _ \<Rightarrow>
           (case recv s of
              (Pending, s) \<Rightarrow> Return (Pending, s)
            | (Ready (Some r), s) \<Rightarrow> Return (Ready (Some (Ok r)), s)
            | (Ready None, s) \<Rightarrow> Return (Ready None, s)))"

definition requests_pump_write ::
  "nat \<Rightarrow> ('s, 'req, 'resp, 'e) channel \<Rightarrow> ('s \<Rightarrow> 'resp response option poll \<times> 's) \<Rightarrow> bool \<Rightarrow> 's \<Rightarrow>
   ((unit, 'e) result option poll \<times> 's) outcome" where
  "requests_pump_write n ch recv read_half_closed s =
     obind (poll_next_response n ch recv s) (\<lambda>(p, s).
       case p of
         Ready (Some (Err e)) \<Rightarrow> Return (Ready (Some (Err e)), s)
       | Ready (Some (Ok response)) \<Rightarrow>
           obind (ch_start_send ch s response) (\<lambda>(res, s).
             case res of
               Err e \<Rightarrow> Return (Ready (Some (Err e)), s)
             | Ok _ \<Rightarrow> Return (Ready (Some (Ok ())), s))
       | Ready None \<Rightarrow>
           (case ch_poll_flush ch s of
              (Ready (Err e), s) \<Rightarrow> Return (Ready (Some (Err e)), s)
            | (Pending, s) \<Rightarrow> Return (Pending, s)
            | (Ready (Ok _), s) \<Rightarrow> Return (Ready None, s))
       | Pending \<Rightarrow>
           (case ch_poll_flush ch s of
              (Ready (Err e), s) \<Rightarrow> Return (Ready (Some (Err e)), s)
            | (Pending, s) \<Rightarrow> Return (Pending, s)
            | (Ready (Ok _), s) \<Rightarrow>
                if read_half_closed \<and> ch_in_flight_requests ch s = 0 then Return (Ready None, s)
                else Return (Pending, s)))"

text \<open>The \<^verbatim>\<open>match\<close> of \<^verbatim>\<open>poll_next\<close> on what was read and written.\<close>

fun requests_verdict ::
  "('a, 'e) result option poll \<Rightarrow> ('b, 'e) result option poll \<Rightarrow> ('a, 'e) result option poll control" where
  "requests_verdict (Ready None) (Ready None) = Break (Ready None)"
| "requests_verdict (Ready (Some r)) _ = Break (Ready (Some r))"
| "requests_verdict _ (Ready (Some _)) = Continue"
| "requests_verdict _ _ = Break Pending"

text \<open>A request that was read is dropped, with its armed guard, when the write fails.\<close>

definition drop_read ::
  "('s \<Rightarrow> u64 \<Rightarrow> 's) \<Rightarrow> ('req in_flight_request, 'e) result option poll \<Rightarrow> 's \<Rightarrow> 's" where
  "drop_read cancel r s =
     (case r of Ready (Some (Ok q)) \<Rightarrow> response_guard_drop cancel (if_response_guard q) s | _ \<Rightarrow> s)"

definition requests_poll_next_turn ::
  "nat \<Rightarrow> ('s, 'req, 'resp, 'e) channel \<Rightarrow> ('s \<Rightarrow> 'resp response option poll \<times> 's) \<Rightarrow> ('s \<Rightarrow> u64 \<Rightarrow> 's) \<Rightarrow> 's \<Rightarrow>
   (('req in_flight_request, 'e) result option poll control \<times> 's) outcome" where
  "requests_poll_next_turn n ch recv cancel s =
     obind (requests_pump_read ch s) (\<lambda>(r, s).
       case r of
         Ready (Some (Err e)) \<Rightarrow> Return (Break (Ready (Some (Err e))), s)
       | _ \<Rightarrow>
         obind (requests_pump_write n ch recv (r = Ready None) s) (\<lambda>(w, s).
           case w of
             Ready (Some (Err e)) \<Rightarrow> Return (Break (Ready (Some (Err e))), drop_read cancel r s)
           | _ \<Rightarrow> Return (requests_verdict r w, s)))"

definition requests_poll_next ::
  "nat \<Rightarrow> ('s, 'req, 'resp, 'e) channel \<Rightarrow> ('s \<Rightarrow> 'resp response option poll \<times> 's) \<Rightarrow> ('s \<Rightarrow> u64 \<Rightarrow> 's) \<Rightarrow> 's \<Rightarrow>
   (('req in_flight_request, 'e) result option poll \<times> 's) outcome" where
  "requests_poll_next n ch recv cancel = loop n (requests_poll_next_turn n ch recv cancel)"

text \<open>\<^verbatim>\<open>Requests::execute\<close>: the stream is cut at the first error and every request is paired with the
  service function.  The flag is that of \<^verbatim>\<open>take_while\<close>.\<close>

definition requests_execute_poll_next ::
  "nat \<Rightarrow> ('s, 'req, 'resp, 'e) channel \<Rightarrow> ('s \<Rightarrow> 'resp response option poll \<times> 's) \<Rightarrow> ('s \<Rightarrow> u64 \<Rightarrow> 's) \<Rightarrow> 'serve \<Rightarrow>
   bool \<times> 's \<Rightarrow> (('req in_flight_request \<times> 'serve) option poll \<times> bool \<times> 's) outcome" where
  "requests_execute_poll_next n ch recv cancel serve = (\<lambda>(done_taking, s).
     if done_taking then Return (Ready None, True, s)
     else obind (requests_poll_next n ch recv cancel s) (\<lambda>(p, s).
       case p of
         Pending \<Rightarrow> Return (Pending, False, s)
       | Ready None \<Rightarrow> Return (Ready None, False, s)
       | Ready (Some (Err e)) \<Rightarrow> Return (Ready None, True, s)
       | Ready (Some (Ok r)) \<Rightarrow> Return (Ready (Some (r, serve)), False, s)))"

section \<open>The contract of the stream\<close>

text \<open>What a poll may do to the tracked requests.  A request that is handed out has an active
  guard for its id; the stream ends when nothing is tracked.  When a write fails after a
  request was read, that request is dropped with its guard.\<close>

definition hands_out ::
  "('s \<Rightarrow> u64 set) \<Rightarrow> 's \<Rightarrow> ('req in_flight_request, 'e) result option poll \<Rightarrow> 's \<Rightarrow> bool" where
  "hands_out tracked s p s' \<longleftrightarrow>
     (case p of
        Pending \<Rightarrow> tracked s' \<subseteq> tracked s
      | Ready None \<Rightarrow> tracked s' = {}
      | Ready (Some (Err e)) \<Rightarrow> (\<exists>i. tracked s' \<subseteq> insert i (tracked s))
      | Ready (Some (Ok r)) \<Rightarrow>
          tracked s' \<subseteq> insert (id (if_request r)) (tracked s) \<and>
          if_response_guard r = \<lparr>rg_request_id = id (if_request r), rg_cancel = True\<rparr>)"

lemma hands_out_simps [simp]:
  "hands_out tracked s Pending s' \<longleftrightarrow> tracked s' \<subseteq> tracked s"
  "hands_out tracked s (Ready None) s' \<longleftrightarrow> tracked s' = {}"
  "hands_out tracked s (Ready (Some (Err e))) s' \<longleftrightarrow> (\<exists>i. tracked s' \<subseteq> insert i (tracked s))"
  "hands_out tracked s (Ready (Some (Ok r))) s' \<longleftrightarrow> tracked s' \<subseteq> insert (id (if_request r)) (tracked s) \<and>
     if_response_guard r = \<lparr>rg_request_id = id (if_request r), rg_cancel = True\<rparr>"
  by (simp_all add: hands_out_def)

lemma hands_out_shrink: "hands_out tracked s p s' \<Longrightarrow> tracked s'' \<subseteq> tracked s' \<Longrightarrow> hands_out tracked s p s''"
  by (cases p rule: poll_option_result_cases) auto

lemma hands_out_after: "tracked s1 \<subseteq> tracked s \<Longrightarrow> hands_out tracked s1 p s' \<Longrightarrow> hands_out tracked s p s'"
  by (cases p rule: poll_option_result_cases) auto

text \<open>A response to the request \<open>i\<close> can be received in some state of the invariant.\<close>

definition receivable ::
  "('s \<Rightarrow> bool) \<Rightarrow> ('s \<Rightarrow> 'resp response option poll \<times> 's) \<Rightarrow> u64 \<Rightarrow> bool" where
  "receivable I recv i \<longleftrightarrow> (\<exists>s resp s'. I s \<and> recv s = (Ready (Some resp), s') \<and> request_id resp = i)"

locale requests_contract = channel_contract ch inv tracked
  for ch :: "('s, 'req, 'resp, 'e) channel" and inv :: "'s \<Rightarrow> bool" and tracked :: "'s \<Rightarrow> u64 set" +
  fixes recv :: "'s \<Rightarrow> 'resp response option poll \<times> 's" and cancel :: "'s \<Rightarrow> u64 \<Rightarrow> 's"
  assumes recv_law: "inv s \<Longrightarrow> recv s = (x, s') \<Longrightarrow> inv s' \<and> tracked s' = tracked s"
    and cancel_law: "inv s \<Longrightarrow> inv (cancel s i) \<and> tracked (cancel s i) = tracked s"
begin

lemma drop_read_law: "inv s \<Longrightarrow> inv (drop_read cancel r s) \<and> tracked (drop_read cancel r s) = tracked s"
  using cancel_law by (auto simp: drop_read_def response_guard_drop_def split: poll.splits option.splits result.splits)


lemma ensure_writeable_law:
  assumes "inv s"
  shows "holds (requests_ensure_writeable n ch s) (\<lambda>(p, s'). inv s' \<and> tracked s' = tracked s)"
  unfolding requests_ensure_writeable_def
proof (rule loop_holds[where I = "\<lambda>s'. inv s' \<and> tracked s' = tracked s"], goal_cases)
  case (2 s1)
  obtain p s2 where p: "ch_poll_ready ch s1 = (p, s2)" by fastforce
  obtain q s3 where q: "ch_poll_flush ch s2 = (q, s3)" by fastforce
  have s2: "inv s2 \<and> tracked s2 = tracked s" using poll_ready_law[OF _ p] 2 by simp
  then have s3: "inv s3 \<and> tracked s3 = tracked s" using poll_flush_law[OF _ q] by simp
  from s2 s3 p q show ?case
    by (cases p rule: poll_result_cases; cases q rule: poll_result_cases)
      (simp_all add: requests_ensure_writeable_turn_def)
qed (use assms in simp)

lemma poll_next_response_law:
  assumes "inv s"
  shows "holds (poll_next_response n ch recv s) (\<lambda>(p, s'). inv s' \<and> tracked s' = tracked s)"
  unfolding poll_next_response_def
proof (rule holds_bind_pair[OF ensure_writeable_law[OF assms]], goal_cases)
  case (1 p s1)
  obtain q s2 where q: "recv s1 = (q, s2)" by fastforce
  from recv_law[OF _ q] 1 q show ?case
    by (cases p rule: poll_option_result_cases; cases q rule: poll_option_cases) simp_all
qed

lemma pump_write_law:
  assumes "inv s"
  shows "holds (requests_pump_write n ch recv closed s) (\<lambda>(p, s'). inv s' \<and> tracked s' \<subseteq> tracked s)"
  unfolding requests_pump_write_def
proof (rule holds_bind_pair[OF poll_next_response_law[OF assms]], goal_cases)
  case (1 p s1)
  obtain q s2 where q: "ch_poll_flush ch s1 = (q, s2)" by fastforce
  have s2: "inv s2 \<and> tracked s2 = tracked s" using poll_flush_law[OF _ q] 1 by simp
  show ?case
  proof (cases p rule: poll_option_result_cases)
    case (Item r)
    have "holds (obind (ch_start_send ch s1 r) (\<lambda>(res, s). case res of
        Err e \<Rightarrow> Return (Ready (Some (Err e)), s) | Ok _ \<Rightarrow> Return (Ready (Some (Ok ())), s)))
      (\<lambda>(p, s'). inv s' \<and> tracked s' \<subseteq> tracked s)"
      by (rule holds_bind_pair[OF yields_imp_holds[OF start_send_law]])
        (use 1 in \<open>auto split: result.splits\<close>)
    with Item show ?thesis by simp
  qed (use 1 q s2 in \<open>cases q rule: poll_result_cases; simp\<close>)+
qed

lemma pump_read_law:
  assumes "inv s"
  shows "holds (requests_pump_read ch s) (\<lambda>(p, s'). inv s' \<and> hands_out tracked s p s' \<and>
    (\<forall>e. p = Ready (Some (Err e)) \<longrightarrow> tracked s' \<subseteq> tracked s))"
  unfolding requests_pump_read_def
proof (rule holds_bind_pair[OF poll_next_law[OF assms]], goal_cases)
  case (1 p s1)
  then show ?case
    by (cases p rule: poll_option_result_cases) (auto simp: begin_request_def)
qed

lemma requests_turn_law:
  assumes "inv s"
  shows "holds (requests_poll_next_turn n ch recv cancel s) (\<lambda>(c, s'). inv s' \<and>
    (case c of Continue \<Rightarrow> tracked s' \<subseteq> tracked s | Break p \<Rightarrow> hands_out tracked s p s'))"
  unfolding requests_poll_next_turn_def
proof (rule holds_bind_pair[OF pump_read_law[OF assms]], goal_cases)
  case (1 r s1)
  have wrote: "holds (obind (requests_pump_write n ch recv b s1) (\<lambda>(w, s). case w of
        Ready (Some (Err e)) \<Rightarrow> Return (Break (Ready (Some (Err e))), drop_read cancel r s)
      | _ \<Rightarrow> Return (requests_verdict r w, s)))
      (\<lambda>(c, s'). inv s' \<and> (case c of Continue \<Rightarrow> tracked s' \<subseteq> tracked s | Break p \<Rightarrow> hands_out tracked s p s'))"
    if r: "hands_out tracked s r s1" "\<forall>e. r \<noteq> Ready (Some (Err e))" for b r
  proof (rule holds_bind_pair[OF pump_write_law], goal_cases)
    case (2 w s2)
    then have "inv s2" "hands_out tracked s r s2" using hands_out_shrink[OF r(1), of s2] by auto
    with r(2) drop_read_law[of s2 r] show ?case
      by (cases r rule: poll_option_result_cases; cases w rule: poll_option_result_cases) auto
  qed (use 1 in simp)
  show ?case
  proof (cases r rule: poll_option_result_cases)
    case (Failed e)
    then show ?thesis using 1 by auto
  qed (simp only: poll.case option.case result.case prod.case; rule wrote; use 1 in simp)+
qed

lemma requests_poll_next_law:
  assumes "inv s"
  shows "holds (requests_poll_next n ch recv cancel s) (\<lambda>(p, s'). inv s' \<and> hands_out tracked s p s')"
  unfolding requests_poll_next_def
proof (rule loop_holds[where I = "\<lambda>s'. inv s' \<and> tracked s' \<subseteq> tracked s"], goal_cases)
  case (2 s1)
  show ?case
  proof (rule holds_mono[OF requests_turn_law], goal_cases)
    case (2 x)
    then show ?case
      using \<open>inv s1 \<and> tracked s1 \<subseteq> tracked s\<close> hands_out_after[of tracked s1 s]
      by (cases x; cases "fst x") auto
  qed (use 2 in simp)
qed (use assms in simp)

text \<open>A request that is handed out is tracked, unless a response to its id was received while the
  poll wrote.\<close>

lemma poll_next_response_received:
  assumes "inv s" "\<not> receivable inv recv i"
  shows "holds (poll_next_response n ch recv s) (\<lambda>(p, s'). \<forall>resp. p = Ready (Some (Ok resp)) \<longrightarrow> request_id resp \<noteq> i)"
  unfolding poll_next_response_def
proof (rule holds_bind_pair[OF ensure_writeable_law[OF assms(1)]], goal_cases)
  case (1 p s1)
  obtain q s2 where q: "recv s1 = (q, s2)" by fastforce
  with 1 assms(2) show ?case
    by (cases p rule: poll_option_result_cases; cases q rule: poll_option_cases) (auto simp: receivable_def)
qed

lemma pump_write_keeps:
  assumes "inv s" "\<not> receivable inv recv i" "i \<in> tracked s"
  shows "holds (requests_pump_write n ch recv closed s) (\<lambda>(p, s'). i \<in> tracked s')"
  unfolding requests_pump_write_def
proof (rule holds_bind_pair[where P = "\<lambda>p s'. inv s' \<and> tracked s' = tracked s \<and>
      (\<forall>resp. p = Ready (Some (Ok resp)) \<longrightarrow> request_id resp \<noteq> i)"], goal_cases)
  case 1
  show ?case
    by (rule holds_mono[OF holds_conj[OF poll_next_response_law[OF assms(1)] poll_next_response_received[OF assms(1,2)]]])
      auto
next
  case (2 p s1)
  note 1 = this
  obtain q s2 where q: "ch_poll_flush ch s1 = (q, s2)" by fastforce
  have s2: "i \<in> tracked s2" using poll_flush_law[OF _ q] 1 assms(3) by simp
  show ?case
  proof (cases p rule: poll_option_result_cases)
    case (Item r)
    have "holds (obind (ch_start_send ch s1 r) (\<lambda>(res, s). case res of
        Err e \<Rightarrow> Return (Ready (Some (Err e)), s) | Ok _ \<Rightarrow> Return (Ready (Some (Ok ())), s)))
      (\<lambda>(p, s'). i \<in> tracked s')"
      by (rule holds_bind_pair[OF yields_imp_holds[OF start_send_law]])
        (use 1 Item assms(3) in \<open>auto split: result.splits\<close>)
    with Item show ?thesis by simp
  qed (use 1 q s2 assms(3) in \<open>cases q rule: poll_result_cases; simp\<close>)+
qed

lemma requests_turn_tracked:
  assumes "inv s"
  shows "holds (requests_poll_next_turn n ch recv cancel s) (\<lambda>(c, s'). \<forall>r. c = Break (Ready (Some (Ok r))) \<longrightarrow>
    id (if_request r) \<in> tracked s' \<or> receivable inv recv (id (if_request r)))"
  unfolding requests_poll_next_turn_def requests_pump_read_def obind_assoc
proof (rule holds_bind_pair[OF poll_next_law[OF assms]], goal_cases)
  case (1 p s1)
  then have inv: "inv s1" by simp
  note wrote = holds_mono[OF pump_write_law[OF inv, of n]]
  show ?case
  proof (cases p rule: poll_option_result_cases)
    case (Item t)
    let ?i = "id (tk_request t)"
    have i: "?i \<in> tracked s1" "if_request (begin_request t) = tk_request t"
      using 1 Item by (simp_all add: begin_request_def)
    show ?thesis
    proof (cases "receivable inv recv ?i")
      case True
      then show ?thesis using Item i(2)
        by (auto intro!: wrote split: poll.splits option.splits result.splits)
    next
      case False
      from holds_mono[OF pump_write_keeps[OF inv False i(1)]] show ?thesis using Item i(2)
        by (auto split: poll.splits option.splits result.splits)
    qed
  qed (auto intro!: wrote split: poll.splits option.splits result.splits)
qed

lemma requests_poll_next_tracked:
  assumes "inv s"
  shows "holds (requests_poll_next n ch recv cancel s) (\<lambda>(p, s'). \<forall>r. p = Ready (Some (Ok r)) \<longrightarrow>
    id (if_request r) \<in> tracked s' \<or> receivable inv recv (id (if_request r)))"
  unfolding requests_poll_next_def
proof (rule loop_holds[where I = inv], goal_cases)
  case (2 s1)
  show ?case
    by (rule holds_mono[OF holds_conj[OF requests_turn_law[OF 2] requests_turn_tracked[OF 2]]])
      (auto split: control.splits)
qed (rule assms)

end

text \<open>The stream over a \<^verbatim>\<open>BaseChannel\<close>, and over one with a limit.  \<open>poll_recv\<close> receives from the
  channel of responses; the handlers that send there are part of the world.\<close>

definition base_recv ::
  "('w \<Rightarrow> 'resp response option poll \<times> 'w) \<Rightarrow> ('w, 'q) base_channel \<Rightarrow>
   'resp response option poll \<times> ('w, 'q) base_channel" where
  "base_recv poll_recv b = (let (p, w) = poll_recv (b_world b) in (p, b\<lparr>b_world := w\<rparr>))"

definition limited_recv ::
  "('w \<Rightarrow> 'resp response option poll \<times> 'w) \<Rightarrow> ('w, 'q) base_channel max_requests \<Rightarrow>
   'resp response option poll \<times> ('w, 'q) base_channel max_requests" where
  "limited_recv poll_recv m = (let (p, b) = base_recv poll_recv (mr_inner m) in (p, m\<lparr>mr_inner := b\<rparr>))"

definition base_cancel :: "('w \<Rightarrow> u64 \<Rightarrow> 'w) \<Rightarrow> ('w, 'q) base_channel \<Rightarrow> u64 \<Rightarrow> ('w, 'q) base_channel" where
  "base_cancel send_cancel b i = b\<lparr>b_world := send_cancel (b_world b) i\<rparr>"

definition limited_cancel ::
  "('w \<Rightarrow> u64 \<Rightarrow> 'w) \<Rightarrow> ('w, 'q) base_channel max_requests \<Rightarrow> u64 \<Rightarrow> ('w, 'q) base_channel max_requests" where
  "limited_cancel send_cancel m i = m\<lparr>mr_inner := base_cancel send_cancel (mr_inner m) i\<rparr>"

definition recv_keeps ::
  "('w \<Rightarrow> bool) \<Rightarrow> ('w \<Rightarrow> 'resp response option poll \<times> 'w) \<Rightarrow> ('w \<Rightarrow> u64 \<Rightarrow> 'w) \<Rightarrow> bool" where
  "recv_keeps W poll_recv send_cancel \<longleftrightarrow>
     (\<forall>w. W w \<longrightarrow> W (snd (poll_recv w))) \<and> (\<forall>w i. W w \<longrightarrow> W (send_cancel w i))"

interpretation requests_base: requests_contract
  "base_channel_ops n env" "\<lambda>b. base_inv env ent hz W b \<and> recv_keeps W poll_recv send_cancel" base_tracked
  "base_recv poll_recv" "base_cancel send_cancel"
  for n and env :: "('w, 'q, 'req, 'resp, 'e) server_env" and ent hz W poll_recv send_cancel
proof (intro requests_contract.intro base.guarded_contract requests_contract_axioms.intro, goal_cases)
  case (1 b x b')
  then show ?case by (auto simp: base_recv_def base_inv_def recv_keeps_def split: prod.splits)
next
  case (2 b i)
  then show ?case by (auto simp: base_cancel_def base_inv_def recv_keeps_def)
qed

interpretation requests_limited: requests_contract
  "max_requests_ops k (base_channel_ops n env)"
  "\<lambda>m. base_inv env ent hz W (mr_inner m) \<and> recv_keeps W poll_recv send_cancel"
  "\<lambda>m. base_tracked (mr_inner m)" "limited_recv poll_recv" "limited_cancel send_cancel"
  for k n and env :: "('w, 'q, 'req, 'resp, 'e) server_env" and ent hz W poll_recv send_cancel
proof (intro requests_contract.intro limited_base.guarded_contract requests_contract_axioms.intro, goal_cases)
  case (1 m x m')
  then show ?case
    using requests_base.recv_law[of env ent hz W "mr_inner m" poll_recv send_cancel x "mr_inner m'"]
    by (auto simp: limited_recv_def split: prod.splits)
next
  case (2 m i)
  then show ?case
    using requests_base.cancel_law[of env ent hz W "mr_inner m" poll_recv send_cancel i]
    by (simp add: limited_cancel_def)
qed

end
