(* ===== verification/Execute.thy ===== *)
theory Execute
  imports Requests
begin

text \<open>
  \<^verbatim>\<open>InFlightRequest::execute\<close> and \<^verbatim>\<open>ResponseGuard\<close> of \<^verbatim>\<open>tarpc/src/server.rs\<close>: a handler runs
  inside an \<^verbatim>\<open>Abortable\<close>, sends its response to the channel, and disarms its guard; a handler
  that is dropped before it is done leaves the guard armed, which then cancels the request.
\<close>

section \<open>The handler\<close>

datatype 'resp exec_phase = Serving | Sending "'resp response"

datatype aborted = Aborted

text \<open>The environment: the service function, the sender of responses, the cancellation channel
  and \<^verbatim>\<open>futures::future::Abortable\<close>.\<close>

record ('w, 'req, 'resp) exec_env =
  ex_serve :: "rpc_context \<Rightarrow> 'req \<Rightarrow> 'w \<Rightarrow> ('resp, server_error) result poll \<times> 'w"
  ex_send_poll :: "'resp response \<Rightarrow> 'w \<Rightarrow> bool poll \<times> 'w"
  ex_cancel :: "'w \<Rightarrow> u64 \<Rightarrow> 'w"
  ex_is_aborted :: "'w \<Rightarrow> abort_handle \<Rightarrow> bool"
  ex_abortable :: "('resp exec_phase \<times> 'w \<Rightarrow> unit poll \<times> 'resp exec_phase \<times> 'w) \<Rightarrow> abort_handle \<Rightarrow>
    'resp exec_phase \<times> 'w \<Rightarrow> (unit, aborted) result poll \<times> 'resp exec_phase \<times> 'w"

record ('req, 'resp) execution =
  xn_request :: "'req in_flight_request"
  xn_phase :: "'resp exec_phase"

definition execution_start :: "'req in_flight_request \<Rightarrow> ('req, 'resp) execution" where
  "execution_start r = \<lparr>xn_request = r, xn_phase = Serving\<rparr>"

text \<open>The \<^verbatim>\<open>async\<close> block inside the \<^verbatim>\<open>Abortable\<close>: \<^verbatim>\<open>serve\<close>, then \<^verbatim>\<open>response_tx.send\<close>, whose result is
  ignored.\<close>

definition execute_send ::
  "('w, 'req, 'resp) exec_env \<Rightarrow> 'resp response \<Rightarrow> 'w \<Rightarrow> unit poll \<times> 'resp exec_phase \<times> 'w" where
  "execute_send env r w =
     (case ex_send_poll env r w of
        (Pending, w) \<Rightarrow> (Pending, Sending r, w)
      | (Ready _, w) \<Rightarrow> (Ready (), Sending r, w))"

fun execute_body ::
  "('w, 'req, 'resp) exec_env \<Rightarrow> 'req request \<Rightarrow> 'resp exec_phase \<times> 'w \<Rightarrow> unit poll \<times> 'resp exec_phase \<times> 'w" where
  "execute_body env r (Serving, w) =
     (case ex_serve env (request_context r) (message r) w of
        (Pending, w) \<Rightarrow> (Pending, Serving, w)
      | (Ready m, w) \<Rightarrow> execute_send env \<lparr>request_id = id r, response_message = m\<rparr> w)"
| "execute_body env r (Sending response, w) = execute_send env response w"

definition execute_poll ::
  "('w, 'req, 'resp) exec_env \<Rightarrow> ('req, 'resp) execution \<Rightarrow> 'w \<Rightarrow> unit poll \<times> ('req, 'resp) execution \<times> 'w" where
  "execute_poll env x w =
     (let r = xn_request x;
          (p, phase, w) = ex_abortable env (execute_body env (if_request r)) (if_abort_registration r) (xn_phase x, w)
      in case p of
           Pending \<Rightarrow> (Pending, x\<lparr>xn_phase := phase\<rparr>, w)
         | Ready _ \<Rightarrow>
             (Ready (),
              \<lparr>xn_request = r\<lparr>if_response_guard := (if_response_guard r)\<lparr>rg_cancel := False\<rparr>\<rparr>, xn_phase = phase\<rparr>, w))"

text \<open>The life of a handler: it is polled, with other tasks running in between, until it is
  ready or until the executor drops it.  The flag says whether it became ready.\<close>

fun execution_life ::
  "('w, 'req, 'resp) exec_env \<Rightarrow> ('w \<Rightarrow> 'w) list \<Rightarrow> ('req, 'resp) execution \<Rightarrow> 'w \<Rightarrow> bool \<times> 'w" where
  "execution_life env [] x w = (False, response_guard_drop (ex_cancel env) (if_response_guard (xn_request x)) w)"
| "execution_life env (outside # polls) x w =
     (case execute_poll env x (outside w) of
        (Pending, x, w) \<Rightarrow> execution_life env polls x w
      | (Ready _, x, w) \<Rightarrow> (True, response_guard_drop (ex_cancel env) (if_response_guard (xn_request x)) w))"

section \<open>What is recorded\<close>

text \<open>\<^verbatim>\<open>Abortable\<close>: an aborted future is not polled; one that is not is polled once, and may be
  found aborted afterwards.\<close>

definition abortable_laws :: "('w, 'req, 'resp) exec_env \<Rightarrow> bool" where
  "abortable_laws env \<longleftrightarrow> (\<forall>body h pw.
     (ex_is_aborted env (snd pw) h \<longrightarrow> ex_abortable env body h pw = (Ready (Err Aborted), pw)) \<and>
     (\<not> ex_is_aborted env (snd pw) h \<longrightarrow>
        (case body pw of
           (Ready u, pw') \<Rightarrow> ex_abortable env body h pw = (Ready (Ok u), pw')
         | (Pending, pw') \<Rightarrow> ex_abortable env body h pw \<in> {(Pending, pw'), (Ready (Err Aborted), pw')})))"

datatype 'resp exec_event = SendPolled "'resp response" "bool poll" | GuardCanceled u64

text \<open>The environment is \<open>logged\<close> when it keeps a log of the polls of the response sender and of
  the cancellations in the world, and nothing else touches the log.\<close>

definition logged :: "('w, 'req, 'resp) exec_env \<Rightarrow> ('w \<Rightarrow> 'resp exec_event list) \<Rightarrow> bool" where
  "logged env log \<longleftrightarrow>
     (\<forall>c m w. log (snd (ex_serve env c m w)) = log w) \<and>
     (\<forall>r w. log (snd (ex_send_poll env r w)) = log w @ [SendPolled r (fst (ex_send_poll env r w))]) \<and>
     (\<forall>w i. log (ex_cancel env w i) = log w @ [GuardCanceled i])"

text \<open>The events of a handler for the request \<open>i\<close> so far: polls of the sender that were pending,
  all with the response that is being sent.\<close>

definition sending :: "u64 \<Rightarrow> 'resp exec_phase \<Rightarrow> 'resp exec_event list \<Rightarrow> bool" where
  "sending i phase evs \<longleftrightarrow>
     (case phase of Serving \<Rightarrow> evs = []
      | Sending r \<Rightarrow> request_id r = i \<and> set evs \<subseteq> {SendPolled r Pending})"

definition sent :: "u64 \<Rightarrow> 'resp exec_event list \<Rightarrow> bool" where
  "sent i evs \<longleftrightarrow> evs = [] \<or> (\<exists>r evs' p. evs = evs' @ [SendPolled r p] \<and> request_id r = i \<and>
     set evs' \<subseteq> {SendPolled r Pending})"

lemma execute_send_log:
  assumes "logged env log" "execute_send env r w = (p, phase, w')"
  shows "phase = Sending r \<and> (\<exists>q. log w' = log w @ [SendPolled r q] \<and> (p = Pending \<longleftrightarrow> q = Pending))"
proof -
  obtain q w1 where q: "ex_send_poll env r w = (q, w1)" by fastforce
  with assms(1) have "log w1 = log w @ [SendPolled r q]" unfolding logged_def by (metis fst_conv snd_conv)
  with q assms(2) show ?thesis by (cases q) (auto simp: execute_send_def)
qed

lemma execute_body_log:
  assumes lg: "logged env log" and b: "execute_body env r (phase, w) = (p, phase', w')"
    and s: "log w = l @ evs" "sending (id r) phase evs"
  shows "\<exists>evs'. log w' = l @ evs' \<and> sent (id r) evs' \<and> (p = Pending \<longrightarrow> sending (id r) phase' evs')"
proof -
  have send: "\<exists>evs'. log w' = l @ evs' \<and> sent (id r) evs' \<and> (p = Pending \<longrightarrow> sending (id r) phase' evs')"
    if e: "execute_send env resp w1 = (p, phase', w')" and l: "log w1 = l @ evs" and id: "request_id resp = id r"
      and evs: "set evs \<subseteq> {SendPolled resp Pending}" for resp w1
  proof -
    from execute_send_log[OF lg e] obtain q where "phase' = Sending resp" "log w' = l @ evs @ [SendPolled resp q]"
      "p = Pending \<longleftrightarrow> q = Pending" using l by auto
    with id evs show ?thesis
      by (intro exI[of _ "evs @ [SendPolled resp q]"]) (auto simp: sent_def sending_def)
  qed
  show ?thesis
  proof (cases phase)
    case Serving
    obtain q w1 where q: "ex_serve env (request_context r) (message r) w = (q, w1)" by fastforce
    with lg have l: "log w1 = l @ evs" using s(1) unfolding logged_def by (metis snd_conv)
    show ?thesis
    proof (cases q)
      case Pending
      with b q Serving s l show ?thesis by (auto simp: sending_def sent_def)
    next
      case (Ready m)
      with b q Serving s l send[of "\<lparr>request_id = id r, response_message = m\<rparr>" w1] show ?thesis
        by (simp add: sending_def)
    qed
  next
    case (Sending resp)
    with b s send[of resp w] show ?thesis by (simp add: sending_def)
  qed
qed

lemma abortable_cases:
  assumes laws: "abortable_laws env" and r: "ex_abortable env body h pw = (p, pw')"
  obtains (aborted) "ex_is_aborted env (snd pw) h" "p = Ready (Err Aborted)" "pw' = pw"
    | (polled) q where "body pw = (q, pw')" "p = Pending \<Longrightarrow> q = Pending"
proof (cases "ex_is_aborted env (snd pw) h")
  case True
  then have "ex_abortable env body h pw = (Ready (Err Aborted), pw)"
    using laws by (auto simp: abortable_laws_def simp del: split_paired_All)
  then have "p = Ready (Err Aborted)" "pw' = pw" using r by auto
  then show ?thesis by (rule aborted[OF True])
next
  case False
  obtain q pw1 where q: "body pw = (q, pw1)" by (cases "body pw")
  from False laws have "case body pw of (Ready u, pw') \<Rightarrow> ex_abortable env body h pw = (Ready (Ok u), pw')
      | (Pending, pw') \<Rightarrow> ex_abortable env body h pw \<in> {(Pending, pw'), (Ready (Err Aborted), pw')}"
    by (simp add: abortable_laws_def del: split_paired_All)
  then have "pw1 = pw'" "p = Pending \<Longrightarrow> q = Pending" using q r by (cases q; auto)+
  then show ?thesis using polled[of q] q by simp
qed

lemma sent_of_sending: "sending i phase evs \<Longrightarrow> sent i evs"
  unfolding sending_def sent_def
  by (cases evs rule: rev_cases) (auto split: exec_phase.splits)

lemma execute_poll_log:
  assumes laws: "abortable_laws env" "logged env log"
    and poll: "execute_poll env x w = (p, x', w')"
    and s: "log w = l @ evs" "sending (id (if_request (xn_request x))) (xn_phase x) evs"
  shows "\<exists>evs'. log w' = l @ evs' \<and> sent (id (if_request (xn_request x))) evs' \<and>
    (case p of
       Pending \<Rightarrow> xn_request x' = xn_request x \<and> sending (id (if_request (xn_request x))) (xn_phase x') evs'
     | Ready _ \<Rightarrow> \<not> rg_cancel (if_response_guard (xn_request x')))"
proof -
  let ?r = "xn_request x" let ?i = "id (if_request ?r)"
  obtain q phase w1 where q: "ex_abortable env (execute_body env (if_request ?r)) (if_abort_registration ?r) (xn_phase x, w) =
      (q, phase, w1)" by (metis prod_cases3)
  have res: "\<exists>evs'. log w1 = l @ evs' \<and> sent ?i evs' \<and> (q = Pending \<longrightarrow> sending ?i phase evs')"
    using laws(1) q
  proof (cases rule: abortable_cases)
    case aborted
    then show ?thesis using s sent_of_sending[OF s(2)] by auto
  next
    case (polled q')
    from execute_body_log[OF laws(2) polled(1) s] polled(2) show ?thesis by auto
  qed
  from q poll have "w' = w1" "case q of Pending \<Rightarrow> p = Pending \<and> x' = x\<lparr>xn_phase := phase\<rparr>
      | Ready _ \<Rightarrow> p = Ready () \<and> xn_request x' = ?r\<lparr>if_response_guard := (if_response_guard ?r)\<lparr>rg_cancel := False\<rparr>\<rparr>"
    by (auto simp: execute_poll_def Let_def split: poll.splits)
  with res show ?thesis by (auto split: poll.splits)
qed

text \<open>Between the polls other tasks leave the log alone.\<close>

definition outside_quiet :: "('w \<Rightarrow> 'ev list) \<Rightarrow> ('w \<Rightarrow> 'w) list \<Rightarrow> bool" where
  "outside_quiet log polls \<longleftrightarrow> (\<forall>g \<in> set polls. \<forall>w. log (g w) = log w)"

lemma execution_life_events:
  assumes laws: "abortable_laws env" "logged env log"
  shows "outside_quiet log polls \<Longrightarrow> log w = l @ evs \<Longrightarrow> sending (id (if_request (xn_request x))) (xn_phase x) evs \<Longrightarrow>
    if_response_guard (xn_request x) = \<lparr>rg_request_id = id (if_request (xn_request x)), rg_cancel = True\<rparr> \<Longrightarrow>
    execution_life env polls x w = (finished, w') \<Longrightarrow>
    \<exists>evs'. sent (id (if_request (xn_request x))) evs' \<and>
      log w' = l @ evs' @ (if finished then [] else [GuardCanceled (id (if_request (xn_request x)))])"
proof (induction polls arbitrary: x w evs)
  case Nil
  have "sent (id (if_request (xn_request x))) evs" using sent_of_sending[OF Nil(3)] .
  with Nil laws(2) show ?case by (auto simp: response_guard_drop_def logged_def)
next
  case (Cons g polls)
  obtain p x1 w1 where p: "execute_poll env x (g w) = (p, x1, w1)" by (metis prod_cases3)
  have "log (g w) = l @ evs" using Cons.prems(1,2) by (simp add: outside_quiet_def)
  from execute_poll_log[OF laws p this Cons.prems(3)] obtain evs' where e: "log w1 = l @ evs'"
    "sent (id (if_request (xn_request x))) evs'"
    "case p of Pending \<Rightarrow> xn_request x1 = xn_request x \<and> sending (id (if_request (xn_request x))) (xn_phase x1) evs'
     | Ready _ \<Rightarrow> \<not> rg_cancel (if_response_guard (xn_request x1))" by blast
  show ?case
  proof (cases p)
    case Pending
    with Cons.prems p have "execution_life env polls x1 w1 = (finished, w')" by simp
    with Cons.IH[of w1 evs' x1] Cons.prems(1,4) e Pending show ?thesis
      by (simp add: outside_quiet_def cong: if_cong)
  next
    case (Ready u)
    with Cons.prems p e show ?thesis by (auto simp: response_guard_drop_def)
  qed
qed

lemma execution_aborted:
  assumes "abortable_laws env" "ex_is_aborted env (outside w) (if_abort_registration r)"
  shows "execution_life env (outside # polls) (execution_start r) w = (True, outside w)"
  using assms by (simp add: execution_start_def execute_poll_def abortable_laws_def response_guard_drop_def)

end
