(* ===== verification/Server_Wire.thy ===== *)
theory Server_Wire
  imports Base_Channel
begin

text \<open>
  What a \<^verbatim>\<open>BaseChannel\<close> does over its whole life, whatever operations its owner calls in whatever
  order: every response it writes answers a request that it has read and that has been neither
  answered nor canceled since; and each of its polls returns when finitely many messages arrive.
\<close>

section \<open>Events\<close>

datatype ('req, 'resp) server_event =
    SrvRead "'req client_message"
  | SrvGuard u64
  | SrvWrote "'resp response"

text \<open>The requests that may be answered after an event.\<close>

fun srv_open :: "u64 set \<Rightarrow> ('req, 'resp) server_event \<Rightarrow> u64 set" where
  "srv_open S (SrvRead (Request r)) = insert (id r) S"
| "srv_open S (SrvRead (Cancel tc i)) = S - {i}"
| "srv_open S (SrvGuard i) = S - {i}"
| "srv_open S (SrvWrote r) = S - {request_id r}"

fun srv_answers :: "u64 set \<Rightarrow> ('req, 'resp) server_event list \<Rightarrow> bool" where
  "srv_answers S [] = True"
| "srv_answers S (SrvWrote r # evs) \<longleftrightarrow> request_id r \<in> S \<and> srv_answers (S - {request_id r}) evs"
| "srv_answers S (ev # evs) \<longleftrightarrow> srv_answers (srv_open S ev) evs"

abbreviation srv_opens :: "u64 set \<Rightarrow> ('req, 'resp) server_event list \<Rightarrow> u64 set" where
  "srv_opens \<equiv> foldl srv_open"

lemma srv_answers_snoc:
  "srv_answers S (evs @ [ev]) \<longleftrightarrow>
   srv_answers S evs \<and> (\<forall>r. ev = SrvWrote r \<longrightarrow> request_id r \<in> srv_opens S evs)"
  by (induction S evs rule: srv_answers.induct) (cases ev; simp)+

text \<open>The environment keeps a \<open>log\<close> of what is read, of the canceled guards, and of what is
  written, and of nothing else.\<close>

definition read_events :: "('req client_message, 'e) result option poll \<Rightarrow> ('req, 'resp) server_event list" where
  "read_events p = (case p of Ready (Some (Ok m)) \<Rightarrow> [SrvRead m] | _ \<Rightarrow> [])"

definition guard_events :: "u64 option poll \<Rightarrow> ('req, 'resp) server_event list" where
  "guard_events p = (case p of Ready (Some i) \<Rightarrow> [SrvGuard i] | _ \<Rightarrow> [])"

definition logs :: "('w \<Rightarrow> 'ev list) \<Rightarrow> ('a \<Rightarrow> 'ev list) \<Rightarrow> ('w \<Rightarrow> 'a \<times> 'w) \<Rightarrow> bool" where
  "logs log evs call \<longleftrightarrow> (\<forall>w. log (snd (call w)) = log w @ evs (fst (call w)))"

lemma logsD: "logs log evs call \<Longrightarrow> call w = (x, w') \<Longrightarrow> log w' = log w @ evs x"
  by (metis fst_conv logs_def snd_conv)

abbreviation quiet :: "('w \<Rightarrow> 'ev list) \<Rightarrow> ('w \<Rightarrow> 'a \<times> 'w) \<Rightarrow> bool" where
  "quiet log \<equiv> logs log (\<lambda>_. [])"

definition server_logged ::
  "('w, 'q, 'req, 'resp, 'e) server_env \<Rightarrow> ('w \<Rightarrow> ('req, 'resp) server_event list) \<Rightarrow> bool" where
  "server_logged env log \<longleftrightarrow>
     logs log read_events (tr_poll_next (se_transport env)) \<and>
     (\<forall>r. logs log (\<lambda>_. [SrvWrote r]) (\<lambda>w. tr_start_send (se_transport env) w r)) \<and>
     logs log guard_events (se_canceled_poll_recv env) \<and>
     quiet log (tr_poll_ready (se_transport env)) \<and>
     quiet log (tr_poll_flush (se_transport env)) \<and>
     quiet log (tr_poll_close (se_transport env)) \<and>
     quiet log (ab_new_pair (se_abort env)) \<and>
     (\<forall>w h. log (ab_abort (se_abort env) w h) = log w) \<and>
     (\<forall>c. quiet log (\<lambda>w. se_new_span env w c)) \<and>
     quiet log (se_random_span_id env)"

lemma server_loggedD:
  assumes "server_logged env log"
  shows "tr_poll_next (se_transport env) w = (p, w') \<Longrightarrow> log w' = log w @ read_events p"
    "tr_start_send (se_transport env) w r = (res, w') \<Longrightarrow> log w' = log w @ [SrvWrote r]"
    "se_canceled_poll_recv env w = (c, w') \<Longrightarrow> log w' = log w @ guard_events c"
    "tr_poll_ready (se_transport env) w = (q, w') \<Longrightarrow> log w' = log w"
    "tr_poll_flush (se_transport env) w = (q, w') \<Longrightarrow> log w' = log w"
    "tr_poll_close (se_transport env) w = (q, w') \<Longrightarrow> log w' = log w"
    "ab_new_pair (se_abort env) w = (h, w') \<Longrightarrow> log w' = log w"
    "log (ab_abort (se_abort env) w h) = log w"
    "se_random_span_id env w = (x, w') \<Longrightarrow> log w' = log w"
  using assms unfolding server_logged_def by (auto dest: logsD)

lemma server_logged_span:
  assumes "server_logged env log" "se_new_span env w c = (sp, w')"
  shows "log w' = log w"
proof -
  have "quiet log (\<lambda>w. se_new_span env w c)" using assms(1) unfolding server_logged_def by blast
  from logsD[OF this, of w sp w'] assms(2) show ?thesis by simp
qed

section \<open>The operations keep the tracked requests open\<close>

definition answering ::
  "('w, 'q, 'req, 'resp, 'e) server_env \<Rightarrow> ('q \<Rightarrow> entries) \<Rightarrow> instant \<Rightarrow> ('w \<Rightarrow> bool) \<Rightarrow>
   ('w \<Rightarrow> ('req, 'resp) server_event list) \<Rightarrow> ('w, 'q) base_channel \<Rightarrow> bool" where
  "answering env ent hz W log b \<longleftrightarrow>
     server_logged env log \<and> base_inv env ent hz W b \<and>
     srv_answers {} (log (b_world b)) \<and> base_tracked b \<subseteq> srv_opens {} (log (b_world b))"

text \<open>A step with no events, and one with an event other than a written response.\<close>

lemma answering_quiet:
  assumes "answering env ent hz W log b" "base_inv env ent hz W b'"
    "log (b_world b') = log (b_world b)" "base_tracked b' \<subseteq> base_tracked b"
  shows "answering env ent hz W log b'"
  using assms by (auto simp: answering_def)

lemma answering_event:
  assumes "answering env ent hz W log b" "base_inv env ent hz W b'"
    "log (b_world b') = log (b_world b) @ [ev]" "\<And>r. ev = SrvWrote r \<Longrightarrow> request_id r \<in> base_tracked b"
    "base_tracked b' \<subseteq> srv_open (base_tracked b) ev"
  shows "answering env ent hz W log b'"
proof -
  have "srv_open (base_tracked b) ev \<subseteq> srv_open (srv_opens {} (log (b_world b))) ev"
    using assms(1) by (cases "({} :: u64 set, ev)" rule: srv_open.cases) (auto simp: answering_def)
  with assms show ?thesis by (auto simp: answering_def srv_answers_snoc)
qed

lemma base_poll_cancellation_answers:
  assumes "answering env ent hz W log b"
  shows "yields (base_poll_cancellation env b) (\<lambda>(st, b'). answering env ent hz W log b')"
proof -
  have inv: "base_inv env ent hz W b" and lg: "server_logged env log" using assms by (simp_all add: answering_def)
  obtain c w where c: "se_canceled_poll_recv env (b_world b) = (c, w)" by fastforce
  have log: "log w = log (b_world b) @ guard_events c" using server_loggedD(3)[OF lg c] .
  note law = base_poll_cancellation_law[OF inv]
  show ?thesis
  proof (cases c rule: poll_option_cases)
    case (Item i)
    obtain sp f where f: "srv_remove_request (se_delay_queue env) (b_in_flight b) i = Return (sp, f)"
      "server_ids f = server_ids (b_in_flight b) - {i}"
      using srv_remove_request_result[OF base_invD(2)[OF inv], of i] by (auto simp: yields_def server_ids_def)
    then have r: "base_poll_cancellation env b = Return (ReceiverReady, b\<lparr>b_in_flight := f, b_world := w\<rparr>)"
      using c Item by (simp add: base_poll_cancellation_def)
    have "answering env ent hz W log (b\<lparr>b_in_flight := f, b_world := w\<rparr>)"
      by (rule answering_event[OF assms, of _ "SrvGuard i"])
        (use law r log f Item in \<open>auto simp: guard_events_def base_tracked_def\<close>)
    with r show ?thesis by simp
  qed (use law c log in \<open>auto simp: base_poll_cancellation_def guard_events_def intro!: answering_quiet[OF assms]\<close>)
qed

lemma base_poll_expiration_answers:
  assumes "answering env ent hz W log b" "base_poll_expiration env b = (st, b')"
  shows "answering env ent hz W log b'"
proof -
  have inv: "base_inv env ent hz W b" and lg: "server_logged env log" using assms by (simp_all add: answering_def)
  have "log (b_world b') = log (b_world b)"
    using assms(2) server_loggedD(8)[OF lg]
    by (auto simp: base_poll_expiration_def srv_poll_expired_def split: prod.splits poll.splits option.splits if_splits)
  with base_poll_expiration_law[OF inv assms(2)] show ?thesis by (auto intro: answering_quiet[OF assms(1)])
qed

lemma srv_cancel_request_log:
  "srv_cancel_request dq ab w f i = Return (found, f', w') \<Longrightarrow> (\<And>h. log (ab_abort ab w h) = log w) \<Longrightarrow> log w' = log w"
  by (auto simp: srv_cancel_request_def Let_def obind_eq_Return split: option.splits)

lemma srv_start_request_log:
  assumes "srv_start_request dq ab now w f i dl sp = Return (r, f', w')" "\<And>h w'. ab_new_pair ab w = (h, w') \<Longrightarrow> log w' = log w"
  shows "log w' = log w"
proof -
  obtain h w1 where "ab_new_pair ab w = (h, w1)" by fastforce
  with assms show ?thesis by (auto simp: srv_start_request_def obind_eq_Return split: option.splits)
qed

lemma base_start_request_log:
  assumes lg: "server_logged env log" and b: "base_start_request env b r = Return (res, b')"
  shows "log (b_world b') = log (b_world b)"
proof -
  obtain sp w1 where sp: "se_new_span env (b_world b) (set_context (request_context r)) = (sp, w1)" by fastforce
  obtain tc w2 where tc: "(case trace_context_try_from (se_active_span env w1 sp) of Ok c \<Rightarrow> (c, w1)
      | Err _ \<Rightarrow> (let (x, w) = se_random_span_id env w1 in (new_child x (trace_context (request_context r)), w))) = (tc, w2)"
    by fastforce
  have "log w1 = log (b_world b)" using server_logged_span[OF lg sp] .
  moreover have "log w2 = log w1"
    using tc server_loggedD(9)[OF lg] by (auto split: result.splits prod.splits)
  moreover have "log (b_world b') = log w2"
  proof (cases "srv_start_request (se_delay_queue env) (se_abort env) (se_now env w2) w2 (b_in_flight b)
      (id r) (deadline (request_context r)) sp")
    case (Return x)
    obtain start f w3 where x: "x = (start, f, w3)" by (cases x)
    have "log w3 = log w2"
      using srv_start_request_log[OF Return[unfolded x]] server_loggedD(7)[OF lg] by blast
    with Return x b sp tc show ?thesis by (cases start) (auto simp: base_start_request_def Let_def)
  qed (use b sp tc in \<open>simp_all add: base_start_request_def Let_def\<close>)
  ultimately show ?thesis by simp
qed

lemma base_poll_request_answers:
  assumes "answering env ent hz W log b"
  shows "yields (base_poll_request env b) (\<lambda>(st, b'). answering env ent hz W log b')"
proof -
  have inv: "base_inv env ent hz W b" and lg: "server_logged env log" using assms by (simp_all add: answering_def)
  obtain p w where p: "tr_poll_next (se_transport env) (b_world b) = (p, w)" by fastforce
  have log: "log w = log (b_world b) @ read_events p" using server_loggedD(1)[OF lg p] .
  have inv1: "base_inv env ent hz W (b\<lparr>b_world := w\<rparr>)" using base_inv_world[OF inv ss_next[OF p]] .
  note law = base_poll_request_law[OF inv]
  show ?thesis
  proof (cases p rule: poll_option_result_cases)
    case (Item m)
    show ?thesis
    proof (cases m)
      case (Request r)
      have dl: "request_deadline r \<le> hz"
        using server_env_lawsD(3)[OF base_invD(1)[OF inv] base_invD(3)[OF inv]] p Item Request by simp
      have "yields (base_start_request env (b\<lparr>b_world := w\<rparr>) r)
          (\<lambda>(res, b'). base_inv env ent hz W b' \<and> base_tracked b' \<subseteq> insert (id r) (base_tracked b))"
      proof (rule yields_mono[OF base_start_request_law[OF inv1 dl]], goal_cases)
        case (1 x)
        then show ?case by (cases x; cases "fst x") (auto simp: base_tracked_def)
      qed
      then obtain res b1
        where s: "base_start_request env (b\<lparr>b_world := w\<rparr>) r = Return (res, b1)" "base_inv env ent hz W b1"
          "base_tracked b1 \<subseteq> insert (id r) (base_tracked b)"
        by (auto simp: yields_def)
      have "answering env ent hz W log b1"
        by (rule answering_event[OF assms s(2), of "SrvRead (Request r)"])
          (use base_start_request_log[OF lg s(1)] log Item Request s(3) in \<open>auto simp: read_events_def\<close>)
      with s p Item Request show ?thesis by (cases res) (simp_all add: base_poll_request_def)
    next
      case (Cancel tc i)
      obtain found f w' where c: "srv_cancel_request (se_delay_queue env) (se_abort env) w (b_in_flight b) i = Return (found, f, w')"
        and f: "srv_request_data f = AList.delete i (srv_request_data (b_in_flight b))"
        using srv_cancel_request_result[OF base_invD(2)[OF inv], of "se_abort env" w i] unfolding yields_def by auto
      have r: "base_poll_request env b = Return (Status ReceiverReady, b\<lparr>b_in_flight := f, b_world := w'\<rparr>)"
        using p Item Cancel c by (simp add: base_poll_request_def)
      have "answering env ent hz W log (b\<lparr>b_in_flight := f, b_world := w'\<rparr>)"
        by (rule answering_event[OF assms, of _ "SrvRead (Cancel tc i)"])
          (use law r srv_cancel_request_log[of _ _ w _ _ _ _ _ log, OF c server_loggedD(8)[OF lg]] log Item Cancel f in
            \<open>auto simp: read_events_def base_tracked_def server_ids_def\<close>)
      with r show ?thesis by simp
    qed
  qed (use law p log inv1 in \<open>auto simp: base_poll_request_def read_events_def intro!: answering_quiet[OF assms]\<close>)
qed

lemma base_poll_next_turn_answers:
  assumes "answering env ent hz W log b"
  shows "holds (base_poll_next_turn env b) (\<lambda>(c, b'). answering env ent hz W log b')"
  unfolding base_poll_next_turn_def
proof (rule holds_bind_pair[OF yields_imp_holds[OF base_poll_cancellation_answers[OF assms]]], goal_cases)
  case (1 s1 b1)
  obtain s2 b2 where s2: "base_poll_expiration env b1 = (s2, b2)" by fastforce
  have b2: "answering env ent hz W log b2" using base_poll_expiration_answers[OF 1(2) s2] .
  from base_poll_request_answers[OF b2] obtain s3 b3
    where "base_poll_request env b2 = Return (s3, b3)" "answering env ent hz W log b3" by (auto simp: yields_def)
  with s2 show ?case by (auto split: request_status.splits receiver_status.splits)
qed

lemma base_poll_next_answers:
  assumes "answering env ent hz W log b"
  shows "holds (base_poll_next n env b) (\<lambda>(p, b'). answering env ent hz W log b')"
  unfolding base_poll_next_def
  by (rule loop_holds[where I = "answering env ent hz W log", OF assms], drule base_poll_next_turn_answers,
      erule holds_mono) (auto split: control.splits)

lemma base_start_send_answers:
  assumes "answering env ent hz W log b"
  shows "holds (base_start_send env b r) (\<lambda>(res, b'). answering env ent hz W log b')"
proof -
  have inv: "base_inv env ent hz W b" and lg: "server_logged env log" using assms by (simp_all add: answering_def)
  obtain sp f where f: "srv_remove_request (se_delay_queue env) (b_in_flight b) (request_id r) = Return (sp, f)"
    "server_inv (se_delay_queue env) ent hz f" "server_ids f = server_ids (b_in_flight b) - {request_id r}"
    "sp = map_option sd_span (map_of (srv_request_data (b_in_flight b)) (request_id r))"
    using srv_remove_request_result[OF base_invD(2)[OF inv], of "request_id r"]
    by (auto simp: yields_def server_ids_def)
  obtain res w where s: "tr_start_send (se_transport env) (b_world b) r = (res, w)" by fastforce
  show ?thesis
  proof (cases sp)
    case None
    have "answering env ent hz W log (b\<lparr>b_in_flight := f\<rparr>)"
      by (rule answering_quiet[OF assms])
        (use base_inv_change[OF inv base_invD(3)[OF inv] f(2)] f(3) in \<open>simp_all add: base_tracked_def\<close>)
    with None f(1) show ?thesis by (simp add: base_start_send_def)
  next
    case (Some x)
    then have "request_id r \<in> server_ids (b_in_flight b)"
      using f(4) by (auto simp: server_ids_def map_of_Some_keys)
    then have "answering env ent hz W log (b\<lparr>b_in_flight := f, b_world := w\<rparr>)"
      by (intro answering_event[OF assms, of _ "SrvWrote r"])
        (use base_inv_change[OF inv base_inv_step[OF inv ss_start_send[OF s]] f(2)] f(3) server_loggedD(2)[OF lg s] in
          \<open>auto simp: base_tracked_def\<close>)
    with Some f(1) s show ?thesis by (simp add: base_start_send_def)
  qed
qed

section \<open>The life of a channel\<close>

text \<open>What the owner of a channel may call, and what other tasks do in between.\<close>

datatype ('w, 'resp) channel_call =
    CallNext nat
  | CallReady
  | CallSend "'resp response"
  | CallFlush
  | CallClose
  | Outside "'w \<Rightarrow> 'w"

fun run_call ::
  "('w, 'q, 'req, 'resp, 'e) server_env \<Rightarrow> ('w, 'resp) channel_call \<Rightarrow> ('w, 'q) base_channel \<Rightarrow>
   ('w, 'q) base_channel outcome" where
  "run_call env (CallNext n) b = obind (base_poll_next n env b) (\<lambda>(_, b). Return b)"
| "run_call env CallReady b = Return (snd (base_poll_ready env b))"
| "run_call env (CallSend r) b = obind (base_start_send env b r) (\<lambda>(_, b). Return b)"
| "run_call env CallFlush b = Return (snd (base_poll_flush env b))"
| "run_call env CallClose b = Return (snd (base_poll_close env b))"
| "run_call env (Outside g) b = Return (b\<lparr>b_world := g (b_world b)\<rparr>)"

fun channel_life ::
  "('w, 'q, 'req, 'resp, 'e) server_env \<Rightarrow> ('w, 'resp) channel_call list \<Rightarrow> ('w, 'q) base_channel \<Rightarrow>
   ('w, 'q) base_channel outcome" where
  "channel_life env [] b = Return b"
| "channel_life env (c # cs) b = obind (run_call env c b) (channel_life env cs)"

definition outside_keeps :: "('w \<Rightarrow> bool) \<Rightarrow> ('w \<Rightarrow> 'ev list) \<Rightarrow> ('w, 'resp) channel_call list \<Rightarrow> bool" where
  "outside_keeps W log cs \<longleftrightarrow> (\<forall>g. Outside g \<in> set cs \<longrightarrow> (\<forall>w. W w \<longrightarrow> W (g w) \<and> log (g w) = log w))"

lemma run_call_answers:
  assumes "answering env ent hz W log b" "outside_keeps W log [c]"
  shows "holds (run_call env c b) (answering env ent hz W log)"
proof -
  have inv: "base_inv env ent hz W b" and lg: "server_logged env log" using assms by (simp_all add: answering_def)
  have quiet: "answering env ent hz W log (b\<lparr>b_world := w\<rparr>)" if "W w" "log w = log (b_world b)" for w
    using that assms(1) by (auto simp: answering_def base_inv_def)
  show ?thesis
  proof (cases c)
    case (CallNext n)
    with base_poll_next_answers[OF assms(1), of n] show ?thesis by (auto elim!: holds_mono)
  next
    case (CallSend r)
    with base_start_send_answers[OF assms(1), of r] show ?thesis by (auto elim!: holds_mono)
  next
    case CallReady
    obtain p w where p: "tr_poll_ready (se_transport env) (b_world b) = (p, w)" by fastforce
    with CallReady quiet[OF base_inv_step[OF inv ss_ready[OF p]] server_loggedD(4)[OF lg p]] show ?thesis
      by (simp add: base_poll_ready_def)
  next
    case CallFlush
    obtain p w where p: "tr_poll_flush (se_transport env) (b_world b) = (p, w)" by fastforce
    with CallFlush quiet[OF base_inv_step[OF inv ss_flush[OF p]] server_loggedD(5)[OF lg p]] show ?thesis
      by (simp add: base_poll_flush_def)
  next
    case CallClose
    obtain p w where p: "tr_poll_close (se_transport env) (b_world b) = (p, w)" by fastforce
    with CallClose quiet[OF base_inv_step[OF inv ss_close[OF p]] server_loggedD(6)[OF lg p]] show ?thesis
      by (simp add: base_poll_close_def)
  next
    case (Outside g)
    with quiet[of "g (b_world b)"] assms(2) base_invD(3)[OF inv] show ?thesis by (simp add: outside_keeps_def)
  qed
qed

lemma channel_life_answers:
  "answering env ent hz W log b \<Longrightarrow> outside_keeps W log cs \<Longrightarrow> holds (channel_life env cs b) (answering env ent hz W log)"
proof (induction cs arbitrary: b)
  case (Cons c cs)
  have one: "outside_keeps W log [c]" and rest: "outside_keeps W log cs"
    using Cons.prems(2) by (simp_all add: outside_keeps_def)
  show ?case
    using run_call_answers[OF Cons.prems(1) one] Cons.IH[OF _ rest]
    by simp (erule holds_mono, simp)
qed simp

section \<open>A poll returns\<close>

text \<open>\<open>work\<close> bounds the messages that the transport and the cancellation channel still deliver.\<close>

definition server_finite_work :: "('w, 'q, 'req, 'resp, 'e) server_env \<Rightarrow> ('w \<Rightarrow> nat) \<Rightarrow> bool" where
  "server_finite_work env work \<longleftrightarrow>
     (\<forall>w w'. server_step env w w' \<longrightarrow> work w' \<le> work w) \<and>
     (\<forall>w m w'. tr_poll_next (se_transport env) w = (Ready (Some m), w') \<longrightarrow> work w' < work w) \<and>
     (\<forall>w i w'. se_canceled_poll_recv env w = (Ready (Some i), w') \<longrightarrow> work w' < work w)"

lemma server_finite_workD:
  assumes "server_finite_work env work"
  shows "server_step env w w' \<Longrightarrow> work w' \<le> work w"
    "tr_poll_next (se_transport env) w = (Ready (Some m), w') \<Longrightarrow> work w' < work w"
    "se_canceled_poll_recv env w = (Ready (Some i), w') \<Longrightarrow> work w' < work w"
  using assms unfolding server_finite_work_def by blast+

definition server_effort :: "('w \<Rightarrow> nat) \<Rightarrow> ('w, 'q) base_channel \<Rightarrow> nat" where
  "server_effort work b = work (b_world b) + card (base_tracked b)"

lemma base_poll_cancellation_effort:
  assumes fw: "server_finite_work env work" and inv: "base_inv env ent hz W b"
    and r: "base_poll_cancellation env b = Return (st, b')"
  shows "server_effort work b' \<le> server_effort work b \<and> (st = ReceiverReady \<longrightarrow> server_effort work b' < server_effort work b)"
proof -
  obtain c w where c: "se_canceled_poll_recv env (b_world b) = (c, w)" by fastforce
  have "base_tracked b' \<subseteq> base_tracked b" using base_poll_cancellation_law[OF inv] r by simp
  then have card: "card (base_tracked b') \<le> card (base_tracked b)"
    by (intro card_mono) (simp_all add: base_tracked_def)
  have "work w \<le> work (b_world b)" "\<And>i. c = Ready (Some i) \<Longrightarrow> work w < work (b_world b)"
    using server_finite_workD[OF fw] ss_canceled[OF c] c by auto
  moreover have "b_world b' = w" "st = ReceiverReady \<Longrightarrow> \<exists>i. c = Ready (Some i)"
    using r c by (auto simp: base_poll_cancellation_def obind_eq_Return split: poll.splits option.splits)
  ultimately show ?thesis using card by (auto simp: server_effort_def)
qed

lemma base_poll_expiration_effort:
  assumes fw: "server_finite_work env work" and inv: "base_inv env ent hz W b"
    and r: "base_poll_expiration env b = (st, b')"
  shows "server_effort work b' \<le> server_effort work b \<and> (st = ReceiverReady \<longrightarrow> server_effort work b' < server_effort work b)"
proof -
  obtain p f w where p: "srv_poll_expired (se_delay_queue env) (se_abort env) (se_now env (b_world b)) (b_world b)
      (b_in_flight b) = (p, f, w)" by (metis prod_cases3)
  note table = base_invD(2)[OF inv]
  have b': "b' = b\<lparr>b_in_flight := f, b_world := w\<rparr>" using p r by (simp add: base_poll_expiration_def)
  show ?thesis
  proof (cases p rule: poll_option_cases)
    case (Item i)
    from srv_poll_expired_some[OF table p[unfolded Item]] obtain rd where rd: "map_of (srv_request_data (b_in_flight b)) i = Some rd"
      "w = ab_abort (se_abort env) (b_world b) (sd_abort_handle rd)"
      "srv_request_data f = AList.delete i (srv_request_data (b_in_flight b))" by blast
    have "work w \<le> work (b_world b)" using server_finite_workD(1)[OF fw ss_abort[OF rd(2)[symmetric]]] .
    moreover have "i \<in> server_ids (b_in_flight b)" "server_ids f = server_ids (b_in_flight b) - {i}"
      using rd by (simp_all add: server_ids_def map_of_Some_keys)
    then have "card (server_ids f) < card (server_ids (b_in_flight b))"
      by (intro psubset_card_mono) auto
    ultimately show ?thesis using b' by (simp add: server_effort_def base_tracked_def)
  qed (use srv_poll_expired_idle[OF table p] b' p r in
      \<open>auto simp: server_effort_def base_tracked_def server_ids_def base_poll_expiration_def\<close>)
qed

lemma base_start_request_steps:
  assumes b: "base_start_request env b r = Return (res, b')"
  shows "(server_step env)\<^sup>*\<^sup>* (b_world b) (b_world b')"
proof -
  obtain sp w1 where sp: "se_new_span env (b_world b) (set_context (request_context r)) = (sp, w1)" by fastforce
  obtain tc w2 where tc: "(case trace_context_try_from (se_active_span env w1 sp) of Ok c \<Rightarrow> (c, w1)
      | Err _ \<Rightarrow> (let (x, w) = se_random_span_id env w1 in (new_child x (trace_context (request_context r)), w))) = (tc, w2)"
    by fastforce
  have "(server_step env)\<^sup>*\<^sup>* (b_world b) w1" using ss_new_span[OF sp] by auto
  moreover have "(server_step env)\<^sup>*\<^sup>* w1 w2"
    using tc ss_random[of env w1 _ w2] by (auto split: result.splits prod.splits)
  moreover have "(server_step env)\<^sup>*\<^sup>* w2 (b_world b')"
  proof (cases "srv_start_request (se_delay_queue env) (se_abort env) (se_now env w2) w2 (b_in_flight b)
      (id r) (deadline (request_context r)) sp")
    case (Return x)
    obtain start f w3 where x: "x = (start, f, w3)" by (cases x)
    obtain h w4 where h: "ab_new_pair (se_abort env) w2 = (h, w4)" by fastforce
    have "w3 = w2 \<or> w3 = w4"
      using Return x h by (auto simp: srv_start_request_def obind_eq_Return split: option.splits)
    moreover have "b_world b' = w3"
      using Return x b sp tc by (cases start) (auto simp: base_start_request_def Let_def)
    ultimately show ?thesis using ss_new_pair[OF h] by auto
  qed (use b sp tc in \<open>simp_all add: base_start_request_def Let_def\<close>)
  ultimately show ?thesis by simp
qed

lemma base_poll_request_steps:
  assumes "base_poll_request env b = Return (st, b')" "tr_poll_next (se_transport env) (b_world b) = (p, w)"
  shows "(server_step env)\<^sup>*\<^sup>* w (b_world b')"
proof (cases p rule: poll_option_result_cases)
  case (Item m)
  show ?thesis
  proof (cases m)
    case (Request r)
    with assms Item obtain res b1 where s: "base_start_request env (b\<lparr>b_world := w\<rparr>) r = Return (res, b1)"
      and "(case res of Ok t \<Rightarrow> Return (Yield (Ok t), b1) | Err _ \<Rightarrow> Return (Duplicate, b1)) = Return (st, b')"
      by (auto simp: base_poll_request_def obind_eq_Return)
    then have "b1 = b'" by (cases res) auto
    with base_start_request_steps[OF s] show ?thesis by simp
  next
    case (Cancel tc i)
    with assms Item obtain found f w' where c: "srv_cancel_request (se_delay_queue env) (se_abort env) w (b_in_flight b) i = Return (found, f, w')"
      and "b_world b' = w'" by (auto simp: base_poll_request_def obind_eq_Return)
    moreover have "w' = w \<or> (\<exists>h. ab_abort (se_abort env) w h = w')"
      using c by (auto simp: srv_cancel_request_def Let_def obind_eq_Return split: option.splits)
    ultimately show ?thesis by (auto intro: ss_abort)
  qed
qed (use assms in \<open>auto simp: base_poll_request_def\<close>)

lemma base_poll_request_effort:
  assumes fw: "server_finite_work env work" and inv: "base_inv env ent hz W b"
    and r: "base_poll_request env b = Return (st, b')" and st: "\<And>x. st \<noteq> Yield x"
  shows "server_effort work b' \<le> server_effort work b \<and>
    (st = Duplicate \<or> st = Status ReceiverReady \<longrightarrow> server_effort work b' < server_effort work b)"
proof -
  obtain p w where p: "tr_poll_next (se_transport env) (b_world b) = (p, w)" by fastforce
  have "base_tracked b' \<subseteq> base_tracked b"
    using base_poll_request_law[OF inv] r st by (cases st) auto
  then have card: "card (base_tracked b') \<le> card (base_tracked b)"
    by (intro card_mono) (simp_all add: base_tracked_def)
  have w: "work w \<le> work (b_world b)" "\<And>m. p = Ready (Some m) \<Longrightarrow> work w < work (b_world b)"
    using server_finite_workD[OF fw] ss_next[OF p] p by auto
  have steps: "(server_step env)\<^sup>*\<^sup>* w (b_world b')" if "p = Ready (Some x)" for x
    using base_poll_request_steps[OF r p] that by simp
  have le: "work w2 \<le> work w1" if "(server_step env)\<^sup>*\<^sup>* w1 w2" for w1 w2
    using that by (induction rule: rtranclp_induct) (auto dest: server_finite_workD(1)[OF fw])
  show ?thesis
  proof (cases "\<exists>m. p = Ready (Some m)")
    case True
    then obtain m where "p = Ready (Some m)" by blast
    with le[OF steps] w(2) card show ?thesis by (fastforce simp: server_effort_def)
  next
    case False
    then have "b_world b' = w" "st \<noteq> Duplicate" "st \<noteq> Status ReceiverReady"
      using r p by (auto simp: base_poll_request_def split: poll.splits option.splits)
    with w(1) card show ?thesis by (simp add: server_effort_def)
  qed
qed

text \<open>A turn that goes on has used up a message or a tracked request.\<close>

lemma base_poll_next_turn_effort:
  assumes fw: "server_finite_work env work" and inv: "base_inv env ent hz W b"
    and turn: "base_poll_next_turn env b = Return (Continue, b')"
  shows "server_effort work b' < server_effort work b"
proof -
  obtain s1 b1 where s1: "base_poll_cancellation env b = Return (s1, b1)" "base_inv env ent hz W b1"
    using base_poll_cancellation_law[OF inv] by (auto simp: yields_def)
  obtain s2 b2 where s2: "base_poll_expiration env b1 = (s2, b2)" by fastforce
  have inv2: "base_inv env ent hz W b2" using base_poll_expiration_law[OF s1(2) s2] by simp
  obtain s3 b3 where s3: "base_poll_request env b2 = Return (s3, b3)"
    using base_poll_request_law[OF inv2] by (auto simp: yields_def)
  have st: "s3 \<noteq> Yield x" for x using turn s1(1) s2 s3 by (auto simp: base_poll_next_turn_def)
  have b': "b' = b3" and ready: "s3 = Duplicate \<or> (\<exists>s. s3 = Status s \<and> combine (combine s1 s2) s = ReceiverReady)"
    using turn s1(1) s2 s3 st
    by (auto simp: base_poll_next_turn_def split: request_status.splits receiver_status.splits)
  note e1 = base_poll_cancellation_effort[OF fw inv s1(1)]
  note e2 = base_poll_expiration_effort[OF fw s1(2) s2]
  note e3 = base_poll_request_effort[OF fw inv2 s3 st]
  from ready have "s1 = ReceiverReady \<or> s2 = ReceiverReady \<or> s3 = Duplicate \<or> s3 = Status ReceiverReady"
    by (auto simp: combine_eq_Ready)
  with e1 e2 e3 b' show ?thesis by auto
qed

lemma base_poll_next_returns:
  assumes fw: "server_finite_work env work" and inv: "base_inv env ent hz W b" and n: "server_effort work b < n"
  shows "yields (base_poll_next n env b) (\<lambda>(p, b'). base_inv env ent hz W b' \<and> tracks base_tracked b p b')"
proof (rule holds_returns[OF base_poll_next_law[OF inv]])
  show "base_poll_next n env b \<noteq> OutOfFuel"
    unfolding base_poll_next_def
  proof (rule loop_returns[where I = "base_inv env ent hz W" and \<mu> = "server_effort work", OF inv n])
    fix s assume s: "base_inv env ent hz W s"
    show "base_poll_next_turn env s \<noteq> OutOfFuel"
      using base_poll_next_turn_law[OF s] by (auto simp: yields_def)
    fix s' assume "base_poll_next_turn env s = Return (Continue, s')"
    with base_poll_next_turn_law[OF s] base_poll_next_turn_effort[OF fw s] 
    show "base_inv env ent hz W s' \<and> server_effort work s' < server_effort work s" by simp
  qed
qed

end
