(* ===== verification/Server_Theorems.thy ===== *)
theory Server_Theorems
  imports Execute Server_Wire Client_Theorems
begin

text \<open>
  The properties of the server: its in-flight table, \<^verbatim>\<open>BaseChannel\<close>, \<^verbatim>\<open>MaxRequests\<close>, \<^verbatim>\<open>Requests\<close>
  and the execution of handlers, with a scripted environment at which they are applied.
\<close>

section \<open>A scripted environment\<close>

record server_script =
  sv_incoming :: "nat client_message list"
  sv_canceled :: "u64 list"
  sv_responses :: "nat response list"
  sv_log :: "(nat, nat) server_event list"
  sv_handles :: nat
  sv_aborted :: "abort_handle list"

fun waiting_for :: "'a list \<Rightarrow> 'a option poll" where
  "waiting_for [] = Pending"
| "waiting_for (x # xs) = Ready (Some x)"

definition server_script_env :: "(server_script, ref_queue, nat, nat, nat) server_env" where
  "server_script_env =
     \<lparr>se_transport =
        \<lparr>tr_poll_next = (\<lambda>w. let p = poll_map (map_option Ok) (next_of (sv_incoming w)) in
           (p, w\<lparr>sv_incoming := tl (sv_incoming w), sv_log := sv_log w @ read_events p\<rparr>)),
         tr_poll_ready = (\<lambda>w. (Ready (Ok ()), w)),
         tr_start_send = (\<lambda>w r. (Ok (), w\<lparr>sv_log := sv_log w @ [SrvWrote r]\<rparr>)),
         tr_poll_flush = (\<lambda>w. (Ready (Ok ()), w)),
         tr_poll_close = (\<lambda>w. (Ready (Ok ()), w))\<rparr>,
      se_canceled_poll_recv = (\<lambda>w. let p = waiting_for (sv_canceled w) in
         (p, w\<lparr>sv_canceled := tl (sv_canceled w), sv_log := sv_log w @ guard_events p\<rparr>)),
      se_abort = \<lparr>ab_new_pair = (\<lambda>w. (sv_handles w, w\<lparr>sv_handles := Suc (sv_handles w)\<rparr>)),
                  ab_abort = (\<lambda>w h. w\<lparr>sv_aborted := h # sv_aborted w\<rparr>)\<rparr>,
      se_now = (\<lambda>w. 0),
      se_new_span = (\<lambda>w c. (0, w)),
      se_active_span = (\<lambda>w sp. None),
      se_random_span_id = (\<lambda>w. (9, w)),
      se_delay_queue = ref_delay_queue\<rparr>"

fun message_deadline :: "'req client_message \<Rightarrow> instant" where
  "message_deadline (Request r) = request_deadline r"
| "message_deadline (Cancel tc i) = 0"

definition server_script_ok :: "server_script \<Rightarrow> bool" where
  "server_script_ok w \<longleftrightarrow> (\<forall>m \<in> set (sv_incoming w). message_deadline m \<le> 100)"

definition server_script_work :: "server_script \<Rightarrow> nat" where
  "server_script_work w = length (sv_incoming w) + length (sv_canceled w)"

lemma waiting_for_eq [simp]: "waiting_for xs = Ready (Some x) \<longleftrightarrow> (\<exists>ys. xs = x # ys)"
  by (cases xs) auto

lemma server_script_step:
  "server_step server_script_env w w' \<Longrightarrow>
   (sv_incoming w' = tl (sv_incoming w) \<or> sv_incoming w' = sv_incoming w) \<and>
   (sv_canceled w' = tl (sv_canceled w) \<or> sv_canceled w' = sv_canceled w)"
  by (induction rule: server_step.induct) (auto simp: server_script_env_def Let_def)

lemma server_script_responses: "server_step server_script_env w w' \<Longrightarrow> sv_responses w' = sv_responses w"
  by (induction rule: server_step.induct) (auto simp: server_script_env_def Let_def)

lemma server_script_laws: "server_env_laws server_script_env server_script_ok 100"
  unfolding server_env_laws_def
proof (intro conjI allI impI)
  fix w w' assume "server_script_ok w" "server_step server_script_env w w'"
  with server_script_step[of w w'] show "server_script_ok w'"
    by (cases "sv_incoming w") (auto simp: server_script_ok_def)
next
  fix w r w' assume ok: "server_script_ok w"
    and "tr_poll_next (se_transport server_script_env) w = (Ready (Some (Ok (Request r))), w')"
  then have "Request r \<in> set (sv_incoming w)"
    by (cases "sv_incoming w") (auto simp: server_script_env_def Let_def)
  with ok show "request_deadline r \<le> 100" by (force simp: server_script_ok_def)
qed (simp add: server_script_env_def)

lemma server_script_finite: "server_finite_work server_script_env server_script_work"
proof -
  have "server_script_work w' \<le> server_script_work w" if "server_step server_script_env w w'" for w w'
    using server_script_step[OF that] by (auto simp: server_script_work_def)
  moreover have "server_script_work w' < server_script_work w"
    if "tr_poll_next (se_transport server_script_env) w = (Ready (Some m), w')" for w m w'
    using that by (cases "sv_incoming w") (auto simp: server_script_env_def server_script_work_def Let_def)
  moreover have "server_script_work w' < server_script_work w"
    if "se_canceled_poll_recv server_script_env w = (Ready (Some i), w')" for w i w'
    using that by (auto simp: server_script_env_def server_script_work_def Let_def)
  ultimately show ?thesis unfolding server_finite_work_def by blast
qed

lemma server_script_logged: "server_logged server_script_env sv_log"
  by (simp add: server_logged_def logs_def server_script_env_def Let_def)

text \<open>A request, a duplicate of it, a second request and a cancellation of the first.\<close>

definition sample_call :: "u64 \<Rightarrow> nat request" where
  "sample_call i = \<lparr>request_context = sample_context, id = i, message = 5\<rparr>"

definition sample_server_script :: server_script where
  "sample_server_script =
     \<lparr>sv_incoming = [Request (sample_call 1), Request (sample_call 1), Request (sample_call 2),
        Cancel (trace_context sample_context) 1],
      sv_canceled = [], sv_responses = [], sv_log = [], sv_handles = 0, sv_aborted = []\<rparr>"

abbreviation sample_channel :: "(server_script, ref_queue) base_channel" where
  "sample_channel \<equiv> base_channel_new ref_delay_queue server_config_default sample_server_script"

lemma sample_server_script_ok: "server_script_ok sample_server_script"
  by (simp add: server_script_ok_def sample_server_script_def sample_call_def sample_context_def request_deadline_def)

lemma sample_server_script_log: "sv_log sample_server_script = []"
  by (simp add: sample_server_script_def)

lemma server_script_queue: "se_delay_queue server_script_env = ref_delay_queue"
  by (simp add: server_script_env_def)

lemma sample_channel_inv: "base_inv server_script_env map_of 100 server_script_ok sample_channel"
  and sample_channel_tracked: "base_tracked sample_channel = {}"
  using base_channel_new_inv[of server_script_env map_of 100 server_script_ok sample_server_script server_config_default]
    ref_delay_queue_laws server_script_laws sample_server_script_ok
  by (simp_all add: server_script_env_def)

lemma sample_channel_effort: "server_effort server_script_work sample_channel < 10"
  by (simp add: server_effort_def base_tracked_def base_channel_new_def server_script_work_def sample_server_script_def)

section \<open>The base channel\<close>

text \<open>C16: \<^verbatim>\<open>BaseChannel::poll_next\<close> returns, without panicking, whenever only finitely many messages
  arrive during it, and says what it did to the tracked requests: a request that it yields is
  tracked, with a response guard for its id; nothing else is added; and it ends the stream only
  when no request is tracked.  The invariant demands of the requests that arrive that their deadlines
  are within what the delay queue accepts.\<close>

theorem base_poll_next_total:
  assumes "base_inv env ent hz W b" "server_finite_work env work" "server_effort work b < n"
  shows "yields (base_poll_next n env b) (\<lambda>(p, b'). base_inv env ent hz W b' \<and>
    (case p of
       Pending \<Rightarrow> base_tracked b' \<subseteq> base_tracked b
     | Ready None \<Rightarrow> base_tracked b' = {}
     | Ready (Some (Err e)) \<Rightarrow> base_tracked b' \<subseteq> base_tracked b
     | Ready (Some (Ok t)) \<Rightarrow>
         id (tk_request t) \<in> base_tracked b' \<and> base_tracked b' \<subseteq> insert (id (tk_request t)) (base_tracked b) \<and>
         tk_response_guard t = \<lparr>rg_request_id = id (tk_request t), rg_cancel = False\<rparr>))"
  using base_poll_next_returns[OF assms(2,1,3)] by (simp add: tracks_def)

theorem base_poll_next_total_witness:
  "yields (base_poll_next 10 server_script_env sample_channel) (\<lambda>(p, b').
     base_inv server_script_env map_of 100 server_script_ok b')"
  by (rule yields_mono[OF base_poll_next_total[OF sample_channel_inv server_script_finite sample_channel_effort]]) auto

text \<open>A request that is not tracked yet is started: its id, message and deadline are kept, it is
  tracked from then on, and its guard is for its id.  A request with the id of a tracked one is
  refused and the table stays as it is.\<close>

theorem base_start_request_exact:
  assumes "base_inv env ent hz W b" "request_deadline r \<le> hz"
  shows "yields (base_start_request env b r) (\<lambda>(res, b'). base_inv env ent hz W b' \<and>
    (case res of
       Ok t \<Rightarrow> id r \<notin> base_tracked b \<and> base_tracked b' = insert (id r) (base_tracked b) \<and>
         id (tk_request t) = id r \<and> message (tk_request t) = message r \<and>
         deadline (request_context (tk_request t)) = deadline (request_context r) \<and>
         tk_response_guard t = \<lparr>rg_request_id = id r, rg_cancel = False\<rparr>
     | Err _ \<Rightarrow> id r \<in> base_tracked b \<and> b_in_flight b' = b_in_flight b))"
  by (rule base_start_request_law[OF assms])

theorem base_start_request_exact_witness:
  "yields (base_start_request server_script_env sample_channel (sample_call 1)) (\<lambda>(res, b').
     case res of Ok t \<Rightarrow> base_tracked b' = {1} | Err _ \<Rightarrow> False)"
proof -
  have "request_deadline (sample_call 1) \<le> 100"
    by (simp add: sample_call_def sample_context_def request_deadline_def)
  note start = base_start_request_exact[OF sample_channel_inv this]
  show ?thesis
  proof (rule yields_mono[OF start], goal_cases)
    case (1 x)
    then show ?case by (cases x; cases "fst x") (auto simp: sample_channel_tracked sample_call_def)
  qed
qed

lemma base_start_send_result:
  assumes "base_inv env ent hz W b"
  shows "yields (base_start_send env b r) (\<lambda>(res, b'). base_inv env ent hz W b' \<and>
    base_tracked b' = base_tracked b - {request_id r} \<and>
    (if request_id r \<in> base_tracked b
     then (map_err ErrWrite (fst (tr_start_send (se_transport env) (b_world b) r)), b_world b') =
          (res, snd (tr_start_send (se_transport env) (b_world b) r))
     else res = Ok () \<and> b_world b' = b_world b))"
proof -
  obtain sp f where f: "srv_remove_request (se_delay_queue env) (b_in_flight b) (request_id r) = Return (sp, f)"
    "sp = map_option sd_span (map_of (srv_request_data (b_in_flight b)) (request_id r))"
    using srv_remove_request_result[OF base_invD(2)[OF assms], of "request_id r"] by (auto simp: yields_def)
  have "sp = None \<longleftrightarrow> request_id r \<notin> base_tracked b"
    using f(2) by (simp add: base_tracked_def server_ids_def map_of_eq_None_keys)
  then have sp: "(case sp of Some _ \<Rightarrow> request_id r \<in> base_tracked b | None \<Rightarrow> request_id r \<notin> base_tracked b)"
    by (cases sp) simp_all
  obtain res w where s: "tr_start_send (se_transport env) (b_world b) r = (res, w)" by fastforce
  from base_start_send_law[OF assms, of r] f(1) s sp show ?thesis
    by (cases sp) (simp_all add: base_start_send_def)
qed

text \<open>C38: \<^verbatim>\<open>BaseChannel::start_send\<close> hands a response to the transport exactly if its request is
  tracked, and answers what the transport answers; a response to any other request is dropped
  with \<^verbatim>\<open>Ok\<close>.  Afterwards the request is not tracked.\<close>

theorem base_start_send_exact:
  assumes "base_inv env ent hz W b"
  shows "yields (base_start_send env b r) (\<lambda>(res, b'). base_inv env ent hz W b' \<and>
    base_tracked b' = base_tracked b - {request_id r} \<and>
    (if request_id r \<in> base_tracked b
     then (map_err ErrWrite (fst (tr_start_send (se_transport env) (b_world b) r)), b_world b') =
          (res, snd (tr_start_send (se_transport env) (b_world b) r))
     else res = Ok () \<and> b_world b' = b_world b))"
  by (rule base_start_send_result[OF assms])

theorem base_start_send_exact_witness:
  "yields (base_start_send server_script_env sample_channel \<lparr>request_id = 3, response_message = Ok 4\<rparr>)
     (\<lambda>(res, b'). res = Ok () \<and> b_world b' = b_world sample_channel)"
  by (rule yields_mono[OF base_start_send_exact[OF sample_channel_inv]]) (auto simp: sample_channel_tracked)

text \<open>C5: Over the whole life of a channel, whatever its owner calls in whatever order and whatever
  other tasks do in between, every response that is handed to the transport answers a request
  that was read, that was not answered since, and that neither the peer nor the response guard
  has canceled since.  Nothing panics, the deadlines of arriving requests being within what the delay
  queue accepts.\<close>

theorem channel_life_answers_once:
  assumes "delay_queue_laws (se_delay_queue env) ent hz" "server_env_laws env W hz" "server_logged env log"
    "W w" "log w = []" "outside_keeps W log calls"
  shows "holds (channel_life env calls (base_channel_new (se_delay_queue env) config w))
    (\<lambda>b. srv_answers {} (log (b_world b)) \<and> base_tracked b \<subseteq> srv_opens {} (log (b_world b)))"
proof -
  have "answering env ent hz W log (base_channel_new (se_delay_queue env) config w)"
    using assms base_channel_new_inv[OF assms(1,2,4), of config]
    by (simp add: answering_def) (simp add: base_channel_new_def)
  from channel_life_answers[OF this assms(6)] show ?thesis
    by (rule holds_mono) (simp add: answering_def)
qed

theorem channel_life_answers_once_witness:
  "holds (channel_life server_script_env
      [CallNext 9, CallNext 9, CallSend \<lparr>request_id = 1, response_message = Ok 6\<rparr>,
       CallSend \<lparr>request_id = 1, response_message = Ok 7\<rparr>, CallNext 9]
      (base_channel_new (se_delay_queue server_script_env) server_config_default sample_server_script))
    (\<lambda>b. srv_answers {} (sv_log (b_world b)) \<and> base_tracked b \<subseteq> srv_opens {} (sv_log (b_world b)))"
  by (rule channel_life_answers_once[where ent = map_of and hz = 100 and W = server_script_ok])
    (simp_all add: server_script_laws server_script_logged sample_server_script_ok outside_keeps_def
      server_script_queue ref_delay_queue_laws sample_server_script_log)

section \<open>Limits\<close>

text \<open>C13: \<^verbatim>\<open>MaxRequests\<close> over a base channel keeps the channel's contract, and never yields a
  request when that would put more requests in flight than its limit; a poll that yields nothing
  leaves no more in flight than before, or than the limit.  It does not panic, the deadlines of arriving
  requests being within what the delay queue accepts.\<close>

theorem max_requests_limits_base:
  assumes "base_inv env ent hz W (mr_inner m)"
  shows "holds (max_requests_poll_next k (base_channel_ops n env) m) (\<lambda>(p, m').
    base_inv env ent hz W (mr_inner m') \<and> mr_max_in_flight_requests m' = mr_max_in_flight_requests m \<and>
    card (base_tracked (mr_inner m')) \<le>
      (case p of
         Ready (Some (Ok _)) \<Rightarrow> mr_max_in_flight_requests m
       | _ \<Rightarrow> max (card (base_tracked (mr_inner m))) (mr_max_in_flight_requests m)))"
proof (rule holds_mono[OF base.max_requests_poll_next_law[OF assms]], goal_cases)
  case (1 x)
  obtain p m' where x: "x = (p, m')" by (cases x)
  with 1 assms have "base_inv env ent hz W (mr_inner m')" "within_limit (base_channel_ops n env) m p m'" by simp_all
  with assms base.in_flight_card[of env ent hz W _ n] x show ?case
    by (cases p rule: poll_option_result_cases) (simp_all add: within_limit_def)
qed

theorem max_requests_limits_base_witness:
  "holds (max_requests_poll_next 9 (base_channel_ops 9 server_script_env) (max_requests_new sample_channel 1)) (\<lambda>(p, m').
     card (base_tracked (mr_inner m')) \<le> 1)"
proof -
  have "base_inv server_script_env map_of 100 server_script_ok (mr_inner (max_requests_new sample_channel 1))"
    using sample_channel_inv by (simp add: max_requests_new_def)
  from max_requests_limits_base[OF this, of 9 9] show ?thesis
    by (rule holds_mono)
      (auto simp: max_requests_new_def sample_channel_tracked split: poll.splits option.splits result.splits)
qed

text \<open>C21: At its limit, \<^verbatim>\<open>MaxRequests\<close> answers the request it reads itself: when the transport is ready
  and the base channel yields a request, a response with its id and the error \<^verbatim>\<open>WouldBlock\<close>,
  ``server throttled the request.'', is handed to the transport, the request is not tracked any
  more, and the loop goes on unless the write fails.\<close>

theorem max_requests_throttles_base:
  assumes "base_inv env ent hz W (mr_inner m)"
    and full: "mr_max_in_flight_requests m \<le> card (base_tracked (mr_inner m))"
    and ready: "base_poll_ready env (mr_inner m) = (Ready (Ok ()), b1)"
    and got: "base_poll_next n env b1 = Return (Ready (Some (Ok t)), b2)"
    and sent: "tr_start_send (se_transport env) (b_world b2)
      \<lparr>request_id = id (tk_request t),
       response_message = Err \<lparr>kind = WouldBlock, detail = ''server throttled the request.''\<rparr>\<rparr> = (res, w)"
  shows "yields (max_requests_turn (base_channel_ops n env) m) (\<lambda>(c, m').
    b_world (mr_inner m') = w \<and> id (tk_request t) \<notin> base_tracked (mr_inner m') \<and>
    c = (case res of Ok _ \<Rightarrow> Continue | Err e \<Rightarrow> Break (Ready (Some (Err (ErrWrite e))))))"
proof -
  let ?ch = "base_channel_ops n env"
  let ?refusal = "\<lparr>request_id = id (tk_request t),
    response_message = Err \<lparr>kind = WouldBlock, detail = ''server throttled the request.''\<rparr>\<rparr>"
  have in_flight: "ch_in_flight_requests ?ch (mr_inner m) \<ge> mr_max_in_flight_requests m"
    using full base.in_flight_card[OF assms(1), of n] by simp
  have b1: "base_inv env ent hz W b1" using base.poll_ready_law[OF assms(1), of n] ready by (simp add: base_channel_ops_def)
  from base_poll_next_law[OF b1, of n] got have b2: "base_inv env ent hz W b2" "id (tk_request t) \<in> base_tracked b2"
    by simp_all
  from base_start_send_result[OF b2(1), of ?refusal] b2(2) sent obtain b3
    where "base_start_send env b2 ?refusal = Return (map_err ErrWrite res, b3)" "b_world b3 = w"
      "base_tracked b3 = base_tracked b2 - {id (tk_request t)}"
    by (auto simp: yields_def)
  with in_flight ready got show ?thesis
    by (cases res) (simp_all add: max_requests_turn_def base_channel_ops_def throttle_response_def)
qed

lemma sample_channel_yields:
  "\<exists>t b. base_poll_next 9 server_script_env sample_channel = Return (Ready (Some (Ok t)), b)"
proof -
  have "case base_poll_next 9 server_script_env sample_channel of Return (Ready (Some (Ok t)), b) \<Rightarrow> True | _ \<Rightarrow> False"
    by code_simp
  then obtain p b where r: "base_poll_next 9 server_script_env sample_channel = Return (p, b)"
    and "case p of Ready (Some (Ok t)) \<Rightarrow> True | _ \<Rightarrow> False"
    by (cases "base_poll_next 9 server_script_env sample_channel") auto
  then show ?thesis by (cases p rule: poll_option_result_cases) auto
qed

theorem max_requests_throttles_base_witness:
  "\<exists>t b. base_poll_next 9 server_script_env sample_channel = Return (Ready (Some (Ok t)), b) \<and>
     yields (max_requests_turn (base_channel_ops 9 server_script_env) (max_requests_new sample_channel 0)) (\<lambda>(c, m').
       sv_log (b_world (mr_inner m')) = sv_log (b_world b) @ [SrvWrote \<lparr>request_id = id (tk_request t),
         response_message = Err \<lparr>kind = WouldBlock, detail = ''server throttled the request.''\<rparr>\<rparr>] \<and>
       id (tk_request t) \<notin> base_tracked (mr_inner m') \<and> c = Continue)"
proof -
  obtain t b where got: "base_poll_next 9 server_script_env sample_channel = Return (Ready (Some (Ok t)), b)"
    using sample_channel_yields by blast
  let ?m = "max_requests_new sample_channel 0"
  have m: "mr_inner ?m = sample_channel" "mr_max_in_flight_requests ?m = 0" by (simp_all add: max_requests_new_def)
  have ready: "base_poll_ready server_script_env (mr_inner ?m) = (Ready (Ok ()), sample_channel)"
    unfolding m by (simp add: base_poll_ready_def server_script_env_def)
  have send: "tr_start_send (se_transport server_script_env) w r = (Ok (), w\<lparr>sv_log := sv_log w @ [SrvWrote r]\<rparr>)" for w r
    by (simp add: server_script_env_def)
  have inv: "base_inv server_script_env map_of 100 server_script_ok (mr_inner ?m)"
    unfolding m by (rule sample_channel_inv)
  have full: "mr_max_in_flight_requests ?m \<le> card (base_tracked (mr_inner ?m))" by (simp add: m)
  from yields_mono[OF max_requests_throttles_base[OF inv full ready got send]] got show ?thesis
    by (intro exI conjI) auto
qed

section \<open>Requests and handlers\<close>

definition sample_recv :: "server_script \<Rightarrow> nat response option poll \<times> server_script" where
  "sample_recv w = (waiting_for (sv_responses w), w\<lparr>sv_responses := tl (sv_responses w)\<rparr>)"

definition sample_cancel :: "server_script \<Rightarrow> u64 \<Rightarrow> server_script" where
  "sample_cancel w i = w\<lparr>sv_canceled := sv_canceled w @ [i]\<rparr>"

lemma receivable_limited:
  assumes "receivable (\<lambda>m. base_inv env ent hz W (mr_inner m) \<and> P) (limited_recv poll_recv) i"
  shows "\<exists>w resp w'. W w \<and> poll_recv w = (Ready (Some resp), w') \<and> request_id resp = i"
  using assms by (auto simp: receivable_def limited_recv_def base_recv_def base_inv_def Let_def split: prod.splits)

text \<open>C15: The stream of requests over a limited base channel does not panic.  A request that it hands
  out carries an armed guard for its id, and it is tracked unless a response to that id can be
  received from the handlers, which the same poll may have written; nothing else is tracked that
  was not tracked, except for one request when the poll fails; and the stream ends only when
  nothing is tracked, so that no request is abandoned.  The deadlines of arriving requests are
  within what the delay queue accepts.\<close>

theorem requests_stream_tracks:
  assumes "base_inv env ent hz W (mr_inner m)" "recv_keeps W poll_recv send_cancel"
  shows "holds (requests_poll_next j (max_requests_ops k (base_channel_ops n env)) (limited_recv poll_recv)
      (limited_cancel send_cancel) m)
    (\<lambda>(p, m'). base_inv env ent hz W (mr_inner m') \<and>
      (case p of
         Pending \<Rightarrow> base_tracked (mr_inner m') \<subseteq> base_tracked (mr_inner m)
       | Ready None \<Rightarrow> base_tracked (mr_inner m') = {}
       | Ready (Some (Err e)) \<Rightarrow> (\<exists>i. base_tracked (mr_inner m') \<subseteq> insert i (base_tracked (mr_inner m)))
       | Ready (Some (Ok r)) \<Rightarrow>
           (id (if_request r) \<in> base_tracked (mr_inner m') \<or>
            (\<exists>w resp w'. W w \<and> poll_recv w = (Ready (Some resp), w') \<and> request_id resp = id (if_request r))) \<and>
           base_tracked (mr_inner m') \<subseteq> insert (id (if_request r)) (base_tracked (mr_inner m)) \<and>
           if_response_guard r = \<lparr>rg_request_id = id (if_request r), rg_cancel = True\<rparr>))"
proof (rule holds_mono[OF holds_conj[OF requests_limited.requests_poll_next_law[OF conjI[OF assms]]
      requests_limited.requests_poll_next_tracked[OF conjI[OF assms]]]], goal_cases)
  case (1 x)
  then show ?case
    by (cases x; cases "fst x" rule: poll_option_result_cases) (auto dest!: receivable_limited)
qed

text \<open>Nothing is queued by the handlers, so that the request that is handed out is tracked.\<close>

definition server_script_silent :: "server_script \<Rightarrow> bool" where
  "server_script_silent w \<longleftrightarrow> server_script_ok w \<and> sv_responses w = []"

lemma server_script_silent_laws: "server_env_laws server_script_env server_script_silent 100"
  using server_script_laws server_script_responses
  unfolding server_env_laws_def server_script_silent_def by (metis (no_types, lifting))

theorem requests_stream_tracks_witness:
  "case requests_poll_next 9 (max_requests_ops 9 (base_channel_ops 9 server_script_env)) (limited_recv sample_recv)
      (limited_cancel sample_cancel) (max_requests_new sample_channel 1) of
     Return (Ready (Some (Ok r)), m') \<Rightarrow> id (if_request r) = 1 \<and> 1 \<in> base_tracked (mr_inner m') \<and>
       if_response_guard r = \<lparr>rg_request_id = 1, rg_cancel = True\<rparr>
   | _ \<Rightarrow> False"
  (is "case ?run of Return (Ready (Some (Ok r)), m') \<Rightarrow> ?P r m' | _ \<Rightarrow> False")
proof -
  have "base_inv server_script_env map_of 100 server_script_silent (mr_inner (max_requests_new sample_channel 1))"
    using base_channel_new_inv[of server_script_env map_of 100 server_script_silent sample_server_script server_config_default]
      ref_delay_queue_laws server_script_silent_laws sample_server_script_ok
    by (simp add: max_requests_new_def server_script_silent_def server_script_queue) (simp add: sample_server_script_def)
  moreover have "recv_keeps server_script_silent sample_recv sample_cancel"
    by (simp add: recv_keeps_def sample_recv_def sample_cancel_def server_script_silent_def server_script_ok_def)
  moreover have "\<nexists>w resp w'. server_script_silent w \<and> sample_recv w = (Ready (Some resp), w')"
    by (auto simp: server_script_silent_def sample_recv_def)
  moreover have "case ?run of Return (Ready (Some (Ok r)), m') \<Rightarrow> id (if_request r) = 1 | _ \<Rightarrow> False" by code_simp
  ultimately show ?thesis
    using requests_stream_tracks[of server_script_env map_of 100 server_script_silent "max_requests_new sample_channel 1"
        sample_recv sample_cancel 9 9 9]
    by (cases ?run) (fastforce split: poll.splits option.splits result.splits)+
qed

text \<open>A handler environment that logs what is sent and canceled; the service doubles its argument.\<close>

definition handler_env :: "(nat exec_event list \<times> abort_handle list, nat, nat) exec_env" where
  "handler_env =
     \<lparr>ex_serve = (\<lambda>c m w. (Ready (Ok (2 * m)), w)),
      ex_send_poll = (\<lambda>r (log, ab). (Ready True, log @ [SendPolled r (Ready True)], ab)),
      ex_cancel = (\<lambda>(log, ab) i. (log @ [GuardCanceled i], ab)),
      ex_is_aborted = (\<lambda>w h. h \<in> set (snd w)),
      ex_abortable = (\<lambda>body h pw.
        if h \<in> set (snd (snd pw)) then (Ready (Err Aborted), pw)
        else case body pw of (Ready u, pw') \<Rightarrow> (Ready (Ok u), pw') | (Pending, pw') \<Rightarrow> (Pending, pw'))\<rparr>"

lemma handler_env_laws: "abortable_laws handler_env"
  by (auto simp: abortable_laws_def handler_env_def split: prod.splits poll.splits)

lemma handler_env_logged: "logged handler_env fst"
  by (simp add: logged_def handler_env_def split: prod.splits)

definition sample_handler :: "nat in_flight_request" where
  "sample_handler = \<lparr>if_request = sample_call 1, if_abort_registration = 3, if_span = 0,
     if_response_guard = \<lparr>rg_request_id = 1, rg_cancel = True\<rparr>\<rparr>"

text \<open>C14: A handler, however often it is polled and whenever its executor drops it, sends at most one
  response, all of whose polls but the last are pending, and it is for its own request.  It
  cancels its request exactly if it is dropped before it is done, and then after everything else.\<close>

theorem execution_life_responds_once:
  assumes "abortable_laws env" "logged env log" "outside_quiet log polls"
    and "if_response_guard r = \<lparr>rg_request_id = id (if_request r), rg_cancel = True\<rparr>"
    and "execution_life env polls (execution_start r) w = (finished, w')"
  shows "\<exists>evs. log w' = log w @ evs @ (if finished then [] else [GuardCanceled (id (if_request r))]) \<and>
    (evs = [] \<or> (\<exists>resp pending p. evs = pending @ [SendPolled resp p] \<and> request_id resp = id (if_request r) \<and>
       set pending \<subseteq> {SendPolled resp Pending}))"
  using execution_life_events[OF assms(1-3), of w "log w" "[]" "execution_start r" finished w'] assms(4,5)
  by (fastforce simp: sending_def sent_def execution_start_def)

theorem execution_life_responds_once_witness:
  "\<exists>evs. fst (snd (execution_life handler_env [\<lambda>w. w] (execution_start sample_handler) ([], []))) = [] @ evs @ [] \<and>
    (evs = [] \<or> (\<exists>resp pending p. evs = pending @ [SendPolled resp p] \<and> request_id resp = 1 \<and>
       set pending \<subseteq> {SendPolled resp Pending}))"
  using execution_life_responds_once[OF handler_env_laws handler_env_logged, of "[\<lambda>w. w]" sample_handler "([], [])"
      True "([SendPolled \<lparr>request_id = 1, response_message = Ok 10\<rparr> (Ready True)], [])"]
  by (simp add: outside_quiet_def sample_handler_def sample_call_def execution_start_def execute_poll_def
      handler_env_def execute_send_def response_guard_drop_def)

text \<open>A handler whose request was canceled or has expired before it is polled is not run at all:
  nothing is sent, its guard is disarmed, and no cancellation is reported.\<close>

theorem execution_of_aborted:
  assumes "abortable_laws env" "ex_is_aborted env (outside w) (if_abort_registration r)"
  shows "execution_life env (outside # polls) (execution_start r) w = (True, outside w)"
  using assms by (rule execution_aborted)

theorem execution_of_aborted_witness:
  "execution_life handler_env ((\<lambda>(log, ab). (log, 3 # ab)) # []) (execution_start sample_handler) ([], []) = (True, ([], [3]))"
  using execution_of_aborted[OF handler_env_laws, of "\<lambda>(log, ab). (log, 3 # ab)" "([], [])" sample_handler "[]"]
  by (simp add: sample_handler_def handler_env_def)

end
