(* ===== verification/Server_Panics.thy ===== *)
theory Server_Panics
  imports Server_Theorems
begin

text \<open>
  When a server channel panics.  The other theories of the server assume that the deadlines of
  arriving requests are within what the delay queue accepts; here nothing is assumed of the
  peer, the clock or the transport.  \<^verbatim>\<open>DelayQueue::insert\<close> is documented to panic on a timeout
  that is too far in the future, which is a \<open>None\<close> of \<open>dq_insert\<close>.
\<close>

section \<open>Requests that the delay queue refuses\<close>




section \<open>The steps of a turn\<close>







section \<open>Properties\<close>








end
