(* ===== verification/Channels_Per_Key.thy ===== *)
theory Channels_Per_Key
  imports Runtime
begin

text \<open>
  \<^verbatim>\<open>tarpc/src/server/limits/channels_per_key.rs\<close>: a listener that limits the channels that are
  open for each key.  All channels of a key share a \<^verbatim>\<open>Tracker\<close> through an \<^verbatim>\<open>Arc\<close>; the map holds
  a \<^verbatim>\<open>Weak\<close> to it, and a tracker whose last channel is dropped sends its key to the listener.
\<close>

section \<open>State\<close>

text \<open>A tracker is named by its allocation, with its strong count in \<open>mc_strong\<close>; the \<^verbatim>\<open>Weak\<close> of a
  key is the name.  \<open>mc_fresh\<close> is the next allocation.\<close>

type_synonym tracker = nat

record ('w, 'c, 'k) channels_env =
  mk_listener_poll_next :: "'w \<Rightarrow> 'c option poll \<times> 'w"
  mk_dropped_poll_recv :: "'w \<Rightarrow> 'k option poll \<times> 'w"
  mk_dropped_send :: "'w \<Rightarrow> 'k \<Rightarrow> 'w"
  mk_keymaker :: "'c \<Rightarrow> 'k"

record ('w, 'k) max_channels =
  mc_world :: 'w
  mc_channels_per_key :: "32 word"
  mc_key_counts :: "('k \<times> tracker) list"
  mc_strong :: "tracker \<Rightarrow> nat"
  mc_fresh :: tracker

record ('c, 'k) tracked_channel =
  tc_inner :: 'c
  tc_tracker :: tracker
  tc_key :: 'k

definition max_channels_new :: "32 word \<Rightarrow> 'w \<Rightarrow> ('w, 'k) max_channels" where
  "max_channels_new limit w =
     \<lparr>mc_world = w, mc_channels_per_key = limit, mc_key_counts = [], mc_strong = (\<lambda>_. 0), mc_fresh = 0\<rparr>"

section \<open>Operations\<close>

text \<open>\<^verbatim>\<open>Arc::new(Tracker)\<close> with its \<^verbatim>\<open>Weak\<close> stored under the key.\<close>

definition new_tracker :: "'k \<Rightarrow> ('w, 'k) max_channels \<Rightarrow> tracker \<times> ('w, 'k) max_channels" where
  "new_tracker key mc =
     (mc_fresh mc,
      mc\<lparr>mc_key_counts := AList.update key (mc_fresh mc) (mc_key_counts mc),
         mc_strong := (mc_strong mc)(mc_fresh mc := 1), mc_fresh := Suc (mc_fresh mc)\<rparr>)"

definition increment_channels_for_key ::
  "'k \<Rightarrow> ('w, 'k) max_channels \<Rightarrow> (tracker, 'k) result \<times> ('w, 'k) max_channels" where
  "increment_channels_for_key key mc =
     (case map_of (mc_key_counts mc) key of
        None \<Rightarrow> (let (t, mc) = new_tracker key mc in (Ok t, mc))
      | Some t \<Rightarrow>
          if mc_strong mc t \<ge> unat (mc_channels_per_key mc) then (Err key, mc)
          else if mc_strong mc t > 0 then
            (Ok t, mc\<lparr>mc_strong := (mc_strong mc)(t := Suc (mc_strong mc t))\<rparr>)
          else (let (t, mc) = new_tracker key mc in (Ok t, mc)))"

definition handle_new_channel ::
  "('w, 'c, 'k) channels_env \<Rightarrow> 'c \<Rightarrow> ('w, 'k) max_channels \<Rightarrow>
   (('c, 'k) tracked_channel, 'k) result \<times> ('w, 'k) max_channels" where
  "handle_new_channel env stream mc =
     (let key = mk_keymaker env stream in
      case increment_channels_for_key key mc of
        (Err k, mc) \<Rightarrow> (Err k, mc)
      | (Ok t, mc) \<Rightarrow> (Ok \<lparr>tc_inner = stream, tc_tracker = t, tc_key = key\<rparr>, mc))"

definition poll_listener ::
  "('w, 'c, 'k) channels_env \<Rightarrow> ('w, 'k) max_channels \<Rightarrow>
   (('c, 'k) tracked_channel, 'k) result option poll \<times> ('w, 'k) max_channels" where
  "poll_listener env mc =
     (case mk_listener_poll_next env (mc_world mc) of
        (Pending, w) \<Rightarrow> (Pending, mc\<lparr>mc_world := w\<rparr>)
      | (Ready (Some codec), w) \<Rightarrow>
          (let (r, mc) = handle_new_channel env codec (mc\<lparr>mc_world := w\<rparr>) in (Ready (Some r), mc))
      | (Ready None, w) \<Rightarrow> (Ready None, mc\<lparr>mc_world := w\<rparr>))"

definition poll_closed_channels ::
  "('w, 'c, 'k) channels_env \<Rightarrow> ('w, 'k) max_channels \<Rightarrow> (unit poll \<times> ('w, 'k) max_channels) outcome" where
  "poll_closed_channels env mc =
     (case mk_dropped_poll_recv env (mc_world mc) of
        (Pending, w) \<Rightarrow> Return (Pending, mc\<lparr>mc_world := w\<rparr>)
      | (Ready (Some key), w) \<Rightarrow>
          Return (Ready (), mc\<lparr>mc_world := w, mc_key_counts := AList.delete key (mc_key_counts mc)\<rparr>)
      | (Ready None, w) \<Rightarrow> Panic)"

definition max_channels_turn ::
  "('w, 'c, 'k) channels_env \<Rightarrow> ('w, 'k) max_channels \<Rightarrow>
   (('c, 'k) tracked_channel option poll control \<times> ('w, 'k) max_channels) outcome" where
  "max_channels_turn env mc =
     (case poll_listener env mc of (l, mc) \<Rightarrow>
        obind (poll_closed_channels env mc) (\<lambda>(c, mc).
          Return (case (l, c) of
              (Ready (Some (Ok channel)), _) \<Rightarrow> Break (Ready (Some channel))
            | (Ready (Some (Err _)), _) \<Rightarrow> Continue
            | (_, Ready _) \<Rightarrow> Continue
            | (Pending, Pending) \<Rightarrow> Break Pending
            | (Ready None, Pending) \<Rightarrow> Break (Ready None), mc)))"

definition max_channels_poll_next ::
  "nat \<Rightarrow> ('w, 'c, 'k) channels_env \<Rightarrow> ('w, 'k) max_channels \<Rightarrow>
   (('c, 'k) tracked_channel option poll \<times> ('w, 'k) max_channels) outcome" where
  "max_channels_poll_next n env = loop n (max_channels_turn env)"

text \<open>Dropping a channel drops its \<^verbatim>\<open>Arc\<close>; the last one runs \<^verbatim>\<open>impl Drop for Tracker\<close>.\<close>

definition tracked_channel_drop ::
  "('w, 'c, 'k) channels_env \<Rightarrow> ('c, 'k) tracked_channel \<Rightarrow> ('w, 'k) max_channels \<Rightarrow> ('w, 'k) max_channels" where
  "tracked_channel_drop env c mc =
     (let t = tc_tracker c;
          mc = mc\<lparr>mc_strong := (mc_strong mc)(t := mc_strong mc t - 1)\<rparr>
      in if mc_strong mc t = 0 then mc\<lparr>mc_world := mk_dropped_send env (mc_world mc) (tc_key c)\<rparr> else mc)"

text \<open>The listener with the channels it has handed out and that are still open.  It is polled, and the
  channels are dropped, in any order.\<close>

datatype channels_act = PollChannels nat | DropChannel nat

fun channels_step ::
  "('w, 'c, 'k) channels_env \<Rightarrow> channels_act \<Rightarrow>
   ('w, 'k) max_channels \<times> ('c, 'k) tracked_channel list \<Rightarrow>
   (('w, 'k) max_channels \<times> ('c, 'k) tracked_channel list) outcome" where
  "channels_step env (PollChannels n) (mc, cs) =
     obind (max_channels_poll_next n env mc) (\<lambda>(p, mc).
       Return (mc, case p of Ready (Some c) \<Rightarrow> cs @ [c] | _ \<Rightarrow> cs))"
| "channels_step env (DropChannel i) (mc, cs) =
     Return (if i < length cs
             then (tracked_channel_drop env (cs ! i) mc, take i cs @ drop (Suc i) cs) else (mc, cs))"

fun channels_life ::
  "('w, 'c, 'k) channels_env \<Rightarrow> channels_act list \<Rightarrow>
   ('w, 'k) max_channels \<times> ('c, 'k) tracked_channel list \<Rightarrow>
   (('w, 'k) max_channels \<times> ('c, 'k) tracked_channel list) outcome" where
  "channels_life env [] s = Return s"
| "channels_life env (a # as) s = obind (channels_step env a s) (channels_life env as)"

text \<open>The channels of a list are presented to the filter one after the other.\<close>

fun handle_new_channels ::
  "('w, 'c, 'k) channels_env \<Rightarrow> 'c list \<Rightarrow> ('w, 'k) max_channels \<Rightarrow>
   (('c, 'k) tracked_channel, 'k) result list \<times> ('w, 'k) max_channels" where
  "handle_new_channels env [] mc = ([], mc)"
| "handle_new_channels env (stream # streams) mc =
     (let (r, mc) = handle_new_channel env stream mc;
          (rs, mc) = handle_new_channels env streams mc
      in (r # rs, mc))"

section \<open>The limit\<close>

text \<open>\<open>owner\<close> says which key a tracker was made for.  In a \<open>counted\<close> state every tracker that has
  channels is the one in the map.\<close>

definition counted :: "(tracker \<Rightarrow> 'k) \<Rightarrow> ('w, 'k) max_channels \<Rightarrow> bool" where
  "counted owner mc \<longleftrightarrow>
     (\<forall>t. mc_strong mc t > 0 \<longrightarrow> t < mc_fresh mc \<and> map_of (mc_key_counts mc) (owner t) = Some t) \<and>
     (\<forall>k t. map_of (mc_key_counts mc) k = Some t \<longrightarrow> t < mc_fresh mc \<and> owner t = k)"

definition open_channels :: "(tracker \<Rightarrow> 'k) \<Rightarrow> ('w, 'k) max_channels \<Rightarrow> 'k \<Rightarrow> nat" where
  "open_channels owner mc k = (\<Sum>t\<leftarrow>[0..<mc_fresh mc]. if owner t = k then mc_strong mc t else 0)"

lemma open_channels_none:
  assumes "\<And>t. t < mc_fresh mc \<Longrightarrow> owner t = k \<Longrightarrow> mc_strong mc t = 0"
  shows "open_channels owner mc k = 0"
  using assms by (auto simp: open_channels_def sum_list_eq_0_iff)

lemma sum_one_index: "t < n \<Longrightarrow> (\<Sum>u\<leftarrow>[0..<n]. if u = t then x else 0) = (x :: nat)"
  by (induction n) (auto simp: less_Suc_eq sum_list_eq_0_iff)

lemma open_channels_one:
  assumes "t < mc_fresh mc" "owner t = k" "\<And>u. u < mc_fresh mc \<Longrightarrow> owner u = k \<Longrightarrow> u \<noteq> t \<Longrightarrow> mc_strong mc u = 0"
  shows "open_channels owner mc k = mc_strong mc t"
proof -
  have "open_channels owner mc k = (\<Sum>u\<leftarrow>[0..<mc_fresh mc]. if u = t then mc_strong mc t else 0)"
    unfolding open_channels_def using assms by (intro arg_cong[of _ _ sum_list] map_cong) auto
  then show ?thesis using sum_one_index[OF assms(1)] by simp
qed

lemma counted_open_channels:
  assumes "counted owner mc"
  shows "open_channels owner mc k = (case map_of (mc_key_counts mc) k of None \<Rightarrow> 0 | Some t \<Rightarrow> mc_strong mc t)"
proof (cases "map_of (mc_key_counts mc) k")
  case None
  have "mc_strong mc t = 0" if "owner t = k" for t
  proof (rule ccontr)
    assume "mc_strong mc t \<noteq> 0"
    with assms have "map_of (mc_key_counts mc) (owner t) = Some t" by (simp add: counted_def)
    with None that show False by simp
  qed
  with None show ?thesis by (simp add: open_channels_none)
next
  case (Some t)
  then have here: "t < mc_fresh mc" "owner t = k" using assms by (simp_all add: counted_def)
  have "mc_strong mc u = 0" if "owner u = k" "u \<noteq> t" for u
  proof (rule ccontr)
    assume "mc_strong mc u \<noteq> 0"
    with assms have "map_of (mc_key_counts mc) (owner u) = Some u" by (simp add: counted_def)
    with Some that show False by simp
  qed
  with here open_channels_one[of t mc owner k] Some show ?thesis by simp
qed

lemma counted_live:
  "counted owner mc \<Longrightarrow> mc_strong mc t > 0 \<Longrightarrow> t < mc_fresh mc \<and> map_of (mc_key_counts mc) (owner t) = Some t"
  by (simp add: counted_def)

lemma counted_entry:
  "counted owner mc \<Longrightarrow> map_of (mc_key_counts mc) k = Some t \<Longrightarrow> t < mc_fresh mc \<and> owner t = k"
  by (simp add: counted_def)

lemma counted_new: "counted owner (max_channels_new limit w)"
  by (simp add: counted_def max_channels_new_def)

text \<open>A new tracker takes the place of one without channels.\<close>

lemma new_tracker_counted:
  assumes "counted owner mc" "open_channels owner mc key = 0"
  shows "counted (owner(mc_fresh mc := key)) (snd (new_tracker key mc))"
proof -
  have other: "owner t \<noteq> key" if "mc_strong mc t > 0" for t
  proof
    assume "owner t = key"
    with that assms counted_live[OF assms(1) that] counted_open_channels[OF assms(1), of key]
    show False by simp
  qed
  then show ?thesis
    using assms(1) by (auto simp: counted_def new_tracker_def update_conv' less_Suc_eq)
qed

lemma new_tracker_open:
  assumes "counted owner mc" "open_channels owner mc key = 0"
  shows "open_channels (owner(mc_fresh mc := key)) (snd (new_tracker key mc)) k =
         open_channels owner mc k + (if k = key then 1 else 0)"
proof -
  have "t \<noteq> mc_fresh mc" if "map_of (mc_key_counts mc) k = Some t" for t
    using counted_entry[OF assms(1) that] by simp
  then show ?thesis
    using assms counted_open_channels[OF new_tracker_counted[OF assms], of k] counted_open_channels[OF assms(1), of k]
    by (cases "map_of (mc_key_counts mc) k") (auto simp: new_tracker_def update_conv')
qed

lemma share_tracker_counted:
  assumes "counted owner mc" "map_of (mc_key_counts mc) key = Some t"
  defines "mc' \<equiv> mc\<lparr>mc_strong := (mc_strong mc)(t := Suc (mc_strong mc t))\<rparr>"
  shows "counted owner mc'"
    and "open_channels owner mc' k = open_channels owner mc k + (if k = key then 1 else 0)"
proof -
  show counted: "counted owner mc'"
    using assms counted_entry[OF assms(1,2)] by (auto simp: counted_def)
  have "u \<noteq> t" if "map_of (mc_key_counts mc) k = Some u" "k \<noteq> key" for u
    using counted_entry[OF assms(1) that(1)] counted_entry[OF assms(1,2)] that by auto
  then show "open_channels owner mc' k = open_channels owner mc k + (if k = key then 1 else 0)"
    using assms(2) counted_open_channels[OF counted, of k] counted_open_channels[OF assms(1), of k]
    by (cases "map_of (mc_key_counts mc) k") (auto simp: mc'_def)
qed

text \<open>What an admission promises of the counts.\<close>

definition admission ::
  "(tracker \<Rightarrow> 'k) \<Rightarrow> 'k \<Rightarrow> ('w, 'k) max_channels \<Rightarrow> (tracker, 'k) result \<Rightarrow> ('w, 'k) max_channels \<Rightarrow> bool" where
  "admission owner key mc r mc' \<longleftrightarrow>
     (case r of
        Err k \<Rightarrow> k = key \<and> mc' = mc \<and> open_channels owner mc key \<ge> unat (mc_channels_per_key mc)
      | Ok t \<Rightarrow> (\<exists>owner'. counted owner' mc' \<and> owner' t = key \<and> (\<forall>u<mc_fresh mc. owner' u = owner u) \<and>
                   (\<forall>k. open_channels owner' mc' k = open_channels owner mc k + (if k = key then 1 else 0)) \<and>
                   open_channels owner' mc' key \<le> max 1 (unat (mc_channels_per_key mc))))"

lemma admission_new:
  assumes "counted owner mc" "open_channels owner mc key = 0"
  shows "admission owner key mc (Ok (fst (new_tracker key mc))) (snd (new_tracker key mc))"
  unfolding admission_def
  by (simp, rule exI[of _ "owner(mc_fresh mc := key)"])
     (use assms in \<open>simp add: new_tracker_counted new_tracker_open, simp add: new_tracker_def\<close>)

lemma admission_share:
  assumes "counted owner mc" "map_of (mc_key_counts mc) key = Some t"
    "mc_strong mc t < unat (mc_channels_per_key mc)"
  shows "admission owner key mc (Ok t) (mc\<lparr>mc_strong := (mc_strong mc)(t := Suc (mc_strong mc t))\<rparr>)"
proof -
  have "open_channels owner mc key = mc_strong mc t"
    using counted_open_channels[OF assms(1), of key] assms(2) by simp
  then show ?thesis
    unfolding admission_def using assms share_tracker_counted[OF assms(1,2)] counted_entry[OF assms(1,2)]
    by (simp, intro exI[of _ owner]) auto
qed

lemma increment_channels_for_key_admission:
  assumes "counted owner mc"
  shows "case increment_channels_for_key key mc of (r, mc') \<Rightarrow> admission owner key mc r mc'"
proof (cases "map_of (mc_key_counts mc) key")
  case None
  then have "open_channels owner mc key = 0" by (simp add: counted_open_channels[OF assms])
  with None admission_new[OF assms] show ?thesis
    by (simp add: increment_channels_for_key_def case_prod_beta)
next
  case (Some t)
  then have t: "open_channels owner mc key = mc_strong mc t" by (simp add: counted_open_channels[OF assms])
  consider "mc_strong mc t \<ge> unat (mc_channels_per_key mc)"
    | "mc_strong mc t < unat (mc_channels_per_key mc)" "mc_strong mc t > 0"
    | "mc_strong mc t < unat (mc_channels_per_key mc)" "mc_strong mc t = 0" by linarith
  then show ?thesis
  proof cases
    case 1
    with Some t show ?thesis by (simp add: increment_channels_for_key_def admission_def)
  next
    case 2
    with Some show ?thesis using admission_share[OF assms Some] by (simp add: increment_channels_for_key_def)
  next
    case 3
    with Some t admission_new[OF assms] show ?thesis
      by (simp add: increment_channels_for_key_def case_prod_beta)
  qed
qed

section \<open>The stream of channels\<close>

lemma handle_new_channel_admission:
  assumes "counted owner mc"
  shows "case handle_new_channel env stream mc of (r, mc') \<Rightarrow>
           admission owner (mk_keymaker env stream) mc
             (case r of Ok c \<Rightarrow> Ok (tc_tracker c) | Err k \<Rightarrow> Err k) mc'"
  using increment_channels_for_key_admission[OF assms, of "mk_keymaker env stream"]
  by (auto simp: handle_new_channel_def Let_def split: prod.splits result.splits)

lemma increment_channels_for_key_frame:
  "increment_channels_for_key key mc = (r, mc') \<Longrightarrow>
   mc_world mc' = mc_world mc \<and> mc_channels_per_key mc' = mc_channels_per_key mc"
  by (auto simp: increment_channels_for_key_def new_tracker_def Let_def split: option.splits if_splits)

lemma handle_new_channel_frame:
  "handle_new_channel env stream mc = (r, mc') \<Longrightarrow>
   mc_world mc' = mc_world mc \<and> mc_channels_per_key mc' = mc_channels_per_key mc"
  by (auto simp: handle_new_channel_def Let_def split: prod.splits result.splits
      dest: increment_channels_for_key_frame)

text \<open>An admitted channel is counted by its tracker, and by no other.\<close>

lemma handle_new_channel_strong:
  assumes "counted owner mc" "handle_new_channel env stream mc = (Ok c, mc')"
  shows "tc_key c = mk_keymaker env stream \<and>
         mc_strong mc' = (mc_strong mc)(tc_tracker c := Suc (mc_strong mc (tc_tracker c)))"
proof -
  have "mc_strong mc (mc_fresh mc) = 0" using counted_live[OF assms(1), of "mc_fresh mc"] by blast
  with assms(2) show ?thesis
    by (auto simp: handle_new_channel_def increment_channels_for_key_def new_tracker_def Let_def
        split: option.splits if_splits)
qed

text \<open>\<open>notices\<close> is the set of keys that \<^verbatim>\<open>dropped_keys\<close> holds.  Only a dropped tracker puts its key
  there, a key that is received was there, the receiver never reports a closed channel since the
  listener holds a sender, and no new channel belongs to a key whose notice is still queued.  The
  last is a demand on the clients, which the code does not enforce; what happens without it is
  shown at the end.\<close>

definition notice_laws :: "('w, 'c, 'k) channels_env \<Rightarrow> ('w \<Rightarrow> 'k set) \<Rightarrow> bool" where
  "notice_laws env notices \<longleftrightarrow>
     (\<forall>w. notices (snd (mk_listener_poll_next env w)) \<subseteq> notices w) \<and>
     (\<forall>w. notices (snd (mk_dropped_poll_recv env w)) \<subseteq> notices w) \<and>
     (\<forall>w k. notices (mk_dropped_send env w k) \<subseteq> insert k (notices w)) \<and>
     (\<forall>w. case fst (mk_dropped_poll_recv env w) of
         Pending \<Rightarrow> True | Ready None \<Rightarrow> False | Ready (Some k) \<Rightarrow> k \<in> notices w) \<and>
     (\<forall>w. case fst (mk_listener_poll_next env w) of
         Ready (Some c) \<Rightarrow> mk_keymaker env c \<notin> notices w | _ \<Rightarrow> True)"

text \<open>\<open>tallied owner cs mc\<close>: the strong counts are those of the open channels \<open>cs\<close>.\<close>

definition tallied ::
  "(tracker \<Rightarrow> 'k) \<Rightarrow> ('c, 'k) tracked_channel list \<Rightarrow> ('w, 'k) max_channels \<Rightarrow> bool" where
  "tallied owner cs mc \<longleftrightarrow>
     counted owner mc \<and> (\<forall>c\<in>set cs. owner (tc_tracker c) = tc_key c) \<and>
     (\<forall>t. mc_strong mc t = length (filter (\<lambda>c. tc_tracker c = t) cs))"

lemma tallied_entry:
  assumes "tallied owner cs mc" "c \<in> set cs"
  shows "map_of (mc_key_counts mc) (tc_key c) = Some (tc_tracker c)"
proof -
  have "mc_strong mc (tc_tracker c) > 0" using assms by (auto simp: tallied_def filter_empty_conv)
  with counted_live[of owner mc "tc_tracker c"] assms show ?thesis by (simp add: tallied_def)
qed

lemma tallied_open:
  assumes "tallied owner cs mc"
  shows "open_channels owner mc k = length (filter (\<lambda>c. tc_key c = k) cs)"
proof -
  have cnt: "counted owner mc" and own: "\<And>c. c \<in> set cs \<Longrightarrow> owner (tc_tracker c) = tc_key c"
    and strong: "\<And>t. mc_strong mc t = length (filter (\<lambda>c. tc_tracker c = t) cs)"
    using assms by (auto simp: tallied_def)
  note entry = tallied_entry[OF assms]
  show ?thesis
  proof (cases "map_of (mc_key_counts mc) k")
    case None
    have "tc_key c \<noteq> k" if "c \<in> set cs" for c using entry[OF that] None by auto
    then have "filter (\<lambda>c. tc_key c = k) cs = []" by (simp add: filter_empty_conv)
    with None show ?thesis by (simp add: counted_open_channels[OF cnt])
  next
    case (Some t)
    have "tc_key c = k \<longleftrightarrow> tc_tracker c = t" if "c \<in> set cs" for c
      using entry[OF that] own[OF that] counted_entry[OF cnt Some] Some by auto
    then have "filter (\<lambda>c. tc_key c = k) cs = filter (\<lambda>c. tc_tracker c = t) cs" by (intro filter_cong) auto
    with Some show ?thesis by (simp add: counted_open_channels[OF cnt] strong)
  qed
qed

lemma open_channels_world [simp]: "open_channels owner (mc\<lparr>mc_world := w\<rparr>) k = open_channels owner mc k"
  by (simp add: open_channels_def cong: if_cong)

lemma counted_world [simp]: "counted owner (mc\<lparr>mc_world := w\<rparr>) = counted owner mc"
  by (simp add: counted_def)

lemma tallied_world [simp]: "tallied owner cs (mc\<lparr>mc_world := w\<rparr>) = tallied owner cs mc"
  by (simp add: tallied_def counted_def)

definition within_keys ::
  "32 word \<Rightarrow> ('w \<Rightarrow> 'k set) \<Rightarrow> ('c, 'k) tracked_channel list \<Rightarrow> ('w, 'k) max_channels \<Rightarrow> bool" where
  "within_keys limit notices cs mc \<longleftrightarrow>
     mc_channels_per_key mc = limit \<and> (\<exists>owner. tallied owner cs mc) \<and>
     (\<forall>k. length (filter (\<lambda>c. tc_key c = k) cs) \<le> max 1 (unat limit)) \<and>
     (\<forall>c\<in>set cs. tc_key c \<notin> notices (mc_world mc))"

lemma within_keys_new: "notices w = {} \<Longrightarrow> within_keys limit notices [] (max_channels_new limit w)"
  by (auto simp: within_keys_def tallied_def counted_new max_channels_new_def intro: exI[of _ undefined])
     (simp_all add: counted_def)

lemma within_keys_world:
  "within_keys limit notices cs mc \<Longrightarrow> notices w \<subseteq> notices (mc_world mc) \<Longrightarrow> within_keys limit notices cs (mc\<lparr>mc_world := w\<rparr>)"
  by (auto simp: within_keys_def)

lemma tallied_admission:
  assumes "tallied owner cs mc" "handle_new_channel env stream mc = (Ok c, mc')"
  shows "\<exists>owner'. tallied owner' (cs @ [c]) mc' \<and>
           length (filter (\<lambda>d. tc_key d = tc_key c) (cs @ [c])) \<le> max 1 (unat (mc_channels_per_key mc))"
proof -
  have cnt: "counted owner mc" and own: "\<And>d. d \<in> set cs \<Longrightarrow> owner (tc_tracker d) = tc_key d"
    and strong: "\<And>t. mc_strong mc t = length (filter (\<lambda>d. tc_tracker d = t) cs)"
    using assms(1) by (auto simp: tallied_def)
  note c = handle_new_channel_strong[OF cnt assms(2)]
  from handle_new_channel_admission[OF cnt, of env stream] assms(2) c obtain owner' where own':
    "counted owner' mc'" "owner' (tc_tracker c) = tc_key c" "\<And>u. u < mc_fresh mc \<Longrightarrow> owner' u = owner u"
    "open_channels owner' mc' (tc_key c) \<le> max 1 (unat (mc_channels_per_key mc))"
    by (auto simp: admission_def)
  have "tc_tracker d < mc_fresh mc" if "d \<in> set cs" for d
    using counted_live[OF cnt, of "tc_tracker d"] that by (auto simp: strong filter_empty_conv)
  then have "tallied owner' (cs @ [c]) mc'"
    using own' own c strong by (auto simp: tallied_def)
  with own'(4) tallied_open show ?thesis by metis
qed

lemma within_keys_admission:
  assumes "within_keys limit notices cs mc" "mk_keymaker env stream \<notin> notices (mc_world mc)"
    and "handle_new_channel env stream mc = (r, mc')"
  shows "within_keys limit notices (case r of Ok c \<Rightarrow> cs @ [c] | Err _ \<Rightarrow> cs) mc'"
proof -
  from assms(1) obtain owner where own: "tallied owner cs mc" unfolding within_keys_def by blast
  then have cnt: "counted owner mc" by (simp add: tallied_def)
  note frame = handle_new_channel_frame[OF assms(3)]
  show ?thesis
  proof (cases r)
    case (Err k)
    with handle_new_channel_admission[OF cnt, of env stream] assms(1,3) show ?thesis
      by (simp add: admission_def)
  next
    case (Ok c)
    from tallied_admission[OF own assms(3)[unfolded Ok]] obtain owner' where own': "tallied owner' (cs @ [c]) mc'"
      "length (filter (\<lambda>d. tc_key d = tc_key c) (cs @ [c])) \<le> max 1 (unat (mc_channels_per_key mc))" by blast
    have key: "tc_key c = mk_keymaker env stream" using handle_new_channel_strong[OF cnt assms(3)[unfolded Ok]] by simp
    have "length (filter (\<lambda>d. tc_key d = k) (cs @ [c])) \<le> max 1 (unat limit)" for k
      using own'(2) assms(1) frame by (cases "k = tc_key c") (auto simp: within_keys_def)
    with own'(1) key assms(1,2) frame Ok show ?thesis by (auto simp: within_keys_def)
  qed
qed

text \<open>What a poll of the listener adds to the open channels.\<close>

fun admitted :: "('c, 'k) result option poll \<Rightarrow> 'c list" where
  "admitted (Ready (Some (Ok c))) = [c]"
| "admitted _ = []"

lemma poll_listener_keeps:
  assumes "notice_laws env notices" "within_keys limit notices cs mc" "poll_listener env mc = (l, mc')"
  shows "within_keys limit notices (cs @ admitted l) mc'"
proof -
  obtain p w where p: "mk_listener_poll_next env (mc_world mc) = (p, w)" by fastforce
  have sub: "notices w \<subseteq> notices (mc_world mc)" using assms(1) p unfolding notice_laws_def by (metis snd_conv)
  note world = within_keys_world[OF assms(2) sub]
  show ?thesis
  proof (cases p rule: poll_option_cases)
    case (Item c)
    have "case fst (mk_listener_poll_next env (mc_world mc)) of
        Ready (Some c) \<Rightarrow> mk_keymaker env c \<notin> notices (mc_world mc) | _ \<Rightarrow> True"
      using assms(1) unfolding notice_laws_def by blast
    with Item p sub have "mk_keymaker env c \<notin> notices w" by auto
    moreover obtain r mc1 where h: "handle_new_channel env c (mc\<lparr>mc_world := w\<rparr>) = (r, mc1)" by fastforce
    ultimately have "within_keys limit notices (case r of Ok c \<Rightarrow> cs @ [c] | Err _ \<Rightarrow> cs) mc1"
      using within_keys_admission[OF world _ h] by simp
    with Item p assms(3) h show ?thesis by (auto simp: poll_listener_def split: result.splits)
  qed (use world p assms(3) in \<open>auto simp: poll_listener_def\<close>)
qed

lemma delete_counted:
  assumes "counted owner mc" "open_channels owner mc key = 0"
  shows "counted owner (mc\<lparr>mc_key_counts := AList.delete key (mc_key_counts mc)\<rparr>)"
proof -
  have "owner t \<noteq> key" if "mc_strong mc t > 0" for t
    using counted_live[OF assms(1) that] counted_open_channels[OF assms(1), of key] assms(2) that by auto
  with assms(1) show ?thesis by (auto simp: counted_def)
qed

lemma poll_closed_channels_keeps:
  assumes "notice_laws env notices" "within_keys limit notices cs mc"
  shows "holds (poll_closed_channels env mc) (\<lambda>(_, mc'). within_keys limit notices cs mc')"
proof -
  obtain p w where p: "mk_dropped_poll_recv env (mc_world mc) = (p, w)" by fastforce
  have sub: "notices w \<subseteq> notices (mc_world mc)" using assms(1) p unfolding notice_laws_def by (metis snd_conv)
  have got: "case fst (mk_dropped_poll_recv env (mc_world mc)) of
      Pending \<Rightarrow> True | Ready None \<Rightarrow> False | Ready (Some k) \<Rightarrow> k \<in> notices (mc_world mc)"
    using assms(1) unfolding notice_laws_def by blast
  show ?thesis
  proof (cases p rule: poll_option_cases)
    case (Item key)
    with got p assms(2) have "filter (\<lambda>c. tc_key c = key) cs = []"
      by (auto simp: within_keys_def filter_empty_conv)
    moreover from assms(2) obtain owner where own: "tallied owner cs mc" unfolding within_keys_def by blast
    ultimately have "counted owner (mc\<lparr>mc_key_counts := AList.delete key (mc_key_counts mc)\<rparr>)"
      using delete_counted[of owner mc key] tallied_open[OF own, of key] by (simp add: tallied_def)
    with own have "tallied owner cs (mc\<lparr>mc_key_counts := AList.delete key (mc_key_counts mc)\<rparr>)"
      by (simp add: tallied_def)
    then have "within_keys limit notices cs (mc\<lparr>mc_key_counts := AList.delete key (mc_key_counts mc)\<rparr>)"
      using assms(2) by (auto simp: within_keys_def)
    from within_keys_world[OF this, of w] sub Item p show ?thesis
      by (simp add: poll_closed_channels_def within_keys_def tallied_def counted_def)
  qed (use got within_keys_world[OF assms(2) sub] p in \<open>auto simp: poll_closed_channels_def\<close>)
qed

lemma max_channels_poll_next_keeps:
  assumes "notice_laws env notices" "within_keys limit notices cs mc"
  shows "holds (max_channels_poll_next n env mc)
           (\<lambda>(p, mc'). within_keys limit notices (case p of Ready (Some c) \<Rightarrow> cs @ [c] | _ \<Rightarrow> cs) mc')"
  unfolding max_channels_poll_next_def
proof (rule loop_holds[where I = "within_keys limit notices cs"])
  fix s assume s: "within_keys limit notices cs s"
  obtain l s1 where l: "poll_listener env s = (l, s1)" by fastforce
  have "holds (poll_closed_channels env s1) (\<lambda>(_, mc'). within_keys limit notices (cs @ admitted l) mc')"
    by (rule poll_closed_channels_keeps[OF assms(1) poll_listener_keeps[OF assms(1) s l]])
  with l show "holds (max_channels_turn env s)
      (\<lambda>(c, s'). case c of Continue \<Rightarrow> within_keys limit notices cs s'
        | Break p \<Rightarrow> within_keys limit notices (case p of Ready (Some c) \<Rightarrow> cs @ [c] | _ \<Rightarrow> cs) s')"
    by (cases "poll_closed_channels env s1")
       (auto simp: max_channels_turn_def split: control.splits poll.splits option.splits result.splits)
qed (rule assms(2))

text \<open>Dropping an open channel uncounts it, and the last of a key leaves its notice.\<close>

lemma drop_nth_filter:
  assumes "i < length cs"
  shows "length (filter P cs) = length (filter P (take i cs @ drop (Suc i) cs)) + (if P (cs ! i) then 1 else 0)"
proof -
  have "filter P cs = filter P (take i cs @ cs ! i # drop (Suc i) cs)" using id_take_nth_drop[OF assms] by simp
  then show ?thesis by simp
qed

lemma tracked_channel_drop_tallied:
  assumes "tallied owner cs mc" "i < length cs"
  shows "tallied owner (take i cs @ drop (Suc i) cs) (tracked_channel_drop env (cs ! i) mc)"
proof -
  have i: "cs ! i \<in> set cs" using assms(2) by simp
  have cnt: "counted owner mc" and own: "\<And>c. c \<in> set cs \<Longrightarrow> owner (tc_tracker c) = tc_key c"
    and strong: "\<And>t. mc_strong mc t = length (filter (\<lambda>c. tc_tracker c = t) cs)"
    using assms(1) by (auto simp: tallied_def)
  have "counted owner (tracked_channel_drop env (cs ! i) mc)"
    using cnt by (auto simp: tracked_channel_drop_def counted_def Let_def)
  moreover have "mc_strong (tracked_channel_drop env (cs ! i) mc) t =
      length (filter (\<lambda>c. tc_tracker c = t) (take i cs @ drop (Suc i) cs))" for t
    using drop_nth_filter[OF assms(2), of "\<lambda>c. tc_tracker c = t"] strong[of t]
    by (auto simp: tracked_channel_drop_def Let_def)
  ultimately show ?thesis
    using own by (auto simp: tallied_def dest: in_set_takeD in_set_dropD)
qed

lemma tracked_channel_drop_keeps:
  assumes "notice_laws env notices" "within_keys limit notices cs mc" "i < length cs"
  shows "within_keys limit notices (take i cs @ drop (Suc i) cs) (tracked_channel_drop env (cs ! i) mc)"
proof -
  let ?cs = "take i cs @ drop (Suc i) cs" and ?mc = "tracked_channel_drop env (cs ! i) mc"
  from assms(2) obtain owner where own: "tallied owner cs mc" unfolding within_keys_def by blast
  note own' = tracked_channel_drop_tallied[OF own assms(3), of env]
  have sub: "set ?cs \<subseteq> set cs" by (auto dest: in_set_takeD in_set_dropD)
  have len: "length (filter (\<lambda>c. tc_key c = k) ?cs) \<le> length (filter (\<lambda>c. tc_key c = k) cs)" for k
    using drop_nth_filter[OF assms(3), of "\<lambda>c. tc_key c = k"] by simp
  have "tc_key c \<notin> notices (mc_world ?mc)" if c: "c \<in> set ?cs" for c
  proof
    assume queued: "tc_key c \<in> notices (mc_world ?mc)"
    have old: "tc_key c \<notin> notices (mc_world mc)" using assms(2) sub c by (auto simp: within_keys_def)
    have send: "notices (mk_dropped_send env (mc_world mc) (tc_key (cs ! i))) \<subseteq>
        insert (tc_key (cs ! i)) (notices (mc_world mc))" using assms(1) unfolding notice_laws_def by blast
    have last: "mc_strong ?mc (tc_tracker (cs ! i)) = 0" "tc_key c = tc_key (cs ! i)"
      using queued old send by (auto simp: tracked_channel_drop_def Let_def split: if_splits)
    have live: "mc_strong ?mc (tc_tracker c) > 0"
      using own' c by (auto simp: tallied_def filter_empty_conv)
    have "tc_tracker c = tc_tracker (cs ! i)"
      using tallied_entry[OF own subsetD[OF sub c]] tallied_entry[OF own nth_mem[OF assms(3)]] last(2) by simp
    with live last(1) show False by simp
  qed
  moreover have "mc_channels_per_key ?mc = mc_channels_per_key mc" by (simp add: tracked_channel_drop_def Let_def)
  ultimately show ?thesis
    using own' len assms(2) unfolding within_keys_def by (auto intro: le_trans)
qed

lemma channels_step_keeps:
  assumes "notice_laws env notices" "within_keys limit notices cs mc"
  shows "holds (channels_step env a (mc, cs)) (\<lambda>(mc', cs'). within_keys limit notices cs' mc')"
proof (cases a)
  case (PollChannels n)
  then show ?thesis
    using holds_mono[OF max_channels_poll_next_keeps[OF assms]] by (auto simp: case_prod_beta)
qed (use assms tracked_channel_drop_keeps[OF assms] in simp)

section \<open>Properties\<close>

text \<open>A listener and a \<^verbatim>\<open>dropped_keys\<close> channel played from two queues.  The channels are numbers
  and their key is the number of tens.\<close>

definition queue_env :: "(nat list \<times> nat list, nat, nat) channels_env" where
  "queue_env =
     \<lparr>mk_listener_poll_next = (\<lambda>(cs, ks). case cs of [] \<Rightarrow> (Pending, ([], ks)) | c # cs \<Rightarrow> (Ready (Some c), (cs, ks))),
      mk_dropped_poll_recv = (\<lambda>(cs, ks). case ks of [] \<Rightarrow> (Pending, (cs, [])) | k # ks \<Rightarrow> (Ready (Some k), (cs, ks))),
      mk_dropped_send = (\<lambda>(cs, ks) k. (cs, ks @ [k])),
      mk_keymaker = (\<lambda>c. c div 10)\<rparr>"

text \<open>The same with clients that wait until the notice of their key is received.\<close>

definition patient_env :: "(nat list \<times> nat list, nat, nat) channels_env" where
  "patient_env = queue_env\<lparr>mk_listener_poll_next :=
     (\<lambda>(cs, ks). case cs of
          [] \<Rightarrow> (Pending, ([], ks))
        | c # cs' \<Rightarrow> if c div 10 \<in> set ks then (Pending, (cs, ks)) else (Ready (Some c), (cs', ks)))\<rparr>"

lemma patient_env_laws: "notice_laws patient_env (set \<circ> snd)"
  by (auto simp: notice_laws_def patient_env_def queue_env_def split: list.splits)








text \<open>C22: \<^verbatim>\<open>increment_channels_for_key\<close> decides by the channels that are open.  As long as the map
  holds the tracker of every key that has open channels, it refuses a key only if the key has at
  least \<^verbatim>\<open>channels_per_key\<close> open channels and then changes nothing; otherwise it counts one more
  channel for that key and none for another, keeps the trackers right, and the key stays within
  the limit (a limit of zero admits one channel all the same).\<close>

theorem increment_channels_for_key_limits:
  assumes "counted owner mc"
  shows "case increment_channels_for_key key mc of
      (Err k, mc') \<Rightarrow> k = key \<and> mc' = mc \<and> open_channels owner mc key \<ge> unat (mc_channels_per_key mc)
    | (Ok t, mc') \<Rightarrow>
        \<exists>owner'. counted owner' mc' \<and> owner' t = key \<and> (\<forall>u<mc_fresh mc. owner' u = owner u) \<and>
          (\<forall>k. open_channels owner' mc' k = open_channels owner mc k + (if k = key then 1 else 0)) \<and>
          open_channels owner' mc' key \<le> max 1 (unat (mc_channels_per_key mc))"
  using increment_channels_for_key_admission[OF assms, of key]
  by (simp add: admission_def split: prod.splits result.splits)

theorem increment_channels_for_key_limits_witness:
  "counted (\<lambda>_. 7) (max_channels_new 2 () :: (unit, nat) max_channels) \<and>
   (case increment_channels_for_key 7 (max_channels_new 2 () :: (unit, nat) max_channels) of
      (Err k, mc') \<Rightarrow> False
    | (Ok t, mc') \<Rightarrow> \<exists>owner'. counted owner' mc' \<and> open_channels owner' mc' 7 \<le> Suc (Suc 0))"
  using increment_channels_for_key_limits[OF counted_new[of "\<lambda>_. 7 :: nat" 2 "()"], of 7]
    counted_new[of "\<lambda>_. 7 :: nat" 2 "()"]
  by (simp add: increment_channels_for_key_def max_channels_new_def new_tracker_def) blast

text \<open>C17: The per-key limit over the whole life of a listener.  It starts without channels, is polled
  any number of times, and the channels it hands out are dropped in any order, the last of a key
  with a notice to the listener.  Provided that no channel of a key arrives while the notice of
  that key is queued, nothing panics and at every moment the open channels of a key are at most
  \<^verbatim>\<open>channels_per_key\<close>, or one if that limit is zero.\<close>

theorem max_channels_life_limits:
  assumes "notice_laws env notices" "notices w = {}"
  shows "holds (channels_life env acts (max_channels_new limit w, []))
           (\<lambda>(mc, cs). \<forall>k. length (filter (\<lambda>c. tc_key c = k) cs) \<le> max 1 (unat limit))"
proof -
  have "holds (channels_life env acts s) (\<lambda>(mc, cs). within_keys limit notices cs mc)"
    if "within_keys limit notices (snd s) (fst s)" for s
    using that
  proof (induction acts arbitrary: s)
    case (Cons a acts)
    from channels_step_keeps[OF assms(1) Cons.prems, of a] show ?case
      by (auto elim!: holds_mono intro!: Cons.IH)
  qed (simp add: case_prod_beta)
  from this[of "(max_channels_new limit w, [])"]
  have "holds (channels_life env acts (max_channels_new limit w, [])) (\<lambda>(mc, cs). within_keys limit notices cs mc)"
    using within_keys_new[of notices w limit] assms(2) by simp
  then show ?thesis by (rule holds_mono) (auto simp: within_keys_def)
qed

text \<open>Limit one: the second channel of key 7 is refused, the first is dropped, and a third is admitted
  after the notice was received.\<close>

theorem max_channels_life_limits_witness:
  "case channels_life patient_env [PollChannels 3, PollChannels 3, DropChannel 0, PollChannels 3]
      (max_channels_new 1 ([70, 71, 80, 72], []), []) of
     Return (mc, cs) \<Rightarrow> map tc_inner cs = [80, 72] \<and>
       (\<forall>k. length (filter (\<lambda>c. tc_key c = k) cs) \<le> max 1 (unat (1 :: 32 word)))
   | _ \<Rightarrow> False"
proof -
  let ?run = "channels_life patient_env [PollChannels 3, PollChannels 3, DropChannel 0, PollChannels 3]
      (max_channels_new 1 ([70, 71, 80, 72], []), [])"
  have "holds ?run (\<lambda>(mc, cs). \<forall>k. length (filter (\<lambda>c. tc_key c = k) cs) \<le> max 1 (unat (1 :: 32 word)))"
    by (rule max_channels_life_limits[OF patient_env_laws]) simp
  moreover have "case ?run of Return (mc, cs) \<Rightarrow> map tc_inner cs = [80, 72] | _ \<Rightarrow> False" by code_simp
  ultimately show ?thesis by (cases ?run) (simp_all del: channels_life.simps add: case_prod_beta)
qed

text \<open>Channels of a key whose tracker is not in the map share a new tracker.\<close>

lemma handle_new_channels_shared:
  assumes "\<forall>s\<in>set streams. mk_keymaker env s = key" "map_of (mc_key_counts mc) key = Some t"
    and "0 < mc_strong mc t" "mc_strong mc t + length streams \<le> unat (mc_channels_per_key mc)"
  shows "handle_new_channels env streams mc =
    (map (\<lambda>s. Ok \<lparr>tc_inner = s, tc_tracker = t, tc_key = key\<rparr>) streams,
     mc\<lparr>mc_strong := (mc_strong mc)(t := mc_strong mc t + length streams)\<rparr>)"
  using assms
proof (induction streams arbitrary: mc)
  case (Cons s streams)
  let ?mc = "mc\<lparr>mc_strong := (mc_strong mc)(t := Suc (mc_strong mc t))\<rparr>"
  have "handle_new_channel env s mc = (Ok \<lparr>tc_inner = s, tc_tracker = t, tc_key = key\<rparr>, ?mc)"
    using Cons.prems by (simp add: handle_new_channel_def increment_channels_for_key_def)
  moreover have "handle_new_channels env streams ?mc =
    (map (\<lambda>s. Ok \<lparr>tc_inner = s, tc_tracker = t, tc_key = key\<rparr>) streams,
     ?mc\<lparr>mc_strong := (mc_strong ?mc)(t := mc_strong ?mc t + length streams)\<rparr>)"
    using Cons.prems by (intro Cons.IH) simp_all
  ultimately show ?case by (simp add: fun_upd_def cong: if_cong)
qed simp

lemma handle_new_channels_forgotten:
  assumes "\<forall>s\<in>set streams. mk_keymaker env s = key" "map_of (mc_key_counts mc) key = None"
    and "streams \<noteq> []" "length streams \<le> unat (mc_channels_per_key mc)"
  obtains mc' where "handle_new_channels env streams mc =
      (map (\<lambda>s. Ok \<lparr>tc_inner = s, tc_tracker = mc_fresh mc, tc_key = key\<rparr>) streams, mc')"
    and "mc_strong mc' = (mc_strong mc)(mc_fresh mc := length streams)"
    and "mc_channels_per_key mc' = mc_channels_per_key mc"
proof -
  obtain s rest where streams: "streams = s # rest" using assms(3) by (cases streams) auto
  let ?mc = "snd (new_tracker key mc)"
  have "handle_new_channel env s mc = (Ok \<lparr>tc_inner = s, tc_tracker = mc_fresh mc, tc_key = key\<rparr>, ?mc)"
    using assms(1,2) streams by (simp add: handle_new_channel_def increment_channels_for_key_def new_tracker_def)
  moreover note handle_new_channels_shared[of rest env key ?mc "mc_fresh mc"]
  ultimately show thesis
    using assms streams
    by (intro that[of "?mc\<lparr>mc_strong := (mc_strong mc)(mc_fresh mc := length streams)\<rparr>"])
       (simp_all add: new_tracker_def update_conv')
qed

lemma handle_new_channel_below:
  assumes "counted owner mc" "open_channels owner mc (mk_keymaker env stream) < unat (mc_channels_per_key mc)"
  obtains t mc' where "handle_new_channel env stream mc =
      (Ok \<lparr>tc_inner = stream, tc_tracker = t, tc_key = mk_keymaker env stream\<rparr>, mc')"
    and "t < mc_fresh mc'" "mc_strong mc' t = Suc (open_channels owner mc (mk_keymaker env stream))"
    and "mc_channels_per_key mc' = mc_channels_per_key mc"
proof (cases "map_of (mc_key_counts mc) (mk_keymaker env stream)")
  case None
  with assms counted_open_channels[OF assms(1), of "mk_keymaker env stream"] show ?thesis
    by (intro that[of "mc_fresh mc" "snd (new_tracker (mk_keymaker env stream) mc)"])
       (simp_all add: handle_new_channel_def increment_channels_for_key_def new_tracker_def Let_def)
next
  case (Some t)
  note t = counted_entry[OF assms(1) Some] counted_open_channels[OF assms(1), of "mk_keymaker env stream"]
  show ?thesis
  proof (cases "mc_strong mc t = 0")
    case True
    with Some t assms(2) show ?thesis
      by (intro that[of "mc_fresh mc" "snd (new_tracker (mk_keymaker env stream) mc)"])
         (simp_all add: handle_new_channel_def increment_channels_for_key_def new_tracker_def Let_def)
  next
    case False
    with Some t assms(2) show ?thesis
      by (intro that[of t "mc\<lparr>mc_strong := (mc_strong mc)(t := Suc (mc_strong mc t))\<rparr>"])
         (simp_all add: handle_new_channel_def increment_channels_for_key_def Let_def)
  qed
qed

text \<open>C23: Without that proviso the limit is exceeded.  The listener yields a channel of a key that is
  below its limit, and in the same turn the notice of an earlier, dropped tracker of that key is
  received: the channel is handed out, but the entry of its live tracker is removed.  All further
  channels of the key, as many as the limit, are then admitted on a new tracker, while the channels
  that were open before and the one just handed out stay open: one turn lets a key have up to
  twice its limit of open channels, and at least one more than its limit.\<close>

theorem late_notice_exceeds_limit:
  assumes "counted owner mc"
    and "mk_listener_poll_next env (mc_world mc) = (Ready (Some stream), w)"
    and "mk_dropped_poll_recv env w = (Ready (Some (mk_keymaker env stream)), w')"
    and "open_channels owner mc (mk_keymaker env stream) < unat (mc_channels_per_key mc)"
    and "\<forall>s\<in>set streams. mk_keymaker env s = mk_keymaker env stream"
    and "length streams = unat (mc_channels_per_key mc)"
  shows "\<exists>c mc1 t mc2.
    max_channels_turn env mc = Return (Break (Ready (Some c)), mc1) \<and>
    tc_inner c = stream \<and> tc_key c = mk_keymaker env stream \<and>
    handle_new_channels env streams mc1 =
      (map (\<lambda>s. Ok \<lparr>tc_inner = s, tc_tracker = t, tc_key = mk_keymaker env stream\<rparr>) streams, mc2) \<and>
    t \<noteq> tc_tracker c \<and> mc_channels_per_key mc2 = mc_channels_per_key mc \<and>
    mc_strong mc2 (tc_tracker c) + mc_strong mc2 t =
      Suc (open_channels owner mc (mk_keymaker env stream)) + unat (mc_channels_per_key mc)"
proof -
  let ?key = "mk_keymaker env stream" and ?limit = "unat (mc_channels_per_key mc)"
  obtain t mc0 where new: "handle_new_channel env stream (mc\<lparr>mc_world := w\<rparr>) =
      (Ok \<lparr>tc_inner = stream, tc_tracker = t, tc_key = ?key\<rparr>, mc0)"
    and t: "t < mc_fresh mc0" "mc_strong mc0 t = Suc (open_channels owner mc ?key)"
      "mc_channels_per_key mc0 = mc_channels_per_key mc"
    using handle_new_channel_below[of owner "mc\<lparr>mc_world := w\<rparr>" env stream] assms(1,4) by auto
  have world: "mc_world mc0 = w" using handle_new_channel_frame[OF new] by simp
  define mc1 where "mc1 = mc0\<lparr>mc_world := w', mc_key_counts := AList.delete ?key (mc_key_counts mc0)\<rparr>"
  have turn: "max_channels_turn env mc =
      Return (Break (Ready (Some \<lparr>tc_inner = stream, tc_tracker = t, tc_key = ?key\<rparr>)), mc1)"
    using assms(2,3) new world
    by (simp add: max_channels_turn_def poll_listener_def poll_closed_channels_def mc1_def)
  have "map_of (mc_key_counts mc1) ?key = None" "streams \<noteq> []"
    "length streams \<le> unat (mc_channels_per_key mc1)" "mc_fresh mc1 \<noteq> t"
    using assms(4,6) t by (auto simp: mc1_def delete_conv')
  with handle_new_channels_forgotten[OF assms(5)] obtain mc2 where more: "handle_new_channels env streams mc1 =
      (map (\<lambda>s. Ok \<lparr>tc_inner = s, tc_tracker = mc_fresh mc1, tc_key = ?key\<rparr>) streams, mc2)"
    and strong: "mc_strong mc2 = (mc_strong mc1)(mc_fresh mc1 := length streams)"
    and limit: "mc_channels_per_key mc2 = mc_channels_per_key mc1" by metis
  show ?thesis
    using turn more strong limit t assms(6) \<open>mc_fresh mc1 \<noteq> t\<close>
    by (intro exI[of _ mc2] exI[of _ "mc_fresh mc1"] exI[of _ mc1] exI conjI) (auto simp: mc1_def)
qed

text \<open>A channel of key 7 was opened and dropped, the next is already there, and the limit is one.\<close>

definition late_notice_state :: "(nat list \<times> nat list, nat) max_channels" where
  "late_notice_state =
     \<lparr>mc_world = ([71], [7]), mc_channels_per_key = 1, mc_key_counts = [(7, 0)], mc_strong = (\<lambda>_. 0), mc_fresh = 1\<rparr>"

lemma late_notice_reached:
  "channels_life queue_env [PollChannels 1, DropChannel 0] (max_channels_new 1 ([70, 71], []), []) =
   Return (late_notice_state, [])"
  by (simp add: late_notice_state_def max_channels_new_def max_channels_poll_next_def max_channels_turn_def
      poll_listener_def poll_closed_channels_def handle_new_channel_def increment_channels_for_key_def
      new_tracker_def tracked_channel_drop_def queue_env_def fun_eq_iff)

theorem late_notice_exceeds_limit_witness:
  "\<exists>mc c mc1 t mc2.
     channels_life queue_env [PollChannels 1, DropChannel 0] (max_channels_new 1 ([70, 71], []), []) =
       Return (mc, []) \<and>
     max_channels_turn queue_env mc = Return (Break (Ready (Some c)), mc1) \<and> tc_inner c = 71 \<and>
     handle_new_channels queue_env [72] mc1 = ([Ok \<lparr>tc_inner = 72, tc_tracker = t, tc_key = 7\<rparr>], mc2) \<and>
     t \<noteq> tc_tracker c \<and> mc_channels_per_key mc2 = 1 \<and> mc_strong mc2 (tc_tracker c) + mc_strong mc2 t = 2"
proof -
  have "counted (\<lambda>_. 7) late_notice_state" by (simp add: counted_def late_notice_state_def)
  moreover have "mk_listener_poll_next queue_env (mc_world late_notice_state) = (Ready (Some 71), ([], [7]))"
    "mk_dropped_poll_recv queue_env ([], [7]) = (Ready (Some (mk_keymaker queue_env 71)), ([], []))"
    "open_channels (\<lambda>_. 7) late_notice_state (mk_keymaker queue_env 71) = 0"
    "mc_channels_per_key late_notice_state = 1" "mk_keymaker queue_env 71 = 7" "mk_keymaker queue_env 72 = 7"
    by (simp_all add: late_notice_state_def queue_env_def open_channels_def)
  moreover note late_notice_exceeds_limit[of "\<lambda>_. 7" late_notice_state queue_env 71 "([], [7])" "([], [])" "[72]"]
  ultimately show ?thesis using late_notice_reached by fastforce
qed

end
