(* ===== verification/Incoming.thy ===== *)
theory Incoming
  imports Channels_Per_Key Server_Theorems
begin

text \<open>
  \<^verbatim>\<open>tarpc/src/server/incoming.rs\<close>, and the channel that \<^verbatim>\<open>MaxChannelsPerKey\<close> hands out
  (\<^verbatim>\<open>TrackedChannel\<close> of \<^verbatim>\<open>tarpc/src/server/limits/channels_per_key.rs\<close>): limits stacked on each other, streams of
  channels in execution, and the tasks that run them.
\<close>

section \<open>Tracked channels\<close>

text \<open>The stream, the sink and the \<^verbatim>\<open>Channel\<close> instance pass everything on to the inner channel.\<close>

definition tracked_channel_ops ::
  "('c, 'req, 'resp, 'e) channel \<Rightarrow> (('c, 'k) tracked_channel, 'req, 'resp, 'e) channel" where
  "tracked_channel_ops ch =
     \<lparr>ch_config = (\<lambda>c. ch_config ch (tc_inner c)),
      ch_in_flight_requests = (\<lambda>c. ch_in_flight_requests ch (tc_inner c)),
      ch_poll_next = (\<lambda>c. obind (ch_poll_next ch (tc_inner c)) (\<lambda>(p, s). Return (p, c\<lparr>tc_inner := s\<rparr>))),
      ch_poll_ready = (\<lambda>c. let (p, s) = ch_poll_ready ch (tc_inner c) in (p, c\<lparr>tc_inner := s\<rparr>)),
      ch_start_send = (\<lambda>c r. obind (ch_start_send ch (tc_inner c) r) (\<lambda>(res, s). Return (res, c\<lparr>tc_inner := s\<rparr>))),
      ch_poll_flush = (\<lambda>c. let (p, s) = ch_poll_flush ch (tc_inner c) in (p, c\<lparr>tc_inner := s\<rparr>)),
      ch_poll_close = (\<lambda>c. let (p, s) = ch_poll_close ch (tc_inner c) in (p, c\<lparr>tc_inner := s\<rparr>))\<rparr>"

context channel_contract
begin

text \<open>Nothing that is done to the channel touches the tracker \<open>t\<close> that counts it, or its key.\<close>

lemma tracked_contract:
  "channel_contract (tracked_channel_ops ch) (\<lambda>c. inv (tc_inner c) \<and> tc_tracker c = t \<and> tc_key c = k)
     (\<lambda>c. tracked (tc_inner c))"
proof (unfold_locales, goal_cases)
  case (3 c)
  then have c: "inv (tc_inner c)" by simp
  show ?case
    unfolding tracked_channel_ops_def channel.simps
    by (rule holds_bind_pair[OF poll_next_law[OF c]]) (use 3 in \<open>simp add: tracks_comp\<close>)
next
  case (4 c r)
  then have c: "inv (tc_inner c)" by simp
  show ?case
    unfolding tracked_channel_ops_def channel.simps
    by (rule yields_bind_pair[OF start_send_law[OF c, of r]]) (use 4 in simp)
next
  case (5 c x c')
  obtain y s where y: "ch_poll_ready ch (tc_inner c) = (y, s)" by fastforce
  with 5(2) have "c' = c\<lparr>tc_inner := s\<rparr>" by (simp add: tracked_channel_ops_def)
  with poll_ready_law[OF _ y] 5(1) show ?case by simp
next
  case (6 c x c')
  obtain y s where y: "ch_poll_flush ch (tc_inner c) = (y, s)" by fastforce
  with 6(2) have "c' = c\<lparr>tc_inner := s\<rparr>" by (simp add: tracked_channel_ops_def)
  with poll_flush_law[OF _ y] 6(1) show ?case by simp
next
  case (7 c x c')
  obtain y s where y: "ch_poll_close ch (tc_inner c) = (y, s)" by fastforce
  with 7(2) have "c' = c\<lparr>tc_inner := s\<rparr>" by (simp add: tracked_channel_ops_def)
  with poll_close_law[OF _ y] 7(1) show ?case by simp
qed (simp_all add: tracked_channel_ops_def finite_tracked in_flight_card)

end

interpretation tracked_base: channel_contract
  "tracked_channel_ops (base_channel_ops n env)" "\<lambda>c. base_inv env ent hz W (tc_inner c) \<and> tc_tracker c = t \<and> tc_key c = key"
  "\<lambda>c. base_tracked (tc_inner c)"
  for n env ent hz W t key
  by (rule base.tracked_contract)

text \<open>The other order: a tracked channel over a limited one.\<close>

interpretation tracked_limited: channel_contract
  "tracked_channel_ops (max_requests_ops k (base_channel_ops n env))"
  "\<lambda>c. base_inv env ent hz W (mr_inner (tc_inner c)) \<and> tc_tracker c = t \<and> tc_key c = key"
  "\<lambda>c. base_tracked (mr_inner (tc_inner c))"
  for k n env ent hz W t key
  by (rule limited_base.tracked_contract)

section \<open>Channels in execution\<close>

text \<open>\<^verbatim>\<open>Incoming::execute\<close>: every channel of the stream is turned into its stream of handlers.\<close>

definition incoming_execute_poll_next ::
  "('l \<Rightarrow> 'c option poll \<times> 'l) \<Rightarrow> ('serve \<Rightarrow> 'c \<Rightarrow> 'x) \<Rightarrow> 'serve \<Rightarrow> 'l \<Rightarrow> 'x option poll \<times> 'l" where
  "incoming_execute_poll_next poll_next execute srv l =
     (let (p, l) = poll_next l in (poll_map (map_option (execute srv)) p, l))"

text \<open>\<^verbatim>\<open>spawn_incoming\<close>: a \<^verbatim>\<open>while let\<close> over a stream that spawns each item, and the same for the requests of
  each channel.  A turn of the loop is one poll of the stream; \<open>spawn\<close> is \<^verbatim>\<open>tokio::spawn\<close>.\<close>

definition spawn_turn ::
  "('s \<Rightarrow> 'x option poll \<times> 's) \<Rightarrow> ('x \<Rightarrow> 's \<Rightarrow> 's) \<Rightarrow> 's \<Rightarrow> (unit poll control \<times> 's) outcome" where
  "spawn_turn poll_next spawn s =
     (case poll_next s of
        (Pending, s) \<Rightarrow> Return (Break Pending, s)
      | (Ready None, s) \<Rightarrow> Return (Break (Ready ()), s)
      | (Ready (Some x), s) \<Rightarrow> Return (Continue, spawn x s))"

definition spawn_incoming_poll ::
  "nat \<Rightarrow> ('s \<Rightarrow> 'x option poll \<times> 's) \<Rightarrow> ('x \<Rightarrow> 's \<Rightarrow> 's) \<Rightarrow> 's \<Rightarrow> (unit poll \<times> 's) outcome" where
  "spawn_incoming_poll n poll_next spawn = loop n (spawn_turn poll_next spawn)"

text \<open>A poll spawns everything that the stream has ready, in order, and returns: \<open>ready\<close> are the items that the
  stream yields before it is pending or at its end.\<close>

lemma spawn_incoming_poll_spawns:
  assumes some: "\<And>s x xs p s'. ready s = x # xs \<Longrightarrow> poll_next s = (p, s') \<Longrightarrow>
      p = Ready (Some x) \<and> ready s' = xs \<and> spawned s' = spawned s"
    and none: "\<And>s p s'. ready s = [] \<Longrightarrow> poll_next s = (p, s') \<Longrightarrow>
      (p = Pending \<or> p = Ready None) \<and> spawned s' = spawned s"
    and spawn: "\<And>x s. ready (spawn x s) = ready s \<and> spawned (spawn x s) = spawned s @ [x]"
    and fuel: "length (ready s) < n"
  shows "yields (spawn_incoming_poll n poll_next spawn s) (\<lambda>(p, s'). spawned s' = spawned s @ ready s)"
  using fuel
proof (induction "ready s" arbitrary: s n)
  case Nil
  obtain p s' where "poll_next s = (p, s')" by fastforce
  with none[of s p s'] Nil show ?case by (cases n) (auto simp: spawn_incoming_poll_def spawn_turn_def)
next
  case (Cons x xs)
  obtain p s' where p: "poll_next s = (p, s')" by fastforce
  obtain n' where n: "n = Suc n'" using Cons.prems by (cases n) auto
  have s': "p = Ready (Some x)" "ready (spawn x s') = xs" "spawned (spawn x s') = spawned s @ [x]"
    using some[OF Cons.hyps(2)[symmetric] p] spawn by simp_all
  have "length (ready (spawn x s')) < n'" using Cons.hyps(2) Cons.prems n s'(2) by (metis Suc_less_eq length_Cons)
  from Cons.hyps(1)[OF s'(2)[symmetric] this] s' p n Cons.hyps(2)[symmetric] show ?case
    by (simp add: spawn_incoming_poll_def spawn_turn_def)
qed

section \<open>Properties\<close>

text \<open>C20: The limits can be stacked: over a channel from \<^verbatim>\<open>max_channels_per_key\<close>, \<^verbatim>\<open>MaxRequests\<close> still never yields
  a request beyond its limit, says truthfully what is in flight, and changes neither the limit
  nor the tracker that counts the channel.\<close>

theorem stacked_limits:
  assumes "base_inv env ent hz W (tc_inner (mr_inner m))"
  shows "holds (max_requests_poll_next k (tracked_channel_ops (base_channel_ops n env)) m) (\<lambda>(p, m').
    base_inv env ent hz W (tc_inner (mr_inner m')) \<and> mr_max_in_flight_requests m' = mr_max_in_flight_requests m \<and>
    tc_tracker (mr_inner m') = tc_tracker (mr_inner m) \<and> tc_key (mr_inner m') = tc_key (mr_inner m) \<and>
    ch_in_flight_requests (max_requests_ops k (tracked_channel_ops (base_channel_ops n env))) m' =
      card (base_tracked (tc_inner (mr_inner m'))) \<and>
    card (base_tracked (tc_inner (mr_inner m'))) \<le>
      (case p of
         Ready (Some (Ok _)) \<Rightarrow> mr_max_in_flight_requests m
       | _ \<Rightarrow> max (card (base_tracked (tc_inner (mr_inner m)))) (mr_max_in_flight_requests m)))"
proof -
  let ?ch = "tracked_channel_ops (base_channel_ops n env)"
  let ?t = "tc_tracker (mr_inner m)" let ?k = "tc_key (mr_inner m)"
  have start: "base_inv env ent hz W (tc_inner (mr_inner m)) \<and> tc_tracker (mr_inner m) = ?t \<and> tc_key (mr_inner m) = ?k"
    using assms by simp
  show ?thesis
  proof (rule holds_mono[OF tracked_base.max_requests_poll_next_law[OF start]], goal_cases)
    case (1 x)
    obtain p m' where x: "x = (p, m')" by (cases x)
    with 1 have m': "base_inv env ent hz W (tc_inner (mr_inner m')) \<and> tc_tracker (mr_inner m') = ?t \<and> tc_key (mr_inner m') = ?k"
      and within: "within_limit ?ch m p m'" by simp_all
    show ?case
      using x m' within tracked_base.in_flight_card[OF start, of n] tracked_base.in_flight_card[OF m', of n]
      by (cases p rule: poll_option_result_cases) (simp_all add: within_limit_def max_requests_ops_def)
  qed
qed

theorem stacked_limits_witness:
  "holds (max_requests_poll_next 9 (tracked_channel_ops (base_channel_ops 9 server_script_env))
       (max_requests_new \<lparr>tc_inner = sample_channel, tc_tracker = 0, tc_key = (7 :: nat)\<rparr> 1)) (\<lambda>(p, m').
     card (base_tracked (tc_inner (mr_inner m'))) \<le> 1 \<and> tc_key (mr_inner m') = 7)"
proof -
  let ?m = "max_requests_new \<lparr>tc_inner = sample_channel, tc_tracker = 0, tc_key = (7 :: nat)\<rparr> 1"
  have "base_inv server_script_env map_of 100 server_script_ok (tc_inner (mr_inner ?m))"
    using sample_channel_inv by (simp add: max_requests_new_def)
  from stacked_limits[OF this, of 9 9] show ?thesis
    by (rule holds_mono)
      (auto simp: max_requests_new_def sample_channel_tracked split: poll.splits option.splits result.splits)
qed

end
