(* ===== verification/Request_Hooks.thy ===== *)
theory Request_Hooks
  imports Runtime
begin

text \<open>
  \<^verbatim>\<open>tarpc/src/server/request_hook.rs\<close> and its submodules, with \<^verbatim>\<open>Serve\<close> and \<^verbatim>\<open>ServeFn\<close> of
  \<^verbatim>\<open>tarpc/src/server.rs\<close>: service functions with hooks that run before and after them.  A service
  function and a hook are \<^verbatim>\<open>async\<close>; a call stands for the whole of it, from the first poll to
  its result, with the world \<open>'w\<close> threaded through.  A hook \<open>'h\<close> may change itself, the request
  context and, after the request, the response.
\<close>

section \<open>Service functions and hooks\<close>

type_synonym ('w, 'req, 'resp) serve_fn = "rpc_context \<Rightarrow> 'req \<Rightarrow> 'w \<Rightarrow> ('resp, server_error) result \<times> 'w"

type_synonym ('w, 'h, 'req) before_request =
  "'h \<Rightarrow> rpc_context \<Rightarrow> 'req \<Rightarrow> 'w \<Rightarrow> (unit, server_error) result \<times> 'h \<times> rpc_context \<times> 'w"

type_synonym ('w, 'h, 'resp) after_request =
  "'h \<Rightarrow> rpc_context \<Rightarrow> ('resp, server_error) result \<Rightarrow> 'w \<Rightarrow>
   'h \<times> rpc_context \<times> ('resp, server_error) result \<times> 'w"

definition serve :: "('w, 'req, 'resp) serve_fn \<Rightarrow> ('w, 'req, 'resp) serve_fn" where
  "serve f = (\<lambda>ctx req w. f ctx req w)"

definition hook_then_serve ::
  "('w, 'h, 'req) before_request \<Rightarrow> ('w, 'req, 'resp) serve_fn \<Rightarrow> 'h \<Rightarrow> ('w, 'req, 'resp) serve_fn" where
  "hook_then_serve before srv hook = (\<lambda>ctx req w.
     case before hook ctx req w of
       (Err e, hook, ctx, w) \<Rightarrow> (Err e, w)
     | (Ok _, hook, ctx, w) \<Rightarrow> srv ctx req w)"

definition serve_then_hook ::
  "('w, 'h, 'resp) after_request \<Rightarrow> ('w, 'req, 'resp) serve_fn \<Rightarrow> 'h \<Rightarrow> ('w, 'req, 'resp) serve_fn" where
  "serve_then_hook after srv hook = (\<lambda>ctx req w.
     let (resp, w) = srv ctx req w;
         (hook, ctx, resp, w) = after hook ctx resp w
     in (resp, w))"

definition hook_then_serve_then_hook ::
  "('w, 'h, 'req) before_request \<Rightarrow> ('w, 'h, 'resp) after_request \<Rightarrow> ('w, 'req, 'resp) serve_fn \<Rightarrow> 'h \<Rightarrow>
   ('w, 'req, 'resp) serve_fn" where
  "hook_then_serve_then_hook before after srv hook = (\<lambda>ctx req w.
     case before hook ctx req w of
       (Err e, hook, ctx, w) \<Rightarrow> (Err e, w)
     | (Ok _, hook, ctx, w) \<Rightarrow>
         (let (resp, w) = srv ctx req w;
              (hook, ctx, resp, w) = after hook ctx resp w
          in (resp, w)))"

section \<open>Lists of hooks\<close>

text \<open>The source builds a list by the type of its tail.  Here the hooks have one type \<open>'h\<close>, and
  \<open>run\<close> is their \<^verbatim>\<open>before\<close>.\<close>

datatype 'h before_request_list = BeforeRequestNil | BeforeRequestCons 'h "'h before_request_list"

fun before_list :: "('w, 'h, 'req) before_request \<Rightarrow> ('w, 'h before_request_list, 'req) before_request" where
  "before_list run BeforeRequestNil ctx req w = (Ok (), BeforeRequestNil, ctx, w)"
| "before_list run (BeforeRequestCons first rest) ctx req w =
     (case run first ctx req w of
        (Err e, first, ctx, w) \<Rightarrow> (Err e, BeforeRequestCons first rest, ctx, w)
      | (Ok _, first, ctx, w) \<Rightarrow>
          (case before_list run rest ctx req w of
             (Err e, rest, ctx, w) \<Rightarrow> (Err e, BeforeRequestCons first rest, ctx, w)
           | (Ok _, rest, ctx, w) \<Rightarrow> (Ok (), BeforeRequestCons first rest, ctx, w)))"

definition before_new :: "'h before_request_list" where
  "before_new = BeforeRequestNil"

fun before_then :: "'h before_request_list \<Rightarrow> 'h \<Rightarrow> 'h before_request_list" where
  "before_then (BeforeRequestCons first rest) next_hook = BeforeRequestCons first (before_then rest next_hook)"
| "before_then BeforeRequestNil next_hook = BeforeRequestCons next_hook BeforeRequestNil"

fun before_serving ::
  "('w, 'h, 'req) before_request \<Rightarrow> 'h before_request_list \<Rightarrow> ('w, 'req, 'resp) serve_fn \<Rightarrow> ('w, 'req, 'resp) serve_fn" where
  "before_serving run (BeforeRequestCons first rest) srv =
     hook_then_serve (before_list run) srv (BeforeRequestCons first rest)"
| "before_serving run BeforeRequestNil srv = srv"

section \<open>The order of the hooks\<close>

text \<open>The reference: run the hooks of a list one after the other, each on the context that the
  previous one left, until one fails.\<close>

fun run_hooks ::
  "('w, 'h, 'req) before_request \<Rightarrow> 'h list \<Rightarrow> rpc_context \<Rightarrow> 'req \<Rightarrow> 'w \<Rightarrow> (rpc_context, server_error) result \<times> 'w" where
  "run_hooks run [] ctx req w = (Ok ctx, w)"
| "run_hooks run (h # hs) ctx req w =
     (case run h ctx req w of
        (Err e, _, _, w) \<Rightarrow> (Err e, w)
      | (Ok _, _, ctx, w) \<Rightarrow> run_hooks run hs ctx req w)"

definition hook_chain :: "'h list \<Rightarrow> 'h before_request_list" where
  "hook_chain hs = foldl before_then before_new hs"

fun hooks_of :: "'h before_request_list \<Rightarrow> 'h list" where
  "hooks_of BeforeRequestNil = []"
| "hooks_of (BeforeRequestCons h rest) = h # hooks_of rest"

lemma hooks_of_then [simp]: "hooks_of (before_then l h) = hooks_of l @ [h]"
  by (induction l) auto

lemma hooks_of_chain [simp]: "hooks_of (hook_chain hs) = hs"
proof -
  have "hooks_of (foldl before_then l hs) = hooks_of l @ hs" for l
    by (induction hs arbitrary: l) auto
  then show ?thesis by (simp add: hook_chain_def before_new_def)
qed

lemma before_list_run:
  "(case before_list run l ctx req w of (r, _, ctx', w') \<Rightarrow> (case r of Ok _ \<Rightarrow> Ok ctx' | Err e \<Rightarrow> Err e, w')) =
   run_hooks run (hooks_of l) ctx req w"
proof (induction l arbitrary: ctx w)
  case (BeforeRequestCons h l)
  obtain r h' ctx' w' where h: "run h ctx req w = (r, h', ctx', w')" by (metis prod_cases4)
  obtain r2 l2 ctx2 w2 where l: "before_list run l ctx' req w' = (r2, l2, ctx2, w2)" by (metis prod_cases4)
  show ?case using BeforeRequestCons[of ctx' w'] h l by (cases r; cases r2) simp_all
qed simp

lemma before_serving_run:
  "before_serving run l srv ctx req w =
   (case run_hooks run (hooks_of l) ctx req w of (Err e, w') \<Rightarrow> (Err e, w') | (Ok ctx', w') \<Rightarrow> srv ctx' req w')"
proof -
  obtain r l' ctx' w' where b: "before_list run l ctx req w = (r, l', ctx', w')" by (metis prod_cases4)
  have "before_serving run l srv ctx req w = hook_then_serve (before_list run) srv l ctx req w"
    by (cases l) (simp_all add: hook_then_serve_def)
  also have "\<dots> = (case (case r of Ok _ \<Rightarrow> Ok ctx' | Err e \<Rightarrow> Err e, w') of
      (Err e, w') \<Rightarrow> (Err e, w') | (Ok ctx', w') \<Rightarrow> srv ctx' req w')"
    using b by (cases r) (simp_all add: hook_then_serve_def)
  finally show ?thesis using b by (simp flip: before_list_run)
qed

section \<open>Properties\<close>

text \<open>C32: The hooks given to \<^verbatim>\<open>before().then(h1).then(h2)...serving(serve)\<close> run in the order in which they
  were added, each on the context that the one before it left; the first error is the response
  and then neither a later hook nor the service runs; without an error the service is called
  once, on the last context.\<close>

theorem hooks_run_in_order:
  "before_serving run (hook_chain hooks) srv ctx req w =
   (case run_hooks run hooks ctx req w of
      (Err e, w') \<Rightarrow> (Err e, w')
    | (Ok ctx', w') \<Rightarrow> srv ctx' req w')"
  by (simp add: before_serving_run)

text \<open>\<^verbatim>\<open>serve.before_and_after(hook)\<close> is \<^verbatim>\<open>serve.after(hook).before(hook)\<close> for a hook that keeps no
  state of its own: the second half sees the context the first half left, and is skipped, like the
  service, when the first half fails.\<close>

theorem before_and_after_composes:
  assumes "\<And>h h' c r w. snd (after h c r w) = snd (after h' c r w)"
  shows "hook_then_serve_then_hook before after srv hook = hook_then_serve before (serve_then_hook after srv hook) hook"
proof (intro ext)
  fix ctx req w
  obtain r hook' ctx' w' where b: "before hook ctx req w = (r, hook', ctx', w')" by (metis prod_cases4)
  obtain resp w2 where s: "srv ctx' req w' = (resp, w2)" by fastforce
  have "snd (after hook' ctx' resp w2) = snd (after hook ctx' resp w2)" by (rule assms)
  with b s show "hook_then_serve_then_hook before after srv hook ctx req w =
      hook_then_serve before (serve_then_hook after srv hook) hook ctx req w"
    by (cases r) (auto simp: hook_then_serve_then_hook_def hook_then_serve_def serve_then_hook_def split: prod.splits)
qed

theorem before_and_after_composes_witness:
  "hook_then_serve_then_hook (\<lambda>h c r w. (Ok (), h, c, w)) (\<lambda>h c r w. (h, c, r, Suc w)) (\<lambda>c r w. (Ok r, w)) () =
   hook_then_serve (\<lambda>h c r w. (Ok (), h, c, w)) (serve_then_hook (\<lambda>h c r w. (h, c, r, Suc w)) (\<lambda>c r w. (Ok r, w)) ()) ()"
  by (rule before_and_after_composes) simp

text \<open>With \<^verbatim>\<open>serve.before(b).after(a)\<close> the second hook does run when the first one fails, on the
  error and on the original context: that is the difference to \<^verbatim>\<open>before_and_after\<close>.\<close>

theorem after_sees_before_error:
  assumes "before hook ctx req w = (Err e, hook', ctx', w')"
  shows "serve_then_hook after (hook_then_serve before srv hook) hook2 ctx req w =
           (case after hook2 ctx (Err e) w' of (_, _, resp, w2) \<Rightarrow> (resp, w2)) \<and>
         hook_then_serve_then_hook before after srv hook ctx req w = (Err e, w')"
  using assms by (auto simp: serve_then_hook_def hook_then_serve_def hook_then_serve_then_hook_def split: prod.splits)

definition refuse :: "(nat, unit, nat) before_request" where
  "refuse h c r w = (Err \<lparr>kind = Other, detail = ''no''\<rparr>, h, c, Suc w)"

definition recover :: "(nat, unit, nat) after_request" where
  "recover h c r w = (h, c, Ok 7, Suc w)"

theorem after_sees_before_error_witness:
  "\<forall>ctx0. serve_then_hook recover (hook_then_serve refuse (\<lambda>c r w. (Ok r, 100)) ()) () ctx0 5 0 = (Ok 7, 2) \<and>
   hook_then_serve_then_hook refuse recover (\<lambda>c r w. (Ok r, 100)) () ctx0 5 0 = (Err \<lparr>kind = Other, detail = ''no''\<rparr>, 1)"
proof
  fix ctx0
  show "serve_then_hook recover (hook_then_serve refuse (\<lambda>c r w. (Ok r, 100)) ()) () ctx0 5 0 = (Ok 7, 2) \<and>
   hook_then_serve_then_hook refuse recover (\<lambda>c r w. (Ok r, 100)) () ctx0 5 0 = (Err \<lparr>kind = Other, detail = ''no''\<rparr>, 1)"
    using after_sees_before_error[of refuse "()" ctx0 5 0 "\<lparr>kind = Other, detail = ''no''\<rparr>" "()" ctx0 1 recover
        "\<lambda>c r w. (Ok r, 100)" "()"]
    by (simp add: refuse_def recover_def)
qed

end
