(* ===== verification/Stubs.thy ===== *)
theory Stubs
  imports Request_Hooks
begin

text \<open>
  \<^verbatim>\<open>tarpc/src/client/stub.rs\<close> and its submodules: stubs that call a service through other stubs, by
  round robin, by consistent hashing, or with retries.  A stub's \<^verbatim>\<open>call\<close> is \<^verbatim>\<open>async\<close>; as for service
  functions, a call stands for the whole of it.
\<close>

section \<open>Stubs\<close>

type_synonym ('w, 'req, 'resp, 'e) stub = "rpc_context \<Rightarrow> 'req \<Rightarrow> 'w \<Rightarrow> ('resp, 'e rpc_error) result \<times> 'w"

text \<open>A stub over other stubs may panic where it chooses one.\<close>

type_synonym ('w, 'req, 'resp, 'e) panicking_stub =
  "rpc_context \<Rightarrow> 'req \<Rightarrow> 'w \<Rightarrow> (('resp, 'e rpc_error) result \<times> 'w) outcome"

text \<open>Every service function is a stub.\<close>

definition serve_call :: "('w, 'req, 'resp) serve_fn \<Rightarrow> ('w, 'req, 'resp, 'e) stub" where
  "serve_call srv = (\<lambda>ctx req w. let (r, w) = srv ctx req w in (map_err Server r, w))"

section \<open>Round robin\<close>

text \<open>\<^verbatim>\<open>AtomicCycle\<close>: \<^verbatim>\<open>fetch_add\<close> wraps around at the width of a \<^verbatim>\<open>usize\<close>; the remainder by zero and an
  index out of range panic.\<close>

record 't cycle =
  cy_elements :: "'t list"
  cy_next :: "64 word"

definition cycle_new :: "'t list \<Rightarrow> 't cycle" where
  "cycle_new elements = \<lparr>cy_elements = elements, cy_next = 0\<rparr>"

definition cycle_next :: "'t cycle \<Rightarrow> ('t \<times> 't cycle) outcome" where
  "cycle_next c =
     (let next_index = cy_next c; c = c\<lparr>cy_next := next_index + 1\<rparr>; n = length (cy_elements c) in
      if n = 0 then Panic
      else or_panic (if unat next_index mod n < n then Some (cy_elements c ! (unat next_index mod n), c) else None))"

definition round_robin_call ::
  "('stub \<Rightarrow> ('w, 'req, 'resp, 'e) stub) \<Rightarrow> 'stub cycle \<Rightarrow> rpc_context \<Rightarrow> 'req \<Rightarrow> 'w \<Rightarrow>
   ((('resp, 'e rpc_error) result \<times> 'w) \<times> 'stub cycle) outcome" where
  "round_robin_call call stubs ctx request w =
     obind (cycle_next stubs) (\<lambda>(next_stub, stubs). Return (call next_stub ctx request w, stubs))"

text \<open>The elements that \<open>k\<close> calls choose, one after the other.\<close>

fun cycle_take :: "nat \<Rightarrow> 't cycle \<Rightarrow> ('t list \<times> 't cycle) outcome" where
  "cycle_take 0 c = Return ([], c)"
| "cycle_take (Suc k) c =
     obind (cycle_next c) (\<lambda>(x, c). obind (cycle_take k c) (\<lambda>(xs, c). Return (x # xs, c)))"

lemma cycle_next_result:
  assumes "cy_elements c \<noteq> []"
  shows "cycle_next c = Return (cy_elements c ! (unat (cy_next c) mod length (cy_elements c)), c\<lparr>cy_next := cy_next c + 1\<rparr>)"
  using assms by (simp add: cycle_next_def Let_def)

lemma unat_step: "unat (x :: 64 word) + 1 < 2 ^ 64 \<Longrightarrow> unat (x + 1) = unat x + 1"
  by (simp add: unat_word_ariths)

lemma cycle_take_result:
  assumes "cy_elements c \<noteq> []"
  shows "unat (cy_next c) + k \<le> 2 ^ 64 \<Longrightarrow>
    cycle_take k c = Return (map (\<lambda>i. cy_elements c ! ((unat (cy_next c) + i) mod length (cy_elements c))) [0..<k],
                             c\<lparr>cy_next := cy_next c + of_nat k\<rparr>)"
  using assms
proof (induction k arbitrary: c)
  case (Suc k)
  let ?c = "c\<lparr>cy_next := cy_next c + 1\<rparr>"
  show ?case
  proof (cases "k = 0")
    case True
    with cycle_next_result[OF Suc.prems(2)] show ?thesis by simp
  next
    case False
    then have u: "unat (cy_next c + 1) = unat (cy_next c) + 1"
      using Suc.prems(1) by (intro unat_step) simp
    have "cycle_take k ?c = Return (map (\<lambda>i. cy_elements c ! ((unat (cy_next c) + 1 + i) mod length (cy_elements c))) [0..<k],
        c\<lparr>cy_next := cy_next c + 1 + of_nat k\<rparr>)"
      using Suc.IH[of ?c] Suc.prems u by simp
    moreover have "[0..<Suc k] = 0 # map Suc [0..<k]" by (simp add: map_Suc_upt upt_conv_Cons)
    ultimately show ?thesis
      using cycle_next_result[OF Suc.prems(2)] by (simp add: add.assoc comp_def)
  qed
qed simp

section \<open>Consistent hashing\<close>

datatype try_from_int_error = TryFromIntError

record 'stub consistent_hash =
  ch_stubs :: "'stub list"
  ch_stubs_len :: u64

definition with_hasher :: "'stub list \<Rightarrow> ('stub consistent_hash, try_from_int_error) result" where
  "with_hasher stubs =
     (if length stubs < 2 ^ 64 then Ok \<lparr>ch_stubs = stubs, ch_stubs_len = of_nat (length stubs)\<rparr>
      else Err TryFromIntError)"

text \<open>\<open>hash_one\<close> is that of the hasher.  The remainder by zero and an index out of range panic; a \<^verbatim>\<open>usize\<close>
  has 64 bits, so that the conversion of the index does not fail.\<close>

definition consistent_hash_pick :: "('req \<Rightarrow> u64) \<Rightarrow> 'stub consistent_hash \<Rightarrow> 'req \<Rightarrow> 'stub outcome" where
  "consistent_hash_pick hash_one c request =
     (if ch_stubs_len c = 0 then Panic
      else let index = unat (hash_one request mod ch_stubs_len c)
           in or_panic (if index < length (ch_stubs c) then Some (ch_stubs c ! index) else None))"

definition consistent_hash_call ::
  "('req \<Rightarrow> u64) \<Rightarrow> ('stub \<Rightarrow> ('w, 'req, 'resp, 'e) stub) \<Rightarrow> 'stub consistent_hash \<Rightarrow> rpc_context \<Rightarrow> 'req \<Rightarrow> 'w \<Rightarrow>
   (('resp, 'e rpc_error) result \<times> 'w) outcome" where
  "consistent_hash_call hash_one call c ctx request w =
     obind (consistent_hash_pick hash_one c request) (\<lambda>next_stub. Return (call next_stub ctx request w))"

section \<open>Retries\<close>

text \<open>\<^verbatim>\<open>for i in 1..\<close> counts in a \<^verbatim>\<open>u32\<close>.  Before it yields a number the range computes the next one, which
  panics at the largest number when overflow checks are on, and wraps around otherwise; so the
  loop only ends through its body.\<close>

definition retry_turn ::
  "bool \<Rightarrow> (('resp, 'e rpc_error) result \<Rightarrow> 32 word \<Rightarrow> bool) \<Rightarrow> ('w, 'req, 'resp, 'e) panicking_stub \<Rightarrow> rpc_context \<Rightarrow> 'req \<Rightarrow>
   32 word \<times> 'w \<Rightarrow> (('resp, 'e rpc_error) result control \<times> 32 word \<times> 'w) outcome" where
  "retry_turn overflow_checks should_retry stub ctx request = (\<lambda>(i, w).
     if overflow_checks \<and> i + 1 = 0 then Panic
     else obind (stub ctx request w) (\<lambda>(result, w).
          if should_retry result i then Return (Continue, i + 1, w) else Return (Break result, i + 1, w)))"

definition retry_call ::
  "nat \<Rightarrow> bool \<Rightarrow> (('resp, 'e rpc_error) result \<Rightarrow> 32 word \<Rightarrow> bool) \<Rightarrow> ('w, 'req, 'resp, 'e) panicking_stub \<Rightarrow>
   ('w, 'req, 'resp, 'e) panicking_stub" where
  "retry_call n overflow_checks should_retry stub = (\<lambda>ctx request w.
     obind (loop n (retry_turn overflow_checks should_retry stub ctx request) (1, w)) (\<lambda>(result, i, w). Return (result, w)))"

text \<open>The attempt after \<open>k\<close> earlier ones, whose results are ignored.\<close>

fun attempt :: "('w, 'req, 'resp, 'e) panicking_stub \<Rightarrow> rpc_context \<Rightarrow> 'req \<Rightarrow> nat \<Rightarrow> 'w \<Rightarrow>
    (('resp, 'e rpc_error) result \<times> 'w) outcome" where
  "attempt stub ctx request 0 w = stub ctx request w"
| "attempt stub ctx request (Suc k) w = obind (stub ctx request w) (\<lambda>(_, w). attempt stub ctx request k w)"

lemma retry_loop:
  assumes "\<And>j. j < k \<Longrightarrow> \<exists>r v. attempt stub ctx request j w = Return (r, v) \<and> should_retry r (i + of_nat j)"
    and "attempt stub ctx request k w = Return (result, w')" "\<not> should_retry result (i + of_nat k)"
    and "unat i + k + 1 < 2 ^ 32" and "k < n"
  shows "loop n (retry_turn overflow_checks should_retry stub ctx request) (i, w) = Return (result, i + of_nat (Suc k), w')"
  using assms
proof (induction k arbitrary: n i w)
  case 0
  then obtain n' where n: "n = Suc n'" by (cases n) auto
  have "unat (i + 1) = unat i + 1" using 0(4) by (simp add: unat_word_ariths)
  then have "i + 1 \<noteq> 0" by (metis add_is_0 one_neq_zero unat_0)
  then show ?case using 0(2,3) n by (simp add: retry_turn_def)
next
  case (Suc k)
  then obtain n' where n: "n = Suc n'" by (cases n) auto
  obtain r w1 where r: "stub ctx request w = Return (r, w1)" "should_retry r i" using Suc.prems(1)[of 0] by auto
  have u: "unat (i + 1) = unat i + 1" using Suc.prems(4) by (simp add: unat_word_ariths)
  then have "i + 1 \<noteq> 0" by (metis add_is_0 one_neq_zero unat_0)
  moreover have "loop n' (retry_turn overflow_checks should_retry stub ctx request) (i + 1, w1) =
      Return (result, i + 1 + of_nat (Suc k), w')"
  proof (rule Suc.IH)
    show "\<exists>r v. attempt stub ctx request j w1 = Return (r, v) \<and> should_retry r (i + 1 + of_nat j)" if "j < k" for j
      using Suc.prems(1)[of "Suc j"] that r by (simp add: add.assoc)
    show "attempt stub ctx request k w1 = Return (result, w')" using Suc.prems(2) r by simp
    show "\<not> should_retry result (i + 1 + of_nat k)" using Suc.prems(3) by (simp add: add.assoc)
  qed (use Suc.prems(4,5) u n in simp_all)
  ultimately show ?case using n r by (simp add: retry_turn_def add.assoc)
qed

lemma retry_call_first:
  assumes "\<And>j. j < k \<Longrightarrow> \<exists>r v. attempt stub ctx request j w = Return (r, v) \<and> should_retry r (of_nat (Suc j))"
    and "attempt stub ctx request k w = Return (result, w')" "\<not> should_retry result (of_nat (Suc k))"
    and "k + 2 < 2 ^ 32" and "k < n"
  shows "retry_call n overflow_checks should_retry stub ctx request w = Return (result, w')"
  using retry_loop[of k stub ctx request w should_retry 1 result w' n overflow_checks] assms
  by (simp add: retry_call_def)

section \<open>Mocks\<close>

text \<open>\<^verbatim>\<open>HashMap::from\<close> keeps the last of the pairs with the same key.\<close>

definition mock_new :: "('req \<times> 'resp) list \<Rightarrow> ('req \<rightharpoonup> 'resp)" where
  "mock_new responses = map_of (rev responses)"

definition mock_call :: "('req \<rightharpoonup> 'resp) \<Rightarrow> ('w, 'req, 'resp, 'e) stub" where
  "mock_call responses = (\<lambda>ctx request w.
     (case responses request of
        Some r \<Rightarrow> Ok r
      | None \<Rightarrow> Err (Server \<lparr>kind = NotFound, detail = ''mock (request, response) entry not found''\<rparr>), w))"

section \<open>Properties\<close>

text \<open>Round robin over any number of stubs but zero never panics and is fair: call number \<open>i\<close> goes to
  stub \<open>i\<close> modulo the number of stubs, as long as the counter has not wrapped around.\<close>

theorem round_robin_cycles:
  assumes "stubs \<noteq> []" "k \<le> 2 ^ 64"
  shows "cycle_take k (cycle_new stubs) =
    Return (map (\<lambda>i. stubs ! (i mod length stubs)) [0..<k], \<lparr>cy_elements = stubs, cy_next = of_nat k\<rparr>)"
  using cycle_take_result[of "cycle_new stubs" k] assms by (simp add: cycle_new_def)

theorem round_robin_cycles_witness:
  "cycle_take 4 (cycle_new [1, 2, 3 :: nat]) = Return ([1, 2, 3, 1], \<lparr>cy_elements = [1, 2, 3], cy_next = 4\<rparr>)"
  using round_robin_cycles[of "[1, 2, 3 :: nat]" 4] by (simp add: upt_rec)

text \<open>When the counter wraps around, the rotation jumps: with three stubs the call with the largest
  number and the next one go to the same stub.\<close>

theorem round_robin_wraps:
  "cycle_take 2 \<lparr>cy_elements = [1, 2, 3 :: nat], cy_next = - 1\<rparr> =
   Return ([1, 1], \<lparr>cy_elements = [1, 2, 3], cy_next = 1\<rparr>)"
proof -
  have "unat (- 1 :: 64 word) mod 3 = 0" by (simp add: unsigned_minus_1_eq_mask mask_eq_exp_minus_1)
  then show ?thesis by (simp add: numeral_2_eq_2 cycle_next_def)
qed

text \<open>Consistent hashing sends a request to the stub that its hash picks: the index is always in
  range, so that the call does not panic, and requests with equal hashes go to the same stub.
  Over no stubs at all every call panics.\<close>

theorem consistent_hash_picks:
  assumes "with_hasher stubs = Ok c"
  shows "consistent_hash_call hash_one call c ctx request w =
    (if stubs = [] then Panic
     else Return (call (stubs ! (unat (hash_one request) mod length stubs)) ctx request w))"
proof -
  have len: "length stubs < 2 ^ 64" and c: "c = \<lparr>ch_stubs = stubs, ch_stubs_len = of_nat (length stubs)\<rparr>"
    using assms by (auto simp: with_hasher_def split: if_splits)
  have u: "unat (of_nat (length stubs) :: u64) = length stubs" using len by (simp add: unat_of_nat)
  then have "(of_nat (length stubs) :: u64) = 0 \<longleftrightarrow> stubs = []" by (metis length_0_conv unat_eq_zero)
  moreover have "unat (hash_one request mod (of_nat (length stubs) :: u64)) = unat (hash_one request) mod length stubs"
    by (simp add: unat_mod_distrib u)
  ultimately show ?thesis by (simp add: consistent_hash_call_def consistent_hash_pick_def c Let_def)
qed

theorem consistent_hash_picks_witness:
  "\<exists>c. with_hasher [10, 20, 30 :: nat] = Ok c \<and>
     (\<forall>ctx. consistent_hash_call (\<lambda>r. r) (\<lambda>s ctx r w. (Ok s :: (nat, nat rpc_error) result, w)) c ctx 5 () = Return (Ok 30, ()))"
proof -
  obtain c where c: "with_hasher [10, 20, 30 :: nat] = Ok c" by (simp add: with_hasher_def)
  have "consistent_hash_call (\<lambda>r. r) (\<lambda>s ctx r w. (Ok s :: (nat, nat rpc_error) result, w)) c ctx 5 () = Return (Ok 30, ())" for ctx
    by (subst consistent_hash_picks[OF c]) simp
  with c show ?thesis by blast
qed

text \<open>C33: A retrying stub calls the stub below it until \<^verbatim>\<open>should_retry\<close> refuses the result, and returns that
  result: if attempt \<open>k + 1\<close> is the first one refused, the stub is called exactly \<open>k + 1\<close> times, with the
  attempts numbered from one.  It returns whenever such an attempt comes before the counter
  overflows.\<close>

theorem retry_returns_first_accepted:
  assumes "\<And>j. j < k \<Longrightarrow> \<exists>r v. attempt stub ctx request j w = Return (r, v) \<and> should_retry r (of_nat (Suc j))"
    and "attempt stub ctx request k w = Return (result, w')" "\<not> should_retry result (of_nat (Suc k))"
    and "k + 2 < 2 ^ 32" and "k < n"
  shows "retry_call n overflow_checks should_retry stub ctx request w = Return (result, w')"
  using assms by (rule retry_call_first)

definition flaky :: "(nat, nat, nat, nat) panicking_stub" where
  "flaky ctx r w = Return (if w < 2 then Err Shutdown else Ok (r + w), Suc w)"

definition on_shutdown :: "(nat, nat rpc_error) result \<Rightarrow> 32 word \<Rightarrow> bool" where
  "on_shutdown r i \<longleftrightarrow> r = Err Shutdown"

theorem retry_returns_first_accepted_witness:
  "\<forall>ctx. retry_call 5 True on_shutdown flaky ctx 10 0 = Return (Ok 12, 3)"
proof
  fix ctx
  have "\<exists>r v. attempt flaky ctx 10 j 0 = Return (r, v) \<and> on_shutdown r (of_nat (Suc j))" if "j < 2" for j
    using that by (cases j) (auto simp: on_shutdown_def flaky_def less_Suc_eq numeral_2_eq_2)
  moreover have "attempt flaky ctx 10 2 0 = Return (Ok 12, 3)" by (simp add: flaky_def numeral_2_eq_2)
  ultimately show "retry_call 5 True on_shutdown flaky ctx 10 0 = Return (Ok 12, 3)"
    using retry_returns_first_accepted[of 2 flaky ctx 10 0 on_shutdown "Ok 12" 3 5 True] by (simp add: on_shutdown_def)
qed

end
