(* ===== verification/Memory_Transport.thy ===== *)
theory Memory_Transport
  imports Runtime
begin

text \<open>
  \<^verbatim>\<open>tarpc/src/transport/channel.rs\<close>: transports over in-memory channels.  The channels are those of
  \<^verbatim>\<open>tokio\<close> and \<^verbatim>\<open>futures\<close>, given by their operations on the world; what is relied on of the unbounded
  one is \<open>mpsc_laws\<close>.
\<close>

section \<open>Transports\<close>

datatype 'x memory_error = MemoryReady 'x | MemorySend 'x | MemoryReceive 'x

record ('w, 'm) unbounded_sender =
  us_send :: "'w \<Rightarrow> 'm \<Rightarrow> (unit, 'm) result \<times> 'w"
  us_is_closed :: "'w \<Rightarrow> bool"

type_synonym ('w, 'm) receiver = "'w \<Rightarrow> 'm option poll \<times> 'w"

definition closed_message :: string where
  "closed_message = ''the channel is closed and cannot accept new items for sending''"

text \<open>\<^verbatim>\<open>UnboundedChannel\<close>.\<close>

definition unbounded_channel ::
  "('w, 'out) unbounded_sender \<Rightarrow> ('w, 'inn) receiver \<Rightarrow> ('w, 'out, 'inn, string memory_error) transport" where
  "unbounded_channel tx rx =
     \<lparr>tr_poll_next = (\<lambda>w. let (p, w) = rx w in (poll_map (map_option Ok) p, w)),
      tr_poll_ready = (\<lambda>w. (Ready (if us_is_closed tx w then Err (MemoryReady closed_message) else Ok ()), w)),
      tr_start_send = (\<lambda>w item. let (r, w) = us_send tx w item in (map_err (\<lambda>_. MemorySend closed_message) r, w)),
      tr_poll_flush = (\<lambda>w. (Ready (Ok ()), w)),
      tr_poll_close = (\<lambda>w. (Ready (Ok ()), w))\<rparr>"

text \<open>\<^verbatim>\<open>unbounded\<close>: the two ends of two channels, crossed.\<close>

definition unbounded ::
  "(('w, 'a) unbounded_sender \<times> ('w, 'a) receiver) \<Rightarrow> (('w, 'b) unbounded_sender \<times> ('w, 'b) receiver) \<Rightarrow>
   ('w, 'a, 'b, string memory_error) transport \<times> ('w, 'b, 'a, string memory_error) transport" where
  "unbounded first second =
     (let (tx1, rx2) = first; (tx2, rx1) = second
      in (unbounded_channel tx1 rx1, unbounded_channel tx2 rx2))"

record ('w, 'm, 'x) bounded_sender =
  bs_poll_ready :: "'w \<Rightarrow> (unit, 'x) result poll \<times> 'w"
  bs_start_send :: "'w \<Rightarrow> 'm \<Rightarrow> (unit, 'x) result \<times> 'w"
  bs_poll_flush :: "'w \<Rightarrow> (unit, 'x) result poll \<times> 'w"
  bs_poll_close :: "'w \<Rightarrow> (unit, 'x) result poll \<times> 'w"

text \<open>\<^verbatim>\<open>Channel\<close>, with a buffer.\<close>

definition bounded_channel ::
  "('w, 'out, 'x) bounded_sender \<Rightarrow> ('w, 'inn) receiver \<Rightarrow> ('w, 'out, 'inn, 'x memory_error) transport" where
  "bounded_channel tx rx =
     \<lparr>tr_poll_next = (\<lambda>w. let (p, w) = rx w in (poll_map (map_option Ok) p, w)),
      tr_poll_ready = (\<lambda>w. let (p, w) = bs_poll_ready tx w in (poll_map (map_err MemoryReady) p, w)),
      tr_start_send = (\<lambda>w item. let (r, w) = bs_start_send tx w item in (map_err MemorySend r, w)),
      tr_poll_flush = (\<lambda>w. let (p, w) = bs_poll_flush tx w in (poll_map (map_err MemorySend) p, w)),
      tr_poll_close = (\<lambda>w. let (p, w) = bs_poll_close tx w in (poll_map (map_err MemorySend) p, w))\<rparr>"

definition bounded ::
  "(nat \<Rightarrow> ('w, 'a, 'x) bounded_sender \<times> ('w, 'a) receiver) \<Rightarrow> (nat \<Rightarrow> ('w, 'b, 'x) bounded_sender \<times> ('w, 'b) receiver) \<Rightarrow>
   nat \<Rightarrow> ('w, 'a, 'b, 'x memory_error) transport \<times> ('w, 'b, 'a, 'x memory_error) transport" where
  "bounded first second capacity =
     (let (tx1, rx2) = first capacity; (tx2, rx1) = second capacity
      in (bounded_channel tx1 rx1, bounded_channel tx2 rx2))"

section \<open>Links\<close>

text \<open>A link from one sink to one stream.  What the sink accepts waits in the link, \<open>queue\<close>, and comes out
  once and in order; it may take its time, and it may fail.\<close>

locale lossless_link =
  fixes send :: "'w \<Rightarrow> 'm \<Rightarrow> (unit, 'e) result \<times> 'w" and recv :: "'w \<Rightarrow> ('m, 'e) result option poll \<times> 'w"
    and inv :: "'w \<Rightarrow> bool" and queue :: "'w \<Rightarrow> 'm list"
  assumes send_law: "inv w \<Longrightarrow> send w m = (r, w') \<Longrightarrow>
      inv w' \<and> queue w' = (case r of Ok _ \<Rightarrow> queue w @ [m] | Err _ \<Rightarrow> queue w)"
    and recv_law: "inv w \<Longrightarrow> recv w = (p, w') \<Longrightarrow>
      inv w' \<and> queue w = (case p of Ready (Some (Ok m)) \<Rightarrow> [m] | _ \<Rightarrow> []) @ queue w'"

text \<open>A use of a link: sends, polls, and what other tasks and the network do in between.  The result is
  what was accepted and what was received.\<close>

datatype ('w, 'm) link_act = LinkSend 'm | LinkPoll | LinkElsewhere "'w \<Rightarrow> 'w"

fun link_run ::
  "('w \<Rightarrow> 'm \<Rightarrow> (unit, 'e) result \<times> 'w) \<Rightarrow> ('w \<Rightarrow> ('m, 'e) result option poll \<times> 'w) \<Rightarrow> ('w, 'm) link_act list \<Rightarrow> 'w \<Rightarrow>
   'm list \<times> 'm list \<times> 'w" where
  "link_run send recv [] w = ([], [], w)"
| "link_run send recv (LinkSend m # acts) w =
     (let (r, w) = send w m; (accepted, received, w) = link_run send recv acts w
      in ((case r of Ok _ \<Rightarrow> [m] | Err _ \<Rightarrow> []) @ accepted, received, w))"
| "link_run send recv (LinkPoll # acts) w =
     (let (p, w) = recv w; (accepted, received, w) = link_run send recv acts w
      in (accepted, (case p of Ready (Some (Ok m)) \<Rightarrow> [m] | _ \<Rightarrow> []) @ received, w))"
| "link_run send recv (LinkElsewhere g # acts) w = link_run send recv acts (g w)"

definition elsewhere_keeps :: "('w \<Rightarrow> bool) \<Rightarrow> ('w \<Rightarrow> 'q) \<Rightarrow> ('w, 'm) link_act list \<Rightarrow> bool" where
  "elsewhere_keeps good queue acts \<longleftrightarrow> (\<forall>g. LinkElsewhere g \<in> set acts \<longrightarrow> (\<forall>w. good w \<longrightarrow> good (g w) \<and> queue (g w) = queue w))"

context lossless_link
begin

lemma run_conserves:
  "inv w \<Longrightarrow> elsewhere_keeps inv queue acts \<Longrightarrow> link_run send recv acts w = (accepted, received, w') \<Longrightarrow>
   inv w' \<and> queue w @ accepted = received @ queue w'"
proof (induction acts arbitrary: w accepted received w')
  case (Cons act acts)
  have rest: "elsewhere_keeps inv queue acts" using Cons.prems(2) by (simp add: elsewhere_keeps_def)
  show ?case
  proof (cases act)
    case (LinkSend m)
    obtain r w1 where s: "send w m = (r, w1)" by fastforce
    obtain a b w2 where run: "link_run send recv acts w1 = (a, b, w2)" by (metis prod_cases3)
    from send_law[OF Cons.prems(1) s] Cons.IH[OF _ rest run] Cons.prems(3) s run LinkSend show ?thesis
      by (auto split: result.splits)
  next
    case LinkPoll
    obtain p w1 where s: "recv w = (p, w1)" by fastforce
    obtain a b w2 where run: "link_run send recv acts w1 = (a, b, w2)" by (metis prod_cases3)
    from recv_law[OF Cons.prems(1) s] Cons.IH[OF _ rest run] Cons.prems(3) s run LinkPoll show ?thesis by auto
  next
    case (LinkElsewhere g)
    have "inv (g w)" "queue (g w) = queue w"
      using Cons.prems(1,2) LinkElsewhere by (auto simp: elsewhere_keeps_def)
    with Cons.IH[OF _ rest, of "g w"] Cons.prems(3) LinkElsewhere show ?thesis by simp
  qed
qed simp

end

section \<open>The unbounded transport\<close>

text \<open>The documented behaviour of an unbounded channel: \<open>contents\<close> is what was sent and not received, the
  channel is closed when its receiver is gone, and \<^verbatim>\<open>poll_recv\<close> may be pending although something was
  sent.\<close>

definition mpsc_laws ::
  "('w, 'm) unbounded_sender \<Rightarrow> ('w, 'm) receiver \<Rightarrow> ('w \<Rightarrow> 'm list) \<Rightarrow> bool" where
  "mpsc_laws tx rx contents \<longleftrightarrow>
     (\<forall>w m r w'. us_send tx w m = (r, w') \<longrightarrow>
        (if us_is_closed tx w then r = Err m \<and> contents w' = contents w
         else r = Ok () \<and> contents w' = contents w @ [m])) \<and>
     (\<forall>w p w'. rx w = (p, w') \<longrightarrow>
        (case p of
           Ready (Some m) \<Rightarrow> contents w = m # contents w'
         | Ready None \<Rightarrow> contents w = [] \<and> contents w' = []
         | Pending \<Rightarrow> contents w' = contents w))"

interpretation unbounded_link: lossless_link
  "tr_start_send (unbounded_channel tx rx')" "tr_poll_next (unbounded_channel tx' rx)"
  "\<lambda>w. mpsc_laws tx rx contents" contents
  for tx :: "('w, 'm) unbounded_sender" and rx' :: "('w, 'n) receiver"
    and tx' :: "('w, 'n) unbounded_sender" and rx :: "('w, 'm) receiver" and contents
proof (unfold_locales, goal_cases)
  case (1 w m r w')
  obtain r1 w1 where s: "us_send tx w m = (r1, w1)" by fastforce
  with 1(1) have "if us_is_closed tx w then r1 = Err m \<and> contents w1 = contents w
      else r1 = Ok () \<and> contents w1 = contents w @ [m]" unfolding mpsc_laws_def by blast
  with 1 s show ?case by (auto simp: unbounded_channel_def split: if_splits)
next
  case (2 w p w')
  obtain p1 w1 where r: "rx w = (p1, w1)" by fastforce
  with 2(1) have "case p1 of Ready (Some m) \<Rightarrow> contents w = m # contents w1
      | Ready None \<Rightarrow> contents w = [] \<and> contents w1 = [] | Pending \<Rightarrow> contents w1 = contents w"
    unfolding mpsc_laws_def by blast
  with 2 r show ?case by (cases p1 rule: poll_option_cases) (auto simp: unbounded_channel_def)
qed

text \<open>Each end of \<^verbatim>\<open>transport::channel::unbounded\<close> is a lossless link to the other: however sends and polls
  follow each other, what the other end receives is a prefix of what was accepted, and the rest is in the
  channel.\<close>

lemma unbounded_conserves:
  assumes "unbounded (tx1, rx2) (tx2, rx1) = (a, b)" "mpsc_laws tx1 rx2 contents" "contents w = []"
    and "elsewhere_keeps (\<lambda>w. mpsc_laws tx1 rx2 contents) contents acts"
    and "link_run (tr_start_send a) (tr_poll_next b) acts w = (accepted, received, w')"
  shows "accepted = received @ contents w'"
proof -
  have ab: "a = unbounded_channel tx1 rx1" "b = unbounded_channel tx2 rx2"
    using assms(1) by (simp_all add: unbounded_def)
  from unbounded_link.run_conserves[OF assms(2,4) assms(5)[unfolded ab]] assms(3) show ?thesis by simp
qed

text \<open>A list as a channel satisfies the laws.\<close>

definition list_sender :: "(nat list, nat) unbounded_sender" where
  "list_sender = \<lparr>us_send = (\<lambda>w m. (Ok (), w @ [m])), us_is_closed = (\<lambda>w. False)\<rparr>"

definition list_receiver :: "(nat list, nat) receiver" where
  "list_receiver w = (case w of [] \<Rightarrow> (Pending, []) | m # ms \<Rightarrow> (Ready (Some m), ms))"

lemma list_channel_laws: "mpsc_laws list_sender list_receiver (\<lambda>w. w)"
  by (auto simp: mpsc_laws_def list_sender_def list_receiver_def split: list.splits)

end
