(* ===== verification/Serde_Transport.thy ===== *)
theory Serde_Transport
  imports Memory_Transport Protocol
begin

text \<open>
  \<^verbatim>\<open>tarpc/src/serde_transport.rs\<close>: transports that serialise over framed byte streams, over TCP and over
  Unix sockets.  \<^verbatim>\<open>tokio_serde\<close>'s \<^verbatim>\<open>Framed\<close>, the length-delimited framing of \<^verbatim>\<open>tokio_util\<close> and the sockets are
  parameters, collected in \<open>framing_env\<close> and \<open>socket_env\<close>; what is relied on of the first is
  \<open>serde_framed_laws\<close>, and of the frames that they are a lossless link.
\<close>

section \<open>The transport\<close>

text \<open>An error of the operating system, or \<^verbatim>\<open>io::Error::other\<close> of an error.\<close>

datatype 'x io_error = IoOs error_kind | IoOther 'x

text \<open>\<open>fr_serde_framed\<close> is \<^verbatim>\<open>SerdeFramed::new\<close>, \<open>fr_framed_default\<close> is \<^verbatim>\<open>Framed::new\<close> with \<^verbatim>\<open>LengthDelimitedCodec::new\<close>,
  \<open>fr_builder\<close> is \<^verbatim>\<open>LengthDelimitedCodec::builder\<close> and \<open>fr_new_framed\<close> is \<^verbatim>\<open>Builder::new_framed\<close>.\<close>

record ('w, 'stream, 'frames, 'cfg, 'codec, 'out, 'inn, 'x) framing_env =
  fr_serde_framed :: "'frames \<Rightarrow> 'codec \<Rightarrow> ('w, 'out, 'inn, 'x) transport"
  fr_framed_default :: "'stream \<Rightarrow> 'frames"
  fr_builder :: 'cfg
  fr_new_framed :: "'cfg \<Rightarrow> 'stream \<Rightarrow> 'frames"

text \<open>The stream and the sink of \<^verbatim>\<open>Transport\<close>, over its field \<^verbatim>\<open>inner\<close>.\<close>

definition serde_poll_next ::
  "('w, 'out, 'inn, 'x) transport \<Rightarrow> 'w \<Rightarrow> ('inn, 'x io_error) result option poll \<times> 'w" where
  "serde_poll_next inner w = (let (p, w) = tr_poll_next inner w in (poll_map (map_option (map_err IoOther)) p, w))"

definition serde_poll_ready :: "('w, 'out, 'inn, 'x) transport \<Rightarrow> 'w \<Rightarrow> (unit, 'x io_error) result poll \<times> 'w" where
  "serde_poll_ready inner w = (let (p, w) = tr_poll_ready inner w in (poll_map (map_err IoOther) p, w))"

definition serde_start_send :: "('w, 'out, 'inn, 'x) transport \<Rightarrow> 'w \<Rightarrow> 'out \<Rightarrow> (unit, 'x io_error) result \<times> 'w" where
  "serde_start_send inner w item = (let (r, w) = tr_start_send inner w item in (map_err IoOther r, w))"

definition serde_poll_flush :: "('w, 'out, 'inn, 'x) transport \<Rightarrow> 'w \<Rightarrow> (unit, 'x io_error) result poll \<times> 'w" where
  "serde_poll_flush inner w = (let (p, w) = tr_poll_flush inner w in (poll_map (map_err IoOther) p, w))"

definition serde_poll_close :: "('w, 'out, 'inn, 'x) transport \<Rightarrow> 'w \<Rightarrow> (unit, 'x io_error) result poll \<times> 'w" where
  "serde_poll_close inner w = (let (p, w) = tr_poll_close inner w in (poll_map (map_err IoOther) p, w))"

definition serde_transport :: "('w, 'out, 'inn, 'x) transport \<Rightarrow> ('w, 'out, 'inn, 'x io_error) transport" where
  "serde_transport inner =
     \<lparr>tr_poll_next = serde_poll_next inner, tr_poll_ready = serde_poll_ready inner,
      tr_start_send = serde_start_send inner, tr_poll_flush = serde_poll_flush inner,
      tr_poll_close = serde_poll_close inner\<rparr>"

text \<open>\<^verbatim>\<open>new\<close>, and \<^verbatim>\<open>From<(S, Codec)>\<close>.\<close>

definition serde_transport_new ::
  "('w, 'stream, 'frames, 'cfg, 'codec, 'out, 'inn, 'x) framing_env \<Rightarrow> 'frames \<Rightarrow> 'codec \<Rightarrow>
   ('w, 'out, 'inn, 'x io_error) transport" where
  "serde_transport_new env framed_io codec = serde_transport (fr_serde_framed env framed_io codec)"

definition serde_transport_from ::
  "('w, 'stream, 'frames, 'cfg, 'codec, 'out, 'inn, 'x) framing_env \<Rightarrow> 'stream \<times> 'codec \<Rightarrow>
   ('w, 'out, 'inn, 'x io_error) transport" where
  "serde_transport_from env io_codec =
     (let (io, codec) = io_codec in serde_transport_new env (fr_framed_default env io) codec)"

section \<open>TCP\<close>

text \<open>The sockets: \<open>so_connect\<close> starts a connection, \<open>so_connect_poll\<close> polls it; \<open>so_bind\<close> is \<^verbatim>\<open>bind\<close> (awaited, for
  TCP); \<open>so_poll_accept\<close> also yields the address of the peer.  \<open>'f\<close> are futures, \<open>'l\<close> listeners.\<close>

record ('w, 'addr, 'sockaddr, 'f, 'l, 'stream, 'x) socket_env =
  so_connect :: "'addr \<Rightarrow> 'f"
  so_connect_poll :: "'f \<Rightarrow> 'w \<Rightarrow> ('stream, 'x io_error) result poll \<times> 'w"
  so_bind :: "'addr \<Rightarrow> 'w \<Rightarrow> ('l, 'x io_error) result \<times> 'w"
  so_local_addr :: "'l \<Rightarrow> 'w \<Rightarrow> ('sockaddr, 'x io_error) result"
  so_poll_accept :: "'l \<Rightarrow> 'w \<Rightarrow> ('stream \<times> 'sockaddr, 'x io_error) result poll \<times> 'w"

record ('f, 'cfg, 'w, 'codec) tcp_connect =
  tcc_inner :: 'f
  tcc_codec_fn :: "'w \<Rightarrow> 'codec \<times> 'w"
  tcc_config :: 'cfg

definition tcp_connect_poll ::
  "('w, 'stream, 'frames, 'cfg, 'codec, 'out, 'inn, 'x) framing_env \<Rightarrow>
   ('w, 'addr, 'sockaddr, 'f, 'l, 'stream, 'x) socket_env \<Rightarrow> ('f, 'cfg, 'w, 'codec) tcp_connect \<Rightarrow> 'w \<Rightarrow>
   (('w, 'out, 'inn, 'x io_error) transport, 'x io_error) result poll \<times> 'w" where
  "tcp_connect_poll env so c w =
     (case so_connect_poll so (tcc_inner c) w of
        (Pending, w) \<Rightarrow> (Pending, w)
      | (Ready (Err e), w) \<Rightarrow> (Ready (Err e), w)
      | (Ready (Ok io), w) \<Rightarrow>
          (let (codec, w) = tcc_codec_fn c w
           in (Ready (Ok (serde_transport_new env (fr_new_framed env (tcc_config c) io) codec)), w)))"

definition tcp_connect_new ::
  "('w, 'stream, 'frames, 'cfg, 'codec, 'out, 'inn, 'x) framing_env \<Rightarrow>
   ('w, 'addr, 'sockaddr, 'f, 'l, 'stream, 'x) socket_env \<Rightarrow> 'addr \<Rightarrow> ('w \<Rightarrow> 'codec \<times> 'w) \<Rightarrow>
   ('f, 'cfg, 'w, 'codec) tcp_connect" where
  "tcp_connect_new env so addr codec_fn =
     \<lparr>tcc_inner = so_connect so addr, tcc_codec_fn = codec_fn, tcc_config = fr_builder env\<rparr>"

record ('l, 'sockaddr, 'cfg, 'w, 'codec) tcp_incoming =
  tci_listener :: 'l
  tci_local_addr :: 'sockaddr
  tci_codec_fn :: "'w \<Rightarrow> 'codec \<times> 'w"
  tci_config :: 'cfg

definition tcp_listen_on ::
  "('w, 'stream, 'frames, 'cfg, 'codec, 'out, 'inn, 'x) framing_env \<Rightarrow>
   ('w, 'addr, 'sockaddr, 'f, 'l, 'stream, 'x) socket_env \<Rightarrow> 'l \<Rightarrow> ('w \<Rightarrow> 'codec \<times> 'w) \<Rightarrow> 'w \<Rightarrow>
   (('l, 'sockaddr, 'cfg, 'w, 'codec) tcp_incoming, 'x io_error) result \<times> 'w" where
  "tcp_listen_on env so listener codec_fn w =
     (case so_local_addr so listener w of
        Err e \<Rightarrow> (Err e, w)
      | Ok local_addr \<Rightarrow>
          (Ok \<lparr>tci_listener = listener, tci_local_addr = local_addr, tci_codec_fn = codec_fn,
               tci_config = fr_builder env\<rparr>, w))"

definition tcp_listen ::
  "('w, 'stream, 'frames, 'cfg, 'codec, 'out, 'inn, 'x) framing_env \<Rightarrow>
   ('w, 'addr, 'sockaddr, 'f, 'l, 'stream, 'x) socket_env \<Rightarrow> 'addr \<Rightarrow> ('w \<Rightarrow> 'codec \<times> 'w) \<Rightarrow> 'w \<Rightarrow>
   (('l, 'sockaddr, 'cfg, 'w, 'codec) tcp_incoming, 'x io_error) result \<times> 'w" where
  "tcp_listen env so addr codec_fn w =
     (case so_bind so addr w of
        (Err e, w) \<Rightarrow> (Err e, w)
      | (Ok listener, w) \<Rightarrow> tcp_listen_on env so listener codec_fn w)"

definition tcp_incoming_poll_next ::
  "('w, 'stream, 'frames, 'cfg, 'codec, 'out, 'inn, 'x) framing_env \<Rightarrow>
   ('w, 'addr, 'sockaddr, 'f, 'l, 'stream, 'x) socket_env \<Rightarrow> ('l, 'sockaddr, 'cfg, 'w, 'codec) tcp_incoming \<Rightarrow> 'w \<Rightarrow>
   (('w, 'out, 'inn, 'x io_error) transport, 'x io_error) result option poll \<times> 'w" where
  "tcp_incoming_poll_next env so c w =
     (case so_poll_accept so (tci_listener c) w of
        (Pending, w) \<Rightarrow> (Pending, w)
      | (Ready (Err e), w) \<Rightarrow> (Ready (Some (Err e)), w)
      | (Ready (Ok (conn, _)), w) \<Rightarrow>
          (let (codec, w) = tci_codec_fn c w
           in (Ready (Some (Ok (serde_transport_new env (fr_new_framed env (tci_config c) conn) codec))), w)))"

section \<open>Temporary paths\<close>

text \<open>\<^verbatim>\<open>unix::TempPathBuf\<close>.  \<^verbatim>\<open>PathBuf::push\<close> replaces the path by an absolute one and otherwise appends, with a
  separator where one is missing.  \<open>{:016x}\<close> pads with zeros to 16 digits, and
  a \<^verbatim>\<open>u64\<close> has no more.\<close>

definition hex_pad16 :: "u64 \<Rightarrow> string" where
  "hex_pad16 x = map (\<lambda>k. hex_digit (unat x div 16 ^ k mod 16)) (rev [0..<16])"

definition path_push :: "string \<Rightarrow> string \<Rightarrow> string" where
  "path_push path s =
     (if take 1 s = ''/'' then s else if path = [] \<or> last path = CHR ''/'' then path @ s else path @ ''/'' @ s)"

definition temp_path_new :: "string \<Rightarrow> string \<Rightarrow> string" where
  "temp_path_new temp_dir name = path_push temp_dir name"

definition temp_path_with_random :: "string \<Rightarrow> ('w \<Rightarrow> u64 \<times> 'w) \<Rightarrow> string \<Rightarrow> 'w \<Rightarrow> string \<times> 'w" where
  "temp_path_with_random temp_dir random name w =
     (let (x, w) = random w in (temp_path_new temp_dir (name @ ''_'' @ hex_pad16 x), w))"

definition temp_path_drop :: "(string \<Rightarrow> 'w \<Rightarrow> (unit, 'x io_error) result \<times> 'w) \<Rightarrow> string \<Rightarrow> 'w \<Rightarrow> 'w" where
  "temp_path_drop remove_file path w = snd (remove_file path w)"

lemma digits_determine:
  "(\<forall>k < n. a div 16 ^ k mod 16 = b div 16 ^ k mod (16 :: nat)) \<Longrightarrow> a mod 16 ^ n = b mod 16 ^ n"
proof (induction n)
  case (Suc n)
  have "a mod 16 ^ Suc n = 16 ^ n * (a div 16 ^ n mod 16) + a mod 16 ^ n" for a :: nat
    unfolding power_Suc2 by (rule mod_mult2_eq)
  with Suc show ?case by simp
qed simp

lemma hex_pad16_inject: "hex_pad16 x = hex_pad16 y \<Longrightarrow> x = y"
proof -
  assume "hex_pad16 x = hex_pad16 y"
  then have "\<forall>k < 16. hex_digit (unat x div 16 ^ k mod 16) = hex_digit (unat y div 16 ^ k mod 16)"
    by (auto simp: hex_pad16_def)
  then have "\<forall>k < 16. unat x div 16 ^ k mod 16 = unat y div 16 ^ k mod 16"
    using hex_digit_inject by simp
  then have "unat x mod 16 ^ 16 = unat y mod 16 ^ 16" by (rule digits_determine)
  moreover have "unat z < 16 ^ 16" for z :: u64 using unsigned_less[of z, where 'a = nat] by simp
  ultimately show ?thesis by (simp add: word_unat_eq_iff)
qed

section \<open>What is relied on\<close>

text \<open>The documentation of \<^verbatim>\<open>tokio_serde::Framed\<close>: an item is serialised and the bytes go into the sink below;
  the bytes of a frame from the stream below are deserialised.  An error of the codec is converted
  into one of the stream below.\<close>

definition serde_framed_laws ::
  "('m \<Rightarrow> ('bytes, 'x) result) \<Rightarrow> ('bytes \<Rightarrow> ('m, 'x) result) \<Rightarrow> ('w \<Rightarrow> 'bytes \<Rightarrow> (unit, 'x) result \<times> 'w) \<Rightarrow>
   ('w \<Rightarrow> ('bytes, 'x) result option poll \<times> 'w) \<Rightarrow> ('w \<Rightarrow> 'm \<Rightarrow> (unit, 'x) result \<times> 'w) \<Rightarrow>
   ('w \<Rightarrow> ('m, 'x) result option poll \<times> 'w) \<Rightarrow> bool" where
  "serde_framed_laws ser de frame_send frame_recv send recv \<longleftrightarrow>
     (\<forall>w m. send w m = (case ser m of Err e \<Rightarrow> (Err e, w) | Ok bs \<Rightarrow> frame_send w bs)) \<and>
     (\<forall>w. recv w = (case frame_recv w of
        (Ready (Some (Ok bs)), w') \<Rightarrow> (Ready (Some (de bs)), w')
      | (Ready (Some (Err e)), w') \<Rightarrow> (Ready (Some (Err e)), w')
      | (Ready None, w') \<Rightarrow> (Ready None, w')
      | (Pending, w') \<Rightarrow> (Pending, w')))"

text \<open>A format reads back what it wrote.\<close>

definition codec_laws :: "('m \<Rightarrow> ('bytes, 'x) result) \<Rightarrow> ('bytes \<Rightarrow> ('m, 'x) result) \<Rightarrow> bool" where
  "codec_laws ser de \<longleftrightarrow> (\<forall>m bs. ser m = Ok bs \<longrightarrow> de bs = Ok m)"

definition item_of :: "('bytes \<Rightarrow> ('m, 'x) result) \<Rightarrow> 'bytes \<Rightarrow> 'm list" where
  "item_of de bs = (case de bs of Ok m \<Rightarrow> [m] | Err _ \<Rightarrow> [])"

text \<open>Two ends over one link of frames, with every frame on its way readable.\<close>

definition serde_over ::
  "('m \<Rightarrow> ('bytes, 'x) result) \<Rightarrow> ('bytes \<Rightarrow> ('m, 'x) result) \<Rightarrow> ('w \<Rightarrow> 'bytes \<Rightarrow> (unit, 'x) result \<times> 'w) \<Rightarrow>
   ('w \<Rightarrow> ('bytes, 'x) result option poll \<times> 'w) \<Rightarrow> ('w \<Rightarrow> bool) \<Rightarrow> ('w \<Rightarrow> 'bytes list) \<Rightarrow>
   ('w, 'm, 'n, 'x) transport \<Rightarrow> ('w, 'k, 'm, 'x) transport \<Rightarrow> 'w \<Rightarrow> bool" where
  "serde_over ser de frame_send frame_recv good frames a b w \<longleftrightarrow>
     serde_framed_laws ser de frame_send frame_recv (tr_start_send a) (tr_poll_next b) \<and> codec_laws ser de \<and>
     lossless_link frame_send frame_recv good frames \<and>
     good w \<and> (\<forall>bs \<in> set (frames w). \<exists>m. de bs = Ok m)"

lemma serde_start_send_over:
  assumes "serde_over ser de frame_send frame_recv good frames a b w"
    and "serde_start_send a w m = (r, w')"
  shows "serde_over ser de frame_send frame_recv good frames a b w' \<and>
    concat (map (item_of de) (frames w')) =
      (case r of Ok _ \<Rightarrow> concat (map (item_of de) (frames w)) @ [m] | Err _ \<Rightarrow> concat (map (item_of de) (frames w)))"
proof (cases "ser m")
  case (Err e)
  with assms show ?thesis by (auto simp: serde_start_send_def serde_over_def serde_framed_laws_def)
next
  case (Ok bs)
  obtain r1 where s: "frame_send w bs = (r1, w')" and r: "r = map_err IoOther r1"
    using assms Ok by (auto simp: serde_start_send_def serde_over_def serde_framed_laws_def split: prod.splits)
  have link: "lossless_link frame_send frame_recv good frames" and good: "good w" and de: "de bs = Ok m"
    using assms(1) Ok by (simp_all add: serde_over_def codec_laws_def)
  have "good w' \<and> frames w' = (case r1 of Ok _ \<Rightarrow> frames w @ [bs] | Err _ \<Rightarrow> frames w)"
    using lossless_link.send_law[OF link good s] .
  with assms(1) de r show ?thesis by (cases r1) (auto simp: serde_over_def item_of_def)
qed

lemma serde_poll_next_over:
  assumes "serde_over ser de frame_send frame_recv good frames a b w"
    and "serde_poll_next b w = (p, w')"
  shows "serde_over ser de frame_send frame_recv good frames a b w' \<and>
    concat (map (item_of de) (frames w)) =
      (case p of Ready (Some (Ok m)) \<Rightarrow> [m] | _ \<Rightarrow> []) @ concat (map (item_of de) (frames w'))"
proof -
  obtain q w1 where q: "frame_recv w = (q, w1)" by fastforce
  have link: "lossless_link frame_send frame_recv good frames" and good: "good w"
    and laws: "serde_framed_laws ser de frame_send frame_recv (tr_start_send a) (tr_poll_next b)"
    and read: "\<forall>bs \<in> set (frames w). \<exists>m. de bs = Ok m"
    using assms(1) by (simp_all add: serde_over_def)
  have step: "good w1 \<and> frames w = (case q of Ready (Some (Ok bs)) \<Rightarrow> [bs] | _ \<Rightarrow> []) @ frames w1"
    using lossless_link.recv_law[OF link good q] .
  show ?thesis
  proof (cases q rule: poll_option_result_cases)
    case (Item bs)
    with step read obtain m where m: "de bs = Ok m" by auto
    with Item q laws assms(2) have "p = Ready (Some (Ok m))" "w' = w1"
      by (auto simp: serde_poll_next_def serde_framed_laws_def)
    with step Item m assms(1) show ?thesis by (auto simp: serde_over_def item_of_def)
  qed (use q laws assms step in \<open>auto simp: serde_poll_next_def serde_framed_laws_def serde_over_def\<close>)
qed

interpretation serde_link: lossless_link
  "serde_start_send a" "serde_poll_next b" "serde_over ser de frame_send frame_recv good frames a b"
  "\<lambda>w. concat (map (item_of de) (frames w))"
  for a :: "('w, 'm, 'n, 'x) transport" and b :: "('w, 'k, 'm, 'x) transport"
    and ser :: "'m \<Rightarrow> ('bytes, 'x) result" and de frame_send frame_recv good frames
  by unfold_locales (rule serde_start_send_over serde_poll_next_over; assumption)+

text \<open>The path ends in the name and 16 digits, and paths of two random numbers are equal only if the numbers are.\<close>

lemma temp_path_with_random_ends:
  "\<exists>dir. fst (temp_path_with_random temp_dir random name w) = dir @ name @ ''_'' @ hex_pad16 (fst (random w)) \<and>
     length (hex_pad16 (fst (random w))) = 16"
  by (auto simp: temp_path_with_random_def temp_path_new_def path_push_def hex_pad16_def split: prod.splits)

lemma temp_path_with_random_inject:
  "fst (temp_path_with_random temp_dir random name w) = fst (temp_path_with_random temp_dir random name w') \<longleftrightarrow>
   fst (random w) = fst (random w')"
  by (cases name) (auto simp: temp_path_with_random_def temp_path_new_def path_push_def
    dest: hex_pad16_inject split: prod.splits if_splits)

section \<open>Properties\<close>

text \<open>C37: Over a lossless link of frames and a format that reads back what it wrote, a serialising
  transport loses, repeats and reorders nothing: whatever is sent and polled in whatever order, and
  whatever other tasks do to the transport in between, what the one end has received followed by what is
  still on its way is what the other end accepted.\<close>

theorem serde_transport_delivers:
  assumes "serde_transport_new env fa ca = ta" "serde_transport_new env' fb cb = tb"
    and "serde_framed_laws ser de frame_send frame_recv
           (tr_start_send (fr_serde_framed env fa ca)) (tr_poll_next (fr_serde_framed env' fb cb))"
    and "codec_laws ser de" "lossless_link frame_send frame_recv good frames"
    and "good w" "frames w = []" "elsewhere_keeps good frames acts"
    and "link_run (tr_start_send ta) (tr_poll_next tb) acts w = (accepted, received, w')"
  shows "accepted = received @ concat (map (item_of de) (frames w'))"
proof -
  let ?a = "fr_serde_framed env fa ca" let ?b = "fr_serde_framed env' fb cb"
  have over: "serde_over ser de frame_send frame_recv good frames ?a ?b w"
    using assms(3-7) by (simp add: serde_over_def)
  have quiet: "elsewhere_keeps (serde_over ser de frame_send frame_recv good frames ?a ?b)
      (\<lambda>w. concat (map (item_of de) (frames w))) acts"
    using assms(8) by (simp add: elsewhere_keeps_def serde_over_def)
  have run: "link_run (serde_start_send ?a) (serde_poll_next ?b) acts w = (accepted, received, w')"
    using assms(1,2,9) by (auto simp: serde_transport_new_def serde_transport_def)
  from serde_link.run_conserves[OF over quiet run] assms(7) show ?thesis by simp
qed

text \<open>A link of frames that is a list, and numbers written as one-element frames.\<close>

definition frame_in :: "nat list list \<Rightarrow> nat list \<Rightarrow> (unit, nat) result \<times> nat list list" where
  "frame_in w bs = (Ok (), w @ [bs])"

definition frame_out :: "nat list list \<Rightarrow> (nat list, nat) result option poll \<times> nat list list" where
  "frame_out w = (case w of [] \<Rightarrow> (Pending, []) | bs # w \<Rightarrow> (Ready (Some (Ok bs)), w))"

definition read_number :: "nat list \<Rightarrow> (nat, nat) result" where
  "read_number bs = (case bs of [n] \<Rightarrow> Ok n | _ \<Rightarrow> Err 0)"

definition list_framing :: "(nat list list, unit, unit, unit, unit, nat, nat, nat) framing_env" where
  "list_framing =
     \<lparr>fr_serde_framed = (\<lambda>_ _.
        \<lparr>tr_poll_next = (\<lambda>w. case frame_out w of
              (Ready (Some (Ok bs)), w') \<Rightarrow> (Ready (Some (read_number bs)), w') | (_, w') \<Rightarrow> (Pending, w')),
         tr_poll_ready = (\<lambda>w. (Ready (Ok ()), w)), tr_start_send = (\<lambda>w m. frame_in w [m]),
         tr_poll_flush = (\<lambda>w. (Ready (Ok ()), w)), tr_poll_close = (\<lambda>w. (Ready (Ok ()), w))\<rparr>),
      fr_framed_default = (\<lambda>_. ()), fr_builder = (), fr_new_framed = (\<lambda>_ _. ())\<rparr>"

interpretation list_frames: lossless_link frame_in frame_out "\<lambda>w. True" "\<lambda>w. w"
  by unfold_locales (auto simp: frame_in_def frame_out_def split: list.splits)

theorem serde_transport_delivers_witness:
  "case link_run (tr_start_send (serde_transport_new list_framing () ())) (tr_poll_next (serde_transport_new list_framing () ()))
       [LinkSend 4, LinkPoll, LinkPoll, LinkSend 5] [] of
     (accepted, received, w) \<Rightarrow> accepted = [4, 5] \<and> received = [4] \<and> w = [[5]]"
proof -
  let ?t = "serde_transport_new list_framing () ()"
  let ?acts = "[LinkSend 4, LinkPoll, LinkPoll, LinkSend 5]"
  obtain accepted received w where run: "link_run (tr_start_send ?t) (tr_poll_next ?t) ?acts [] = (accepted, received, w)"
    by (metis prod_cases3)
  have "accepted = received @ concat (map (item_of read_number) w)"
  proof (rule serde_transport_delivers[of list_framing "()" "()" ?t list_framing "()" "()" ?t "\<lambda>m. Ok [m]" read_number frame_in
        frame_out "\<lambda>w. True" "\<lambda>w. w" "[]" ?acts accepted received w])
    show "serde_framed_laws (\<lambda>m. Ok [m]) read_number frame_in frame_out
        (tr_start_send (fr_serde_framed list_framing () ())) (tr_poll_next (fr_serde_framed list_framing () ()))"
      by (auto simp: serde_framed_laws_def list_framing_def frame_out_def split: list.splits)
    show "codec_laws (\<lambda>m. Ok [m]) read_number" by (simp add: codec_laws_def read_number_def)
    show "lossless_link frame_in frame_out (\<lambda>w. True) (\<lambda>w. w)" by unfold_locales
    show "link_run (tr_start_send ?t) (tr_poll_next ?t) ?acts [] = (accepted, received, w)" by (rule run)
  qed (simp_all add: elsewhere_keeps_def)
  moreover have "received = [4]" "w = [[5]]"
    using run by (auto simp: serde_transport_new_def serde_transport_def serde_start_send_def serde_poll_next_def
      list_framing_def frame_in_def frame_out_def read_number_def)
  ultimately show ?thesis using run by (simp add: item_of_def read_number_def)
qed

end
