(* ===== verification/Unix_Transport.thy ===== *)
theory Unix_Transport
  imports Serde_Transport
begin

text \<open>
  The module \<^verbatim>\<open>unix\<close> of \<^verbatim>\<open>tarpc/src/serde_transport.rs\<close>: serialising transports over Unix sockets, the framing
  configuration that connections and listeners expose, and that both kinds of sockets are used in the
  same way.
\<close>

section \<open>The framing configuration of TCP\<close>

text \<open>\<^verbatim>\<open>config\<close> reads it and \<^verbatim>\<open>config_mut\<close> changes it, by a function of the caller.\<close>

definition tcp_connect_config_mut :: "('cfg \<Rightarrow> 'cfg) \<Rightarrow> ('f, 'cfg, 'w, 'codec) tcp_connect \<Rightarrow> ('f, 'cfg, 'w, 'codec) tcp_connect" where
  "tcp_connect_config_mut change c = c\<lparr>tcc_config := change (tcc_config c)\<rparr>"

definition tcp_incoming_config_mut ::
  "('cfg \<Rightarrow> 'cfg) \<Rightarrow> ('l, 'sockaddr, 'cfg, 'w, 'codec) tcp_incoming \<Rightarrow> ('l, 'sockaddr, 'cfg, 'w, 'codec) tcp_incoming" where
  "tcp_incoming_config_mut change c = c\<lparr>tci_config := change (tci_config c)\<rparr>"

definition tcp_incoming_local_addr :: "('l, 'sockaddr, 'cfg, 'w, 'codec) tcp_incoming \<Rightarrow> 'sockaddr" where
  "tcp_incoming_local_addr c = tci_local_addr c"

section \<open>Unix sockets\<close>

record ('f, 'cfg, 'w, 'codec) unix_connect =
  uxc_inner :: 'f
  uxc_codec_fn :: "'w \<Rightarrow> 'codec \<times> 'w"
  uxc_config :: 'cfg

definition unix_connect_poll ::
  "('w, 'stream, 'frames, 'cfg, 'codec, 'out, 'inn, 'x) framing_env \<Rightarrow>
   ('w, 'path, 'sockaddr, 'f, 'l, 'stream, 'x) socket_env \<Rightarrow> ('f, 'cfg, 'w, 'codec) unix_connect \<Rightarrow> 'w \<Rightarrow>
   (('w, 'out, 'inn, 'x io_error) transport, 'x io_error) result poll \<times> 'w" where
  "unix_connect_poll env so c w =
     (case so_connect_poll so (uxc_inner c) w of
        (Pending, w) \<Rightarrow> (Pending, w)
      | (Ready (Err e), w) \<Rightarrow> (Ready (Err e), w)
      | (Ready (Ok io), w) \<Rightarrow>
          (let (codec, w) = uxc_codec_fn c w
           in (Ready (Ok (serde_transport_new env (fr_new_framed env (uxc_config c) io) codec)), w)))"

definition unix_connect_config_mut :: "('cfg \<Rightarrow> 'cfg) \<Rightarrow> ('f, 'cfg, 'w, 'codec) unix_connect \<Rightarrow> ('f, 'cfg, 'w, 'codec) unix_connect" where
  "unix_connect_config_mut change c = c\<lparr>uxc_config := change (uxc_config c)\<rparr>"

definition unix_connect_new ::
  "('w, 'stream, 'frames, 'cfg, 'codec, 'out, 'inn, 'x) framing_env \<Rightarrow>
   ('w, 'path, 'sockaddr, 'f, 'l, 'stream, 'x) socket_env \<Rightarrow> 'path \<Rightarrow> ('w \<Rightarrow> 'codec \<times> 'w) \<Rightarrow>
   ('f, 'cfg, 'w, 'codec) unix_connect" where
  "unix_connect_new env so path codec_fn =
     \<lparr>uxc_inner = so_connect so path, uxc_codec_fn = codec_fn, uxc_config = fr_builder env\<rparr>"

record ('l, 'sockaddr, 'cfg, 'w, 'codec) unix_incoming =
  uxi_listener :: 'l
  uxi_local_addr :: 'sockaddr
  uxi_codec_fn :: "'w \<Rightarrow> 'codec \<times> 'w"
  uxi_config :: 'cfg

definition unix_incoming_local_addr :: "('l, 'sockaddr, 'cfg, 'w, 'codec) unix_incoming \<Rightarrow> 'sockaddr" where
  "unix_incoming_local_addr c = uxi_local_addr c"

definition unix_incoming_config_mut ::
  "('cfg \<Rightarrow> 'cfg) \<Rightarrow> ('l, 'sockaddr, 'cfg, 'w, 'codec) unix_incoming \<Rightarrow> ('l, 'sockaddr, 'cfg, 'w, 'codec) unix_incoming" where
  "unix_incoming_config_mut change c = c\<lparr>uxi_config := change (uxi_config c)\<rparr>"

definition unix_listen_on ::
  "('w, 'stream, 'frames, 'cfg, 'codec, 'out, 'inn, 'x) framing_env \<Rightarrow>
   ('w, 'path, 'sockaddr, 'f, 'l, 'stream, 'x) socket_env \<Rightarrow> 'l \<Rightarrow> ('w \<Rightarrow> 'codec \<times> 'w) \<Rightarrow> 'w \<Rightarrow>
   (('l, 'sockaddr, 'cfg, 'w, 'codec) unix_incoming, 'x io_error) result \<times> 'w" where
  "unix_listen_on env so listener codec_fn w =
     (case so_local_addr so listener w of
        Err e \<Rightarrow> (Err e, w)
      | Ok local_addr \<Rightarrow>
          (Ok \<lparr>uxi_listener = listener, uxi_local_addr = local_addr, uxi_codec_fn = codec_fn,
               uxi_config = fr_builder env\<rparr>, w))"

definition unix_listen ::
  "('w, 'stream, 'frames, 'cfg, 'codec, 'out, 'inn, 'x) framing_env \<Rightarrow>
   ('w, 'path, 'sockaddr, 'f, 'l, 'stream, 'x) socket_env \<Rightarrow> 'path \<Rightarrow> ('w \<Rightarrow> 'codec \<times> 'w) \<Rightarrow> 'w \<Rightarrow>
   (('l, 'sockaddr, 'cfg, 'w, 'codec) unix_incoming, 'x io_error) result \<times> 'w" where
  "unix_listen env so path codec_fn w =
     (case so_bind so path w of
        (Err e, w) \<Rightarrow> (Err e, w)
      | (Ok listener, w) \<Rightarrow> unix_listen_on env so listener codec_fn w)"

definition unix_incoming_poll_next ::
  "('w, 'stream, 'frames, 'cfg, 'codec, 'out, 'inn, 'x) framing_env \<Rightarrow>
   ('w, 'path, 'sockaddr, 'f, 'l, 'stream, 'x) socket_env \<Rightarrow> ('l, 'sockaddr, 'cfg, 'w, 'codec) unix_incoming \<Rightarrow> 'w \<Rightarrow>
   (('w, 'out, 'inn, 'x io_error) transport, 'x io_error) result option poll \<times> 'w" where
  "unix_incoming_poll_next env so c w =
     (case so_poll_accept so (uxi_listener c) w of
        (Pending, w) \<Rightarrow> (Pending, w)
      | (Ready (Err e), w) \<Rightarrow> (Ready (Some (Err e)), w)
      | (Ready (Ok (conn, _)), w) \<Rightarrow>
          (let (codec, w) = uxi_codec_fn c w
           in (Ready (Some (Ok (serde_transport_new env (fr_new_framed env (uxi_config c) conn) codec))), w)))"

section \<open>Listening and connecting\<close>

text \<open>A connection over a Unix socket does what one over TCP does with the same stream, codec and
  configuration, and so does a listener.\<close>

definition connect_as_tcp :: "('f, 'cfg, 'w, 'codec) unix_connect \<Rightarrow> ('f, 'cfg, 'w, 'codec) tcp_connect" where
  "connect_as_tcp c = \<lparr>tcc_inner = uxc_inner c, tcc_codec_fn = uxc_codec_fn c, tcc_config = uxc_config c\<rparr>"

definition incoming_as_tcp :: "('l, 'sockaddr, 'cfg, 'w, 'codec) unix_incoming \<Rightarrow> ('l, 'sockaddr, 'cfg, 'w, 'codec) tcp_incoming" where
  "incoming_as_tcp c = \<lparr>tci_listener = uxi_listener c, tci_local_addr = uxi_local_addr c, tci_codec_fn = uxi_codec_fn c, tci_config = uxi_config c\<rparr>"

lemma unix_as_tcp:
  "unix_connect_poll env so c w = tcp_connect_poll env so (connect_as_tcp c) w"
  "connect_as_tcp (unix_connect_new env so path codec_fn) = tcp_connect_new env so path codec_fn"
  "connect_as_tcp (unix_connect_config_mut change c) = tcp_connect_config_mut change (connect_as_tcp c)"
  "unix_incoming_poll_next env so i w = tcp_incoming_poll_next env so (incoming_as_tcp i) w"
  "apfst (result_map incoming_as_tcp) (unix_listen env so path codec_fn w) = tcp_listen env so path codec_fn w"
  "incoming_as_tcp (unix_incoming_config_mut change i) = tcp_incoming_config_mut change (incoming_as_tcp i)"
  by (auto simp: unix_connect_poll_def tcp_connect_poll_def connect_as_tcp_def unix_connect_new_def tcp_connect_new_def
      unix_connect_config_mut_def tcp_connect_config_mut_def unix_incoming_poll_next_def tcp_incoming_poll_next_def
      incoming_as_tcp_def unix_listen_def tcp_listen_def unix_listen_on_def tcp_listen_on_def
      unix_incoming_config_mut_def tcp_incoming_config_mut_def Let_def
      split: prod.splits poll.splits result.splits)

text \<open>A stream of connections does not end, and every transport it yields frames its own connection with the
  configuration of the listener at that time.\<close>

theorem incoming_poll_next_results:
  assumes "tcp_incoming_poll_next env so (tcp_incoming_config_mut change c) w = (p, w')"
  shows "p \<noteq> Ready None \<and>
    (\<forall>t. p = Ready (Some (Ok t)) \<longrightarrow> (\<exists>conn addr w1 codec.
       so_poll_accept so (tci_listener c) w = (Ready (Ok (conn, addr)), w1) \<and> tci_codec_fn c w1 = (codec, w') \<and>
       t = serde_transport_new env (fr_new_framed env (change (tci_config c)) conn) codec))"
  using assms by (auto simp: tcp_incoming_poll_next_def tcp_incoming_config_mut_def Let_def
      split: prod.splits poll.splits result.splits)

end
