(* ===== verification/Data_Theorems.thy ===== *)
theory Data_Theorems
  imports Protocol
begin

text \<open>
  The properties of the data that clients and servers exchange: error kinds, deadlines, trace contexts
  and the casts of channel errors.
\<close>

section \<open>Error kinds\<close>

text \<open>C30: An error kind survives the wire in every format in which a \<^verbatim>\<open>u32\<close> can be read where a
  non-negative \<^verbatim>\<open>i32\<close> was written; only the kinds without a number of their own come back as
  \<^verbatim>\<open>Other\<close>.\<close>

theorem error_kind_survives:
  assumes "reads_back_i32 write_i32 read_u32"
  shows "deserialize_io_error_kind_from_u32 read_u32 (serialize_io_error_kind_as_u32 write_i32 k) =
    Ok (case k of UnlistedKind _ \<Rightarrow> Other | _ \<Rightarrow> k)"
  using assms error_kind_code_nonneg[of k]
  by (simp add: reads_back_i32_def deserialize_io_error_kind_from_u32_def serialize_io_error_kind_as_u32_def
      error_kind_of_code_code)

theorem error_kind_survives_witness:
  "deserialize_io_error_kind_from_u32 (Ok :: 32 word \<Rightarrow> (32 word, unit) result)
     (serialize_io_error_kind_as_u32 (\<lambda>n. n) WouldBlock) = Ok WouldBlock"
  using error_kind_survives[of "\<lambda>n. n" "Ok :: 32 word \<Rightarrow> (32 word, unit) result" WouldBlock]
  by (simp add: reads_back_i32_def)

text \<open>Signed integers in the variable-width formats are zigzag encoded: a non-negative number is
  written as its double.\<close>

definition zigzag_format :: "(32 word \<Rightarrow> 'bytes) \<Rightarrow> ('bytes \<Rightarrow> (32 word, 'err) result) \<Rightarrow> bool" where
  "zigzag_format write_i32 read_u32 \<longleftrightarrow> (\<forall>n. 0 \<le> sint n \<longrightarrow> read_u32 (write_i32 n) = Ok (2 * n))"

text \<open>C40: The numbers of the error kinds are written as \<^verbatim>\<open>i32\<close> and read as \<^verbatim>\<open>u32\<close>.  Where signed
  integers are zigzag encoded, as in the default configuration of \<^verbatim>\<open>bincode\<close>, another kind is read:
  \<^verbatim>\<open>PermissionDenied\<close> becomes \<^verbatim>\<open>ConnectionRefused\<close>, and \<^verbatim>\<open>WouldBlock\<close>, with which a server refuses a request
  over its limit, becomes \<^verbatim>\<open>Other\<close>.\<close>

theorem error_kind_garbled_by_zigzag:
  assumes "zigzag_format write_i32 read_u32"
  shows "deserialize_io_error_kind_from_u32 read_u32 (serialize_io_error_kind_as_u32 write_i32 PermissionDenied) =
      Ok ConnectionRefused \<and>
    deserialize_io_error_kind_from_u32 read_u32 (serialize_io_error_kind_as_u32 write_i32 WouldBlock) = Ok Other"
proof -
  have read: "deserialize_io_error_kind_from_u32 read_u32 (serialize_io_error_kind_as_u32 write_i32 k) =
      Ok (error_kind_of_code (2 * error_kind_code k))" for k
    using assms error_kind_code_nonneg[of k]
    by (simp add: zigzag_format_def deserialize_io_error_kind_from_u32_def serialize_io_error_kind_as_u32_def)
  show ?thesis by (simp add: read error_kind_of_code_def)
qed

theorem error_kind_garbled_by_zigzag_witness:
  "deserialize_io_error_kind_from_u32 (Ok :: 32 word \<Rightarrow> (32 word, unit) result)
     (serialize_io_error_kind_as_u32 (\<lambda>n. 2 * n) WouldBlock) = Ok Other"
  using error_kind_garbled_by_zigzag[of "\<lambda>n. 2 * n" "Ok :: 32 word \<Rightarrow> (32 word, unit) result"]
  by (simp add: zigzag_format_def)

section \<open>Deadlines\<close>

lemma forward_left:
  "(\<forall>(received, work) \<in> set hops. received + left < instant_limit) \<Longrightarrow>
   forward hops left = Return (left - sum_list (map snd hops))"
proof (induction hops arbitrary: left)
  case (Cons hop hops)
  obtain received work where hop: "hop = (received, work)" by (cases hop)
  have "forward hops (left - work) = Return (left - work - sum_list (map snd hops))"
    using Cons.prems by (intro Cons.IH) force
  moreover have "deserialize_deadline received left = Return (received + left)"
    using Cons.prems hop by (simp add: deserialize_deadline_def instant_add_def)
  ultimately show ?case
    by (simp add: hop serialize_deadline_def duration_since_def)
qed simp

text \<open>C31: A deadline is sent as the time that is left.  Along a chain of servers, each with a clock of
  its own, the time left shrinks by exactly the time that the servers spend on the request, down to
  zero: no hop extends a deadline, and the difference between the clocks does not matter.\<close>

theorem deadline_chain:
  assumes "\<forall>(received, work) \<in> set hops. received + left < instant_limit"
  shows "forward hops left = Return (left - sum_list (map snd hops))"
  by (rule forward_left[OF assms])

theorem deadline_chain_witness: "forward [(1000, 3), (5, 4)] 10 = Return 3"
  using deadline_chain[of "[(1000, 3), (5, 4)]" 10] by (simp add: instant_limit_def)

text \<open>Reading a deadline panics exactly if the instant it stands for cannot be represented, and a
  peer can bring that about: the longest \<^verbatim>\<open>Duration\<close> that can be sent makes the receiver panic
  whatever its clock says.\<close>

lemma deadline_read_panics:
  "(deserialize_deadline now left = Panic \<longleftrightarrow> instant_limit \<le> now + left) \<and>
   deserialize_deadline now (2 ^ 64 * nanos_per_sec - 1) = Panic"
  by (auto simp: deserialize_deadline_def instant_add_def instant_limit_def)

section \<open>Trace contexts\<close>

text \<open>The trace context that \<^verbatim>\<open>set_context\<close> stores in a span is read back from it whole, ids and
  sampling decision; and a trace id survives its serialisation to bytes.\<close>

theorem trace_context_survives:
  "context_of_span_ref (fst (set_context ctx)) = trace_context ctx \<and>
   deserialize_u128 (serialize_u128 (trace_id_bits (trace_id (trace_context ctx)))) =
     trace_id_bits (trace_id (trace_context ctx))"
  by (simp add: set_context_roundtrip)

section \<open>Channel errors\<close>

text \<open>Downcasting a channel error that was upcast gives it back, and downcasting to another type
  gives back the upcast error unchanged.\<close>

theorem downcast_inverts_upcast:
  "downcast ty' (upcast_any ty e) = (if ty' = ty then Ok e else Err (upcast_any ty e))"
  by (cases e) (simp_all add: any_downcast_def)

end
