(* ===== verification/Trace_Format.thy ===== *)
theory Trace_Format
  imports Trace_Context
begin

text \<open>
  The rest of \<^verbatim>\<open>tarpc/src/trace.rs\<close>: random ids, the conversions of ids to and from integers, and how ids are
  printed.  \<^verbatim>\<open>{:02x}\<close> prints an integer in hexadecimal, with a leading zero if it has one digit.
\<close>

section \<open>Random ids and conversions\<close>

text \<open>\<open>gen\<close> is \<^verbatim>\<open>rng.gen::<NonZeroU128>()\<close> or \<^verbatim>\<open>rng.gen::<NonZeroU64>()\<close>, a function of the generator's state.\<close>

definition trace_id_random :: "('g \<Rightarrow> 128 word \<times> 'g) \<Rightarrow> 'g \<Rightarrow> trace_id \<times> 'g" where
  "trace_id_random gen rng = apfst TraceId (gen rng)"

definition span_id_random :: "('g \<Rightarrow> 64 word \<times> 'g) \<Rightarrow> 'g \<Rightarrow> span_id \<times> 'g" where
  "span_id_random gen rng = apfst SpanId (gen rng)"

definition u128_from_trace_id :: "trace_id \<Rightarrow> 128 word" where
  "u128_from_trace_id t = (case t of TraceId n \<Rightarrow> n)"

definition trace_id_from_u128 :: "128 word \<Rightarrow> trace_id" where
  "trace_id_from_u128 n = TraceId n"

definition u64_from_span_id :: "span_id \<Rightarrow> 64 word" where
  "u64_from_span_id s = (case s of SpanId n \<Rightarrow> n)"

definition span_id_from_u64 :: "64 word \<Rightarrow> span_id" where
  "span_id_from_u64 n = SpanId n"

section \<open>Printing\<close>

fun lower_hex :: "nat \<Rightarrow> string" where
  "lower_hex n = (if n < 16 then [hex_digit n] else lower_hex (n div 16) @ [hex_digit (n mod 16)])"

declare lower_hex.simps [simp del]

definition lower_hex_02 :: "nat \<Rightarrow> string" where
  "lower_hex_02 n = (let s = lower_hex n in if length s < 2 then CHR ''0'' # s else s)"

definition trace_id_display :: "trace_id \<Rightarrow> string" where
  "trace_id_display t = lower_hex_02 (unat (trace_id_bits t))"

definition trace_id_debug :: "trace_id \<Rightarrow> string" where
  "trace_id_debug t = lower_hex_02 (unat (trace_id_bits t))"

definition span_id_display :: "span_id \<Rightarrow> string" where
  "span_id_display s = lower_hex_02 (unat (span_id_bits s))"

definition span_id_debug :: "span_id \<Rightarrow> string" where
  "span_id_debug s = lower_hex_02 (unat (span_id_bits s))"

section \<open>Printed ids can be told apart\<close>

text \<open>Reading the digits back.\<close>

definition hex_value :: "char \<Rightarrow> nat" where
  "hex_value c = (if of_char c < (97 :: nat) then of_char c - 48 else of_char c - 87)"

definition read_hex :: "string \<Rightarrow> nat" where
  "read_hex s = foldl (\<lambda>n c. 16 * n + hex_value c) 0 s"

lemma hex_value_digit: "n < 16 \<Longrightarrow> hex_value (hex_digit n) = n"
  by (auto simp: hex_value_def hex_digit_def)

lemma read_lower_hex: "read_hex (lower_hex n) = n"
proof (induction n rule: lower_hex.induct)
  case (1 n)
  then show ?case
    by (cases "n < 16") (simp_all add: lower_hex.simps[of n] read_hex_def hex_value_digit)
qed

lemma read_lower_hex_02: "read_hex (lower_hex_02 n) = n"
proof -
  have "read_hex (CHR ''0'' # s) = read_hex s" for s by (simp add: read_hex_def hex_value_def)
  then show ?thesis by (simp add: lower_hex_02_def Let_def read_lower_hex)
qed

lemma lower_hex_02_inject: "lower_hex_02 m = lower_hex_02 n \<longleftrightarrow> m = n"
  by (metis read_lower_hex_02)

text \<open>Two ids are printed alike only if they are the same, and the conversions to integers lose nothing.\<close>

theorem id_display_inject:
  "(trace_id_display t = trace_id_display t' \<longleftrightarrow> t = t') \<and> (span_id_display s = span_id_display s' \<longleftrightarrow> s = s') \<and>
   trace_id_from_u128 (u128_from_trace_id t) = t \<and> span_id_from_u64 (u64_from_span_id s) = s"
  by (cases t; cases t'; cases s; cases s')
    (simp add: trace_id_display_def span_id_display_def lower_hex_02_inject trace_id_from_u128_def u128_from_trace_id_def
      span_id_from_u64_def u64_from_span_id_def word_unat_eq_iff)

end
