(* ===== verification/Service_Macro.thy ===== *)
theory Service_Macro
  imports Stubs
begin

text \<open>
  \<^verbatim>\<open>plugins/src/lib.rs\<close>: the attribute macro \<^verbatim>\<open>tarpc::service\<close>.  The tokens are parsed by \<^verbatim>\<open>syn\<close>; the
  model starts from what \<^verbatim>\<open>syn\<close> hands over (arguments, attributes, meta items) and covers what the
  macro itself checks, computes and generates.  The generated code is modelled by what it does: the
  request and response enums as pairs of a variant and its values, the generated \<^verbatim>\<open>serve\<close> and the
  generated client methods as functions.
\<close>

section \<open>Errors\<close>

text \<open>An error is the place it points at and its message.  A place is an argument or a method of the
  trait, an item of the attribute, or the end of the attribute.\<close>

datatype place = AtArg nat | AtMethod string | AtItem nat | AtInput

type_synonym macro_error = "place \<times> string"

text \<open>\<^verbatim>\<open>extend_errors!\<close>\<close>

fun extend_errors :: "('a, macro_error list) result \<Rightarrow> macro_error \<Rightarrow> ('a, macro_error list) result" where
  "extend_errors (Ok _) e = Err [e]"
| "extend_errors (Err errors) e = Err (errors @ [e])"

section \<open>Methods\<close>

datatype 'ty fn_arg =
    TypedIdent string 'ty
  | TypedPattern 'ty
  | Receiver

datatype attr_style = Outer | Inner

datatype attr_meta = MetaPath string | MetaList string string | MetaNameValue string

record attribute =
  at_style :: attr_style
  at_meta :: attr_meta

record 'ty rpc_method =
  rm_attrs :: "attribute list"
  rm_ident :: string
  rm_args :: "(string \<times> 'ty) list"
  rm_output :: "'ty option"

record 'ty service =
  sv_attrs :: "attribute list"
  sv_vis :: string
  sv_ident :: string
  sv_rpcs :: "'ty rpc_method list"

text \<open>The loop over the arguments in \<^verbatim>\<open>RpcMethod::parse\<close>; an error points at the position of its argument.\<close>

fun parse_args ::
  "nat \<Rightarrow> 'ty fn_arg list \<Rightarrow> (string \<times> 'ty) list \<Rightarrow> (unit, macro_error list) result \<Rightarrow>
   ((string \<times> 'ty) list, macro_error list) result" where
  "parse_args i [] args errors = (case errors of Ok _ \<Rightarrow> Ok args | Err e \<Rightarrow> Err e)"
| "parse_args i (TypedIdent x ty # rest) args errors = parse_args (Suc i) rest (args @ [(x, ty)]) errors"
| "parse_args i (TypedPattern ty # rest) args errors =
     parse_args (Suc i) rest args (extend_errors errors (AtArg i, ''patterns aren't allowed in RPC args''))"
| "parse_args i (Receiver # rest) args errors =
     parse_args (Suc i) rest args (extend_errors errors (AtArg i, ''method args cannot start with self''))"

definition rpc_method_parse ::
  "attribute list \<Rightarrow> string \<Rightarrow> 'ty fn_arg list \<Rightarrow> 'ty option \<Rightarrow> ('ty rpc_method, macro_error list) result" where
  "rpc_method_parse attrs ident fn_args output =
     (case parse_args 0 fn_args [] (Ok ()) of
        Err e \<Rightarrow> Err e
      | Ok args \<Rightarrow> Ok \<lparr>rm_attrs = attrs, rm_ident = ident, rm_args = args, rm_output = output\<rparr>)"

text \<open>A method of the trait as \<^verbatim>\<open>syn\<close> sees it; the first method with errors stops the parser.\<close>

record 'ty fn_item =
  fi_attrs :: "attribute list"
  fi_ident :: string
  fi_args :: "'ty fn_arg list"
  fi_output :: "'ty option"

fun parse_rpcs :: "'ty fn_item list \<Rightarrow> ('ty rpc_method list, macro_error list) result" where
  "parse_rpcs [] = Ok []"
| "parse_rpcs (f # fns) =
     (case rpc_method_parse (fi_attrs f) (fi_ident f) (fi_args f) (fi_output f) of
        Err e \<Rightarrow> Err e
      | Ok rpc \<Rightarrow> (case parse_rpcs fns of Err e \<Rightarrow> Err e | Ok rpcs \<Rightarrow> Ok (rpc # rpcs)))"

text \<open>The check of the names in \<^verbatim>\<open>Service::parse\<close>; \<open>unraw\<close> strips \<^verbatim>\<open>r#\<close>.\<close>

definition unraw :: "string \<Rightarrow> string" where
  "unraw s = (if take 2 s = ''r#'' then drop 2 s else s)"

fun check_idents ::
  "string \<Rightarrow> 'ty rpc_method list \<Rightarrow> (unit, macro_error list) result \<Rightarrow> (unit, macro_error list) result" where
  "check_idents ident [] errors = errors"
| "check_idents ident (rpc # rpcs) errors =
     (let errors = (if rm_ident rpc = ''new''
            then extend_errors errors (AtMethod (rm_ident rpc),
                   ''method name conflicts with generated fn `'' @ unraw ident @ ''Client::new`'')
            else errors);
          errors = (if rm_ident rpc = ''serve''
            then extend_errors errors (AtMethod (rm_ident rpc), ''method name conflicts with generated fn `'' @ ident @ ''::serve`'')
            else errors)
      in check_idents ident rpcs errors)"

definition service_parse ::
  "attribute list \<Rightarrow> string \<Rightarrow> string \<Rightarrow> 'ty fn_item list \<Rightarrow> ('ty service, macro_error list) result" where
  "service_parse attrs vis ident fns =
     (case parse_rpcs fns of
        Err e \<Rightarrow> Err e
      | Ok rpcs \<Rightarrow>
          (case check_idents ident rpcs (Ok ()) of
             Err e \<Rightarrow> Err e
           | Ok _ \<Rightarrow> Ok \<lparr>sv_attrs = attrs, sv_vis = vis, sv_ident = ident, sv_rpcs = rpcs\<rparr>))"

definition collect_cfg_attrs :: "'ty rpc_method list \<Rightarrow> attribute list list" where
  "collect_cfg_attrs rpcs =
     map (\<lambda>rpc. filter (\<lambda>att. at_style att = Outer \<and>
         (case at_meta att of MetaList path _ \<Rightarrow> path = ''cfg'' | _ \<Rightarrow> False)) (rm_attrs rpc)) rpcs"

section \<open>Derives\<close>

datatype derive = Explicit "string list" | Serde bool

record derive_meta =
  dm_derive :: "derive option"
  dm_warnings :: "string list"

datatype array_elem = PathElem string | OtherElem

datatype meta_value = ArrayValue "array_elem list" | BoolValue bool | OtherLit | OtherValue

record meta_item =
  mi_path :: "string list"
  mi_value :: meta_value

definition derive_meta_default :: derive_meta where
  "derive_meta_default = \<lparr>dm_derive = None, dm_warnings = []\<rparr>"

definition with_derives :: "string list \<Rightarrow> derive_meta \<Rightarrow> derive_meta" where
  "with_derives new d =
     (case dm_derive d of
        Some (Explicit old) \<Rightarrow> d\<lparr>dm_derive := Some (Explicit (old @ new))\<rparr>
      | _ \<Rightarrow> d\<lparr>dm_derive := Some (Explicit new)\<rparr>)"

text \<open>The variables of the loop in \<^verbatim>\<open>DeriveMeta::parse\<close>.  Errors point at the number of the item.\<close>

record derive_loop =
  dl_result :: "(derive_meta, macro_error list) result"
  dl_derives :: "nat list"
  dl_derive_serde :: "nat list"
  dl_has_derive_serde :: bool
  dl_has_explicit_derives :: bool

definition unsupported :: "nat \<Rightarrow> macro_error" where
  "unsupported i = (AtItem i, ''tarpc::service does not support this meta item'')"

fun derive_paths ::
  "nat \<Rightarrow> array_elem list \<Rightarrow> (derive_meta, macro_error list) result \<Rightarrow>
   string list \<times> (derive_meta, macro_error list) result" where
  "derive_paths i [] result = ([], result)"
| "derive_paths i (PathElem p # es) result = (let (ps, result) = derive_paths i es result in (p # ps, result))"
| "derive_paths i (OtherElem # es) result = derive_paths i es (extend_errors result (AtItem i, ''Expected Path or Type''))"

definition derive_step :: "bool \<Rightarrow> nat \<Rightarrow> meta_item \<Rightarrow> derive_loop \<Rightarrow> derive_loop" where
  "derive_step serde1 i meta l =
     (case mi_path meta of
        [segment] \<Rightarrow>
          if segment = ''derive'' then
            (let l = l\<lparr>dl_has_explicit_derives := True\<rparr> in
             case mi_value meta of
               ArrayValue elems \<Rightarrow>
                 (let (paths, result) = derive_paths i elems (dl_result l)
                  in l\<lparr>dl_result := result_map (with_derives paths) result, dl_derives := dl_derives l @ [i]\<rparr>)
             | _ \<Rightarrow> l\<lparr>dl_result := extend_errors (dl_result l) (unsupported i)\<rparr>)
          else if segment = ''derive_serde'' then
            (let l = l\<lparr>dl_has_derive_serde := True\<rparr> in
             case mi_value meta of
               BoolValue True \<Rightarrow>
                 l\<lparr>dl_result := (if serde1 then result_map (\<lambda>d. d\<lparr>dm_derive := Some (Serde True)\<rparr>) (dl_result l)
                     else extend_errors (dl_result l) (AtItem i, ''To enable serde, first enable the `serde1` feature of tarpc'')),
                   dl_derive_serde := dl_derive_serde l @ [i]\<rparr>
             | BoolValue False \<Rightarrow>
                 l\<lparr>dl_result := result_map (\<lambda>d. d\<lparr>dm_derive := Some (Serde False)\<rparr>) (dl_result l),
                   dl_derive_serde := dl_derive_serde l @ [i]\<rparr>
             | OtherLit \<Rightarrow>
                 l\<lparr>dl_result := extend_errors (dl_result l) (AtItem i, ''`derive_serde` expects a value of type `bool`''),
                   dl_derive_serde := dl_derive_serde l @ [i]\<rparr>
             | _ \<Rightarrow> l\<lparr>dl_result := extend_errors (dl_result l) (AtItem i, ''expected literal'')\<rparr>)
          else l\<lparr>dl_result := extend_errors (dl_result l) (unsupported i)\<rparr>
      | _ \<Rightarrow> l\<lparr>dl_result := extend_errors (dl_result l) (unsupported i)\<rparr>)"

definition derive_loop_start :: derive_loop where
  "derive_loop_start = \<lparr>dl_result = Ok derive_meta_default, dl_derives = [], dl_derive_serde = [],
     dl_has_derive_serde = False, dl_has_explicit_derives = False\<rparr>"

function show_nat :: "nat \<Rightarrow> string" where
  "show_nat n = (if n < 10 then [char_of (48 + n)] else show_nat (n div 10) @ [char_of (48 + n mod 10)])"
  by pat_completeness auto

termination
  by (relation "measure (\<lambda>n. n)") auto

definition more_than_once ::
  "string \<Rightarrow> nat list \<Rightarrow> (derive_meta, macro_error list) result \<Rightarrow> (derive_meta, macro_error list) result" where
  "more_than_once what items result =
     (if length items > 1
      then fold (\<lambda>(n, i) result. extend_errors result
             (AtItem i, what @ '' appears more than once (occurrence #'' @ show_nat (n + 1) @ '')'')) (enumerate 0 items) result
      else result)"

definition deprecation_hack :: string where
  "deprecation_hack =
     CHR 0x0A # ''The form `tarpc::service(derive_serde = true)` is deprecated.'' @
     CHR 0x0A # ''Use `tarpc::service(derive = [Serialize, Deserialize])`.''"

definition derive_meta_parse :: "bool \<Rightarrow> meta_item list \<Rightarrow> (derive_meta, macro_error list) result" where
  "derive_meta_parse serde1 items =
     (let l = fold (\<lambda>(i, meta). derive_step serde1 i meta) (enumerate 0 items) derive_loop_start;
          result = dl_result l;
          result = (if dl_has_derive_serde l
            then result_map (\<lambda>d. d\<lparr>dm_warnings := dm_warnings d @ [deprecation_hack]\<rparr>) result else result);
          result = (if dl_has_explicit_derives l \<and> dl_has_derive_serde l
            then extend_errors result (AtInput,
                   ''tarpc does not support `derive_serde` and `derive` at the same time'') else result)
      in more_than_once ''`derive`'' (dl_derives l) (more_than_once ''`derive_serde`'' (dl_derive_serde l) result))"

text \<open>The derive attribute of the generated enums: the paths, or those of \<^verbatim>\<open>serde\<close>.\<close>

definition serde_derives :: "string list" where
  "serde_derives = [''::tarpc::serde::Serialize'', ''::tarpc::serde::Deserialize'']"

definition generated_derives :: "bool \<Rightarrow> derive_meta \<Rightarrow> string list option" where
  "generated_derives serde1 d =
     (case dm_derive d of
        Some (Explicit paths) \<Rightarrow> if paths \<noteq> [] then Some paths else None
      | Some (Serde serde) \<Rightarrow> if serde then Some serde_derives else None
      | None \<Rightarrow> if serde1 then Some serde_derives else None)"

section \<open>Names\<close>

text \<open>\<open>upper\<close> and \<open>lower\<close> are \<^verbatim>\<open>char::to_uppercase\<close> and \<^verbatim>\<open>to_lowercase\<close>, which may give several characters.
  The flag is \<^verbatim>\<open>last_char_was_underscore\<close>.\<close>

fun camel_from :: "(char \<Rightarrow> string) \<Rightarrow> (char \<Rightarrow> string) \<Rightarrow> bool \<Rightarrow> string \<Rightarrow> string \<Rightarrow> string" where
  "camel_from upper lower last_underscore [] camel = camel"
| "camel_from upper lower last_underscore (c # cs) camel =
     (if c = CHR ''_'' then camel_from upper lower True cs camel
      else if last_underscore then camel_from upper lower False cs (camel @ upper c)
      else camel_from upper lower False cs (camel @ lower c))"

definition snake_to_camel :: "(char \<Rightarrow> string) \<Rightarrow> (char \<Rightarrow> string) \<Rightarrow> string \<Rightarrow> string" where
  "snake_to_camel upper lower s = camel_from upper lower True s []"

section \<open>The macro\<close>

record 'ty service_generator =
  sg_service_ident :: string
  sg_client_stub_ident :: string
  sg_server_ident :: string
  sg_client_ident :: string
  sg_request_ident :: string
  sg_response_ident :: string
  sg_vis :: string
  sg_attrs :: "attribute list"
  sg_rpcs :: "'ty rpc_method list"
  sg_camel_case_idents :: "string list"
  sg_method_idents :: "string list"
  sg_request_names :: "string list"
  sg_method_attrs :: "attribute list list"
  sg_method_cfgs :: "attribute list list"
  sg_args :: "(string \<times> 'ty) list list"
  sg_return_types :: "'ty list"
  sg_arg_pats :: "string list list"
  sg_derives :: "string list option"
  sg_warnings :: "string list"

text \<open>\<open>valid_ident\<close> tells the strings that \<^verbatim>\<open>Ident::new\<close> takes; it panics on any other.  \<^verbatim>\<open>format_ident!\<close> strips the
  prefix of a raw identifier, \<^verbatim>\<open>format!\<close> does not.\<close>

definition service_macro ::
  "bool \<Rightarrow> 'ty \<Rightarrow> (char \<Rightarrow> string) \<Rightarrow> (char \<Rightarrow> string) \<Rightarrow> (string \<Rightarrow> bool) \<Rightarrow> meta_item list \<Rightarrow>
   attribute list \<Rightarrow> string \<Rightarrow> string \<Rightarrow> 'ty fn_item list \<Rightarrow> ('ty service_generator, macro_error list) result outcome" where
  "service_macro serde1 unit_type upper lower valid_ident items attrs vis ident fns =
     (case derive_meta_parse serde1 items of
        Err e \<Rightarrow> Return (Err e)
      | Ok derive_meta \<Rightarrow>
          (case service_parse attrs vis ident fns of
             Err e \<Rightarrow> Return (Err e)
           | Ok s \<Rightarrow>
               (let rpcs = sv_rpcs s;
                    camel_case_fn_names = map (\<lambda>rpc. snake_to_camel upper lower (unraw (rm_ident rpc))) rpcs;
                    args = map rm_args rpcs;
                    methods = map rm_ident rpcs
                in if list_all valid_ident camel_case_fn_names
                   then Return (Ok
                     \<lparr>sg_service_ident = sv_ident s,
                      sg_client_stub_ident = unraw (sv_ident s) @ ''Stub'',
                      sg_server_ident = ''Serve'' @ unraw (sv_ident s),
                      sg_client_ident = unraw (sv_ident s) @ ''Client'',
                      sg_request_ident = unraw (sv_ident s) @ ''Request'',
                      sg_response_ident = unraw (sv_ident s) @ ''Response'',
                      sg_vis = sv_vis s,
                      sg_attrs = sv_attrs s,
                      sg_rpcs = rpcs,
                      sg_camel_case_idents = camel_case_fn_names,
                      sg_method_idents = methods,
                      sg_request_names = map (\<lambda>m. sv_ident s @ ''.'' @ m) methods,
                      sg_method_attrs = map rm_attrs rpcs,
                      sg_method_cfgs = collect_cfg_attrs rpcs,
                      sg_args = args,
                      sg_return_types =
                        map (\<lambda>rpc. case rm_output rpc of Some ty \<Rightarrow> ty | None \<Rightarrow> unit_type) rpcs,
                      sg_arg_pats = map (map fst) args,
                      sg_derives = generated_derives serde1 derive_meta,
                      sg_warnings = dm_warnings derive_meta\<rparr>)
                   else Panic)))"

section \<open>Generated code\<close>

text \<open>What \<^verbatim>\<open>rustc\<close> keeps of generated items that carry attributes: \<open>cfg\<close> decides the \<^verbatim>\<open>cfg\<close> attributes.\<close>

definition kept :: "(attribute \<Rightarrow> bool) \<Rightarrow> attribute list list \<Rightarrow> 'a list \<Rightarrow> 'a list" where
  "kept cfg attrs items = map snd (filter (\<lambda>(as, _). list_all cfg as) (zip attrs items))"

text \<open>The methods of the trait: attributes, name, arguments, result.\<close>

definition trait_service ::
  "'ty service_generator \<Rightarrow> (attribute list \<times> string \<times> (string \<times> 'ty) list \<times> 'ty) list" where
  "trait_service g = map (\<lambda>(rpc, output). (rm_attrs rpc, rm_ident rpc, rm_args rpc, output)) (zip (sg_rpcs g) (sg_return_types g))"

text \<open>The variants of the enums.  \<^verbatim>\<open>enum_request\<close> has one for each method with its arguments, under the \<^verbatim>\<open>cfg\<close>
  attributes of the method; \<^verbatim>\<open>enum_response\<close> has one with the result, without those attributes.\<close>

definition enum_request :: "(attribute \<Rightarrow> bool) \<Rightarrow> 'ty service_generator \<Rightarrow> (string \<times> (string \<times> 'ty) list) list" where
  "enum_request cfg g = kept cfg (sg_method_cfgs g) (zip (sg_camel_case_idents g) (sg_args g))"

definition enum_response :: "'ty service_generator \<Rightarrow> (string \<times> 'ty) list" where
  "enum_response g = zip (sg_camel_case_idents g) (sg_return_types g)"

text \<open>A value of a generated enum is a variant with what it holds.  \<^verbatim>\<open>RequestName::name\<close> has an arm for each
  variant; \<open>None\<close> stands for a pair which is no value of the enum.\<close>

definition request_name :: "(attribute \<Rightarrow> bool) \<Rightarrow> 'ty service_generator \<Rightarrow> string \<Rightarrow> string option" where
  "request_name cfg g variant =
     map_of (kept cfg (sg_method_cfgs g) (zip (sg_camel_case_idents g) (sg_request_names g))) variant"

text \<open>\<^verbatim>\<open>impl_serve_for_server\<close>: the arm of a variant calls the method of the service \<open>svc\<close>, and wraps the
  result in the variant of the same name.\<close>

definition generated_serve ::
  "(attribute \<Rightarrow> bool) \<Rightarrow> 'ty service_generator \<Rightarrow> (string \<Rightarrow> rpc_context \<Rightarrow> 'v list \<Rightarrow> 'w \<Rightarrow> 'v \<times> 'w) \<Rightarrow>
   rpc_context \<Rightarrow> string \<times> 'v list \<Rightarrow> 'w \<Rightarrow> ((string \<times> 'v, server_error) result \<times> 'w) option" where
  "generated_serve cfg g svc ctx req w =
     (case map_of (kept cfg (sg_method_cfgs g) (zip (sg_camel_case_idents g) (sg_method_idents g))) (fst req) of
        None \<Rightarrow> None
      | Some method_ident \<Rightarrow> (let (r, w) = svc method_ident ctx (snd req) w in Some (Ok (fst req, r), w)))"

text \<open>\<^verbatim>\<open>impl_client_rpc_methods\<close>: method number \<open>i\<close> sends the variant of its name and unwraps that variant;
  any other is \<^verbatim>\<open>unreachable!\<close>.\<close>

definition client_method ::
  "'ty service_generator \<Rightarrow> nat \<Rightarrow> ('w, string \<times> 'v list, string \<times> 'v, 'e) stub \<Rightarrow>
   rpc_context \<Rightarrow> 'v list \<Rightarrow> 'w \<Rightarrow> (('v, 'e rpc_error) result \<times> 'w) outcome" where
  "client_method g i stub ctx args w =
     (let (resp, w) = stub ctx (sg_camel_case_idents g ! i, args) w
      in case resp of
           Err e \<Rightarrow> Return (Err e, w)
         | Ok (variant, msg) \<Rightarrow> if variant = sg_camel_case_idents g ! i then Return (Ok msg, w) else Panic)"

section \<open>Lemmas\<close>

fun arg_errors :: "nat \<Rightarrow> 'ty fn_arg list \<Rightarrow> macro_error list" where
  "arg_errors i [] = []"
| "arg_errors i (TypedIdent x ty # rest) = arg_errors (Suc i) rest"
| "arg_errors i (TypedPattern ty # rest) = (AtArg i, ''patterns aren't allowed in RPC args'') # arg_errors (Suc i) rest"
| "arg_errors i (Receiver # rest) = (AtArg i, ''method args cannot start with self'') # arg_errors (Suc i) rest"

fun plain_args :: "'ty fn_arg list \<Rightarrow> (string \<times> 'ty) list" where
  "plain_args [] = []"
| "plain_args (TypedIdent x ty # rest) = (x, ty) # plain_args rest"
| "plain_args (_ # rest) = plain_args rest"

lemma parse_args_Err: "parse_args i xs args (Err es) = Err (es @ arg_errors i xs)"
  by (induction i xs arbitrary: args es rule: arg_errors.induct) auto

lemma parse_args_Ok:
  "parse_args i xs args (Ok u) = (if arg_errors i xs = [] then Ok (args @ plain_args xs) else Err (arg_errors i xs))"
  by (induction i xs arbitrary: args rule: arg_errors.induct) (auto simp: parse_args_Err)

definition name_errors :: "string \<Rightarrow> 'ty rpc_method list \<Rightarrow> macro_error list" where
  "name_errors ident rpcs = concat (map (\<lambda>rpc.
     (if rm_ident rpc = ''new''
      then [(AtMethod (rm_ident rpc), ''method name conflicts with generated fn `'' @ unraw ident @ ''Client::new`'')] else []) @
     (if rm_ident rpc = ''serve''
      then [(AtMethod (rm_ident rpc), ''method name conflicts with generated fn `'' @ ident @ ''::serve`'')] else [])) rpcs)"

lemma check_idents_Err: "check_idents ident rpcs (Err es) = Err (es @ name_errors ident rpcs)"
  by (induction rpcs arbitrary: es) (auto simp: name_errors_def Let_def)

lemma check_idents_Ok:
  "check_idents ident rpcs (Ok u) = (if name_errors ident rpcs = [] then Ok u else Err (name_errors ident rpcs))"
  by (induction rpcs) (auto simp: name_errors_def check_idents_Err Let_def)

lemma name_errors_empty:
  "name_errors ident rpcs = [] \<longleftrightarrow> (\<forall>rpc \<in> set rpcs. rm_ident rpc \<noteq> ''new'' \<and> rm_ident rpc \<noteq> ''serve'')"
  by (auto simp: name_errors_def)

text \<open>The reference for names: split at the underscores, capitalise each piece, and join.\<close>

fun capitalise :: "(char \<Rightarrow> string) \<Rightarrow> (char \<Rightarrow> string) \<Rightarrow> string \<Rightarrow> string" where
  "capitalise upper lower [] = []"
| "capitalise upper lower (c # cs) = upper c @ concat (map lower cs)"

fun split_underscores :: "string \<Rightarrow> string list" where
  "split_underscores [] = [[]]"
| "split_underscores (c # cs) =
     (if c = CHR ''_'' then [] # split_underscores cs
      else (case split_underscores cs of [] \<Rightarrow> [[c]] | p # ps \<Rightarrow> (c # p) # ps))"

lemma split_underscores_Cons: "\<exists>p ps. split_underscores s = p # ps"
  by (induction s) (auto split: list.splits)

lemma camel_from_pieces:
  "camel_from upper lower b s camel =
   (case split_underscores s of
      p # ps \<Rightarrow> camel @ (if b then capitalise upper lower p else concat (map lower p)) @
                concat (map (capitalise upper lower) ps)
    | [] \<Rightarrow> camel)"
proof (induction s arbitrary: b camel)
  case (Cons c cs)
  obtain p ps where "split_underscores cs = p # ps" using split_underscores_Cons by blast
  then show ?case using Cons by auto
qed simp

fun is_Err :: "('a, 'e) result \<Rightarrow> bool" where
  "is_Err (Ok _) = False"
| "is_Err (Err _) = True"

lemma is_Err_extend [simp]: "is_Err (extend_errors r e)"
  by (cases r) auto

lemma is_Err_result_map [simp]: "is_Err (result_map f r) = is_Err r"
  by (cases r) auto

lemma fold_extend_Err: "is_Err r \<Longrightarrow> is_Err (fold (\<lambda>x r. extend_errors r (f x)) xs r)"
  by (induction xs arbitrary: r) simp_all

lemma more_than_once_Err: "is_Err r \<or> 1 < length items \<Longrightarrow> is_Err (more_than_once what items r)"
proof -
  assume a: "is_Err r \<or> 1 < length items"
  let ?f = "\<lambda>(n, i). (AtItem i, what @ '' appears more than once (occurrence #'' @ show_nat (n + 1) @ '')'')"
  have eq: "more_than_once what items r =
      (if length items > 1 then fold (\<lambda>x r. extend_errors r (?f x)) (enumerate 0 items) r else r)"
    unfolding more_than_once_def by (simp add: case_prod_unfold)
  show ?thesis
  proof (cases "1 < length items")
    case True
    then obtain x xs where e: "enumerate 0 items = x # xs" by (cases "enumerate 0 items") (auto simp: enumerate_eq_zip)
    have "fold (\<lambda>x r. extend_errors r (?f x)) (enumerate 0 items) r = fold (\<lambda>x r. extend_errors r (?f x)) xs (extend_errors r (?f x))"
      by (simp add: e)
    also have "is_Err \<dots>" by (rule fold_extend_Err) simp
    finally show ?thesis using eq True by simp
  qed (use a eq in simp)
qed

lemma derive_paths_Err:
  "derive_paths i es r = (ps, r') \<Longrightarrow> is_Err r' \<longleftrightarrow> is_Err r \<or> OtherElem \<in> set es"
  by (induction i es r arbitrary: ps r' rule: derive_paths.induct) (auto split: prod.splits)

text \<open>While no item was refused, every item is counted in one of the two lists.\<close>

definition counted :: "nat \<Rightarrow> derive_loop \<Rightarrow> bool" where
  "counted k l \<longleftrightarrow> is_Err (dl_result l) \<or>
     length (dl_derives l) + length (dl_derive_serde l) = k \<and>
     (dl_derives l \<noteq> [] \<longrightarrow> dl_has_explicit_derives l) \<and> (dl_derive_serde l \<noteq> [] \<longrightarrow> dl_has_derive_serde l)"

lemma derive_step_counted: "counted k l \<Longrightarrow> counted (Suc k) (derive_step serde1 i meta l)"
  by (auto simp: counted_def derive_step_def Let_def derive_paths_Err
    split: list.splits meta_value.splits bool.splits prod.splits)

lemma derive_fold_counted:
  "counted k l \<Longrightarrow> counted (k + length items) (fold (\<lambda>(i, meta). derive_step serde1 i meta) (enumerate n items) l)"
proof (induction items arbitrary: n k l)
  case (Cons m items)
  from Cons.IH[OF derive_step_counted[OF Cons.prems]] show ?case by simp
qed simp

lemma derive_meta_parse_many:
  assumes "1 < length items"
  shows "is_Err (derive_meta_parse serde1 items)"
proof -
  define l where "l = fold (\<lambda>(i, meta). derive_step serde1 i meta) (enumerate 0 items) derive_loop_start"
  have "counted (length items) l"
    using derive_fold_counted[of 0 derive_loop_start items serde1 0] by (simp add: l_def counted_def derive_loop_start_def)
  then have "is_Err (dl_result l) \<or> 1 < length (dl_derives l) \<or> 1 < length (dl_derive_serde l) \<or>
      dl_has_explicit_derives l \<and> dl_has_derive_serde l"
    using assms by (cases "dl_derives l"; cases "dl_derive_serde l") (auto simp: counted_def)
  then show ?thesis
    unfolding derive_meta_parse_def Let_def l_def[symmetric] by (auto intro!: more_than_once_Err)
qed

lemma derive_paths_plain: "derive_paths i (map PathElem ps) r = (ps, r)"
  by (induction ps) auto

lemma only_paths: "OtherElem \<notin> set es \<Longrightarrow> \<exists>ps. es = map PathElem ps"
proof (induction es)
  case (Cons e es)
  then obtain ps where "es = map PathElem ps" by auto
  with Cons.prems show ?case by (cases e) (auto intro: exI[of _ "x # ps" for x])
qed simp

lemma derive_meta_parse_none: "derive_meta_parse serde1 [] = Ok derive_meta_default"
  by (simp add: derive_meta_parse_def derive_loop_start_def more_than_once_def)

lemma derive_step_flag:
  "dl_has_derive_serde (derive_step serde1 0 m derive_loop_start) \<longleftrightarrow> mi_path m = [''derive_serde'']"
  by (auto simp: derive_step_def derive_loop_start_def Let_def
    split: list.splits if_splits meta_value.splits bool.splits prod.splits)

lemma derive_step_explicit:
  "dl_has_explicit_derives (derive_step serde1 0 m derive_loop_start) \<longleftrightarrow> mi_path m = [''derive'']"
  by (auto simp: derive_step_def derive_loop_start_def Let_def
    split: list.splits if_splits meta_value.splits bool.splits prod.splits)

lemma derive_step_lists:
  "length (dl_derives (derive_step serde1 0 m derive_loop_start)) \<le> 1"
  "length (dl_derive_serde (derive_step serde1 0 m derive_loop_start)) \<le> 1"
  by (auto simp: derive_step_def derive_loop_start_def Let_def
    split: list.splits if_splits meta_value.splits bool.splits prod.splits)

lemma more_than_once_short: "length items \<le> 1 \<Longrightarrow> more_than_once what items r = r"
  by (simp add: more_than_once_def)

lemma derive_meta_parse_one:
  "derive_meta_parse serde1 [m] =
   (let l = derive_step serde1 0 m derive_loop_start
    in if mi_path m = [''derive_serde'']
       then result_map (\<lambda>d. d\<lparr>dm_warnings := dm_warnings d @ [deprecation_hack]\<rparr>) (dl_result l) else dl_result l)"
  unfolding derive_meta_parse_def Let_def enumerate_simps fold_simps split_conv
    more_than_once_short[OF derive_step_lists(1)] more_than_once_short[OF derive_step_lists(2)]
    derive_step_flag derive_step_explicit
  by auto

lemma derive_step_one:
  "dl_result (derive_step serde1 0 m derive_loop_start) = Ok d \<longleftrightarrow>
   (\<exists>ps. m = \<lparr>mi_path = [''derive''], mi_value = ArrayValue (map PathElem ps)\<rparr> \<and>
         d = \<lparr>dm_derive = Some (Explicit ps), dm_warnings = []\<rparr>) \<or>
   m = \<lparr>mi_path = [''derive_serde''], mi_value = BoolValue True\<rparr> \<and> serde1 \<and>
     d = \<lparr>dm_derive = Some (Serde True), dm_warnings = []\<rparr> \<or>
   m = \<lparr>mi_path = [''derive_serde''], mi_value = BoolValue False\<rparr> \<and>
     d = \<lparr>dm_derive = Some (Serde False), dm_warnings = []\<rparr>"
  (is "?L = ?R")
proof
  assume ?R
  then show ?L
    by (auto simp: derive_step_def derive_loop_start_def derive_meta_default_def with_derives_def derive_paths_plain)
next
  assume L: ?L
  obtain path v where m: "m = \<lparr>mi_path = path, mi_value = v\<rparr>" by (cases m) simp
  show ?R
  proof (cases "path = [''derive'']")
    case True
    obtain es where v: "v = ArrayValue es"
      using L m True by (cases v) (auto simp: derive_step_def derive_loop_start_def)
    obtain ps r where p: "derive_paths 0 es (Ok derive_meta_default) = (ps, r)" by fastforce
    have r: "result_map (with_derives ps) r = Ok d"
      using L m v True p by (simp add: derive_step_def derive_loop_start_def)
    then have "OtherElem \<notin> set es" using derive_paths_Err[OF p] by (cases r) auto
    then obtain qs where "es = map PathElem qs" using only_paths by blast
    with p r m v True show ?thesis by (auto simp: derive_paths_plain with_derives_def derive_meta_default_def)
  next
    case False
    with L m show ?thesis
      by (auto simp: derive_step_def derive_loop_start_def derive_meta_default_def Let_def
        split: list.splits if_splits meta_value.splits bool.splits)
  qed
qed

lemma result_map_Ok: "result_map f r = Ok d \<longleftrightarrow> (\<exists>x. r = Ok x \<and> d = f x)"
  by (cases r) auto

lemma kept_lookup:
  assumes "length attrs = length names" "length names = length items" "distinct names" "i < length names"
    and "list_all cfg (attrs ! i)"
  shows "map_of (kept cfg attrs (zip names items)) (names ! i) = Some (items ! i)"
  using assms
proof (induction attrs names arbitrary: items i rule: list_induct2)
  case (Cons a attrs n names)
  obtain x xs where items: "items = x # xs" using Cons.prems(1) by (cases items) auto
  show ?case
  proof (cases i)
    case 0
    with Cons.prems items show ?thesis by (simp add: kept_def)
  next
    case (Suc j)
    then have "names ! j \<noteq> n" using Cons.prems by (auto simp: in_set_conv_nth)
    with Suc Cons.IH[of xs j] Cons.prems items show ?thesis by (auto simp: kept_def)
  qed
qed simp

lemma service_macro_lengths:
  assumes "service_macro serde1 unit_type upper lower valid_ident items attrs vis ident fns = Return (Ok g)"
  shows "length (sg_method_cfgs g) = length (sg_camel_case_idents g)"
    "length (sg_camel_case_idents g) = length (sg_method_idents g)"
    "sg_request_names g = map (\<lambda>m. ident @ ''.'' @ m) (sg_method_idents g)"
  using assms by (auto simp: service_macro_def service_parse_def Let_def collect_cfg_attrs_def split: result.splits if_splits)

definition plain_rpc :: "'ty fn_item \<Rightarrow> 'ty rpc_method" where
  "plain_rpc f = \<lparr>rm_attrs = fi_attrs f, rm_ident = fi_ident f, rm_args = plain_args (fi_args f), rm_output = fi_output f\<rparr>"

lemma parse_rpcs_exact:
  "parse_rpcs fns =
     (case filter (\<lambda>es. es \<noteq> []) (map (\<lambda>f. arg_errors 0 (fi_args f)) fns) of
        es # _ \<Rightarrow> Err es | [] \<Rightarrow> Ok (map plain_rpc fns))"
  by (induction fns) (auto simp: rpc_method_parse_def parse_args_Ok plain_rpc_def split: list.splits)

section \<open>Types of the generated code\<close>

text \<open>\<open>ty_of\<close> is the type of a value.  A request is well typed when its variant holds arguments of the types that the enum
  declares, a response likewise, and a service when each method that is compiled in, applied to arguments of the
  types in the trait, returns a value of the type in the trait.\<close>

definition request_typed :: "(attribute \<Rightarrow> bool) \<Rightarrow> 'ty service_generator \<Rightarrow> ('v \<Rightarrow> 'ty) \<Rightarrow> string \<times> 'v list \<Rightarrow> bool" where
  "request_typed cfg g ty_of req \<longleftrightarrow>
     (case map_of (enum_request cfg g) (fst req) of None \<Rightarrow> False | Some params \<Rightarrow> map ty_of (snd req) = map snd params)"

definition response_typed :: "'ty service_generator \<Rightarrow> ('v \<Rightarrow> 'ty) \<Rightarrow> string \<times> 'v \<Rightarrow> bool" where
  "response_typed g ty_of resp \<longleftrightarrow> map_of (enum_response g) (fst resp) = Some (ty_of (snd resp))"

definition service_typed ::
  "(attribute \<Rightarrow> bool) \<Rightarrow> 'ty service_generator \<Rightarrow> ('v \<Rightarrow> 'ty) \<Rightarrow> (string \<Rightarrow> rpc_context \<Rightarrow> 'v list \<Rightarrow> 'w \<Rightarrow> 'v \<times> 'w) \<Rightarrow> bool" where
  "service_typed cfg g ty_of svc \<longleftrightarrow>
     (\<forall>i < length (trait_service g). list_all cfg (sg_method_cfgs g ! i) \<longrightarrow>
        (case trait_service g ! i of (attrs, method, params, output) \<Rightarrow>
           \<forall>ctx args w. map ty_of args = map snd params \<longrightarrow> ty_of (fst (svc method ctx args w)) = output))"

lemma kept_inverse:
  assumes "map_of (kept cfg attrs (zip names items)) x = Some y"
  shows "\<exists>i < length names. names ! i = x \<and> items ! i = y \<and> list_all cfg (attrs ! i)"
proof -
  have "(x, y) \<in> set (kept cfg attrs (zip names items))" using assms by (rule map_of_SomeD)
  then obtain a where "(a, x, y) \<in> set (zip attrs (zip names items))" "list_all cfg a" by (auto simp: kept_def)
  then show ?thesis by (auto simp: in_set_zip)
qed

lemma service_macro_trait:
  assumes "service_macro serde1 unit_type upper lower valid_ident items attrs vis ident fns = Return (Ok g)"
    and i: "i < length (sg_camel_case_idents g)"
  shows "\<exists>as. trait_service g ! i = (as, sg_method_idents g ! i, sg_args g ! i, sg_return_types g ! i)"
    "length (trait_service g) = length (sg_camel_case_idents g)" "length (sg_return_types g) = length (sg_camel_case_idents g)"
  using assms by (auto simp: service_macro_def service_parse_def Let_def trait_service_def split: result.splits if_splits)

section \<open>Properties\<close>

text \<open>\<^verbatim>\<open>snake_to_camel\<close> splits a name at its underscores, raises the first character of each piece,
  lowers the others, and joins the pieces.\<close>

theorem snake_to_camel_pieces:
  "snake_to_camel upper lower s = concat (map (capitalise upper lower) (split_underscores s))"
proof -
  obtain p ps where "split_underscores s = p # ps" using split_underscores_Cons by blast
  then show ?thesis by (simp add: snake_to_camel_def camel_from_pieces)
qed

text \<open>The attribute of \<^verbatim>\<open>tarpc::service\<close> is accepted exactly when it is empty, is one \<^verbatim>\<open>derive\<close> of paths only,
  or is one \<^verbatim>\<open>derive_serde\<close> with a literal boolean (\<^verbatim>\<open>true\<close> needs the feature); the derives and the
  deprecation warning are those of that item.\<close>

theorem derive_meta_parse_Ok:
  "derive_meta_parse serde1 items = Ok d \<longleftrightarrow>
     items = [] \<and> d = derive_meta_default \<or>
     (\<exists>ps. items = [\<lparr>mi_path = [''derive''], mi_value = ArrayValue (map PathElem ps)\<rparr>] \<and>
           d = \<lparr>dm_derive = Some (Explicit ps), dm_warnings = []\<rparr>) \<or>
     items = [\<lparr>mi_path = [''derive_serde''], mi_value = BoolValue True\<rparr>] \<and> serde1 \<and>
       d = \<lparr>dm_derive = Some (Serde True), dm_warnings = [deprecation_hack]\<rparr> \<or>
     items = [\<lparr>mi_path = [''derive_serde''], mi_value = BoolValue False\<rparr>] \<and>
       d = \<lparr>dm_derive = Some (Serde False), dm_warnings = [deprecation_hack]\<rparr>"
proof (cases items)
  case Nil
  then show ?thesis by (auto simp: derive_meta_parse_none)
next
  case (Cons m rest)
  show ?thesis
  proof (cases rest)
    case Nil
    show ?thesis
      unfolding Cons Nil derive_meta_parse_one Let_def
      by (auto simp: result_map_Ok derive_step_one)
  next
    case (Cons m2 rest2)
    with \<open>items = m # rest\<close> have "is_Err (derive_meta_parse serde1 items)" by (simp add: derive_meta_parse_many)
    with Cons \<open>items = m # rest\<close> show ?thesis by auto
  qed
qed

text \<open>C35: The trait is refused for the argument errors of its first method that has any, all of them in
  order; else for all methods whose name clashes with a generated function, in order; else its
  methods are those written, with their arguments.\<close>

theorem service_parse_exact:
  "service_parse attrs vis ident fns =
     (case filter (\<lambda>es. es \<noteq> []) (map (\<lambda>f. arg_errors 0 (fi_args f)) fns) of
        es # _ \<Rightarrow> Err es
      | [] \<Rightarrow>
          (let rpcs = map plain_rpc fns; es = name_errors ident rpcs
           in if es = [] then Ok \<lparr>sv_attrs = attrs, sv_vis = vis, sv_ident = ident, sv_rpcs = rpcs\<rparr> else Err es))"
  by (simp add: service_parse_def parse_rpcs_exact check_idents_Ok Let_def split: list.splits)

text \<open>C25: A generated client method, over any stub that either fails or answers as the generated server
  does, returns the error of the stub or the result of the method of the service, called once with the
  arguments: it never meets the variant of another method.  The request carries the name of the
  service and the method.  This needs the names of the methods to differ after \<^verbatim>\<open>snake_to_camel\<close>, as the
  Rust compiler demands of the variants of an enum.\<close>

theorem client_method_serves:
  assumes "service_macro serde1 unit_type upper lower valid_ident items attrs vis ident fns = Return (Ok g)"
    and "distinct (sg_camel_case_idents g)"
    and "i < length (sg_method_idents g)" and "list_all cfg (sg_method_cfgs g ! i)"
    and "stub ctx (sg_camel_case_idents g ! i, args) w = (resp, w')"
    and "case resp of Err e \<Rightarrow> True
         | Ok r \<Rightarrow> generated_serve cfg g svc ctx (sg_camel_case_idents g ! i, args) w = Some (Ok r, w')"
  shows "client_method g i stub ctx args w =
           (case resp of
              Err e \<Rightarrow> Return (Err e, w')
            | Ok _ \<Rightarrow> Return (Ok (fst (svc (sg_method_idents g ! i) ctx args w)), snd (svc (sg_method_idents g ! i) ctx args w))) \<and>
         request_name cfg g (sg_camel_case_idents g ! i) = Some (ident @ ''.'' @ sg_method_idents g ! i)"
proof -
  note lens = service_macro_lengths[OF assms(1)]
  have arm: "map_of (kept cfg (sg_method_cfgs g) (zip (sg_camel_case_idents g) (sg_method_idents g))) (sg_camel_case_idents g ! i) =
      Some (sg_method_idents g ! i)"
    using kept_lookup[of "sg_method_cfgs g" "sg_camel_case_idents g" "sg_method_idents g" i cfg] lens assms by simp
  have "request_name cfg g (sg_camel_case_idents g ! i) = Some (ident @ ''.'' @ sg_method_idents g ! i)"
    using kept_lookup[of "sg_method_cfgs g" "sg_camel_case_idents g" "sg_request_names g" i cfg] lens assms
    by (simp add: request_name_def)
  moreover have "client_method g i stub ctx args w =
      (case resp of
         Err e \<Rightarrow> Return (Err e, w')
       | Ok _ \<Rightarrow> Return (Ok (fst (svc (sg_method_idents g ! i) ctx args w)), snd (svc (sg_method_idents g ! i) ctx args w)))"
  proof (cases resp)
    case (Ok r)
    with assms(5,6) arm show ?thesis
      by (cases "svc (sg_method_idents g ! i) ctx args w") (auto simp: client_method_def generated_serve_def)
  qed (use assms(5) in \<open>simp add: client_method_def\<close>)
  ultimately show ?thesis by simp
qed

text \<open>A service with two methods, \<^verbatim>\<open>add\<close> and \<^verbatim>\<open>neg\<close>; the stub is the service itself.\<close>

definition calculator :: "nat service_generator" where
  "calculator =
     (case service_macro True 0 (\<lambda>c. if c = CHR ''a'' then ''A'' else [c]) (\<lambda>c. [c]) (\<lambda>s. s \<noteq> []) [] [] ''pub'' ''Calc''
        [\<lparr>fi_attrs = [], fi_ident = ''add'', fi_args = [TypedIdent ''a'' 1, TypedIdent ''b'' 1], fi_output = Some 1\<rparr>,
         \<lparr>fi_attrs = [], fi_ident = ''neg'', fi_args = [TypedIdent ''a'' 1], fi_output = None\<rparr>] of
        Return (Ok g) \<Rightarrow> g)"

definition calculate :: "string \<Rightarrow> rpc_context \<Rightarrow> nat list \<Rightarrow> unit \<Rightarrow> nat \<times> unit" where
  "calculate method ctx args w = (if method = ''add'' then sum_list args else 0, w)"

lemma calculator_macro:
  "service_macro True 0 (\<lambda>c. if c = CHR ''a'' then ''A'' else [c]) (\<lambda>c. [c]) (\<lambda>s. s \<noteq> []) [] [] ''pub'' ''Calc''
     [\<lparr>fi_attrs = [], fi_ident = ''add'', fi_args = [TypedIdent ''a'' 1, TypedIdent ''b'' 1], fi_output = Some 1\<rparr>,
      \<lparr>fi_attrs = [], fi_ident = ''neg'', fi_args = [TypedIdent ''a'' 1], fi_output = None\<rparr>] = Return (Ok calculator)"
  "sg_camel_case_idents calculator = [''Add'', ''neg'']" "sg_method_idents calculator = [''add'', ''neg'']"
  "sg_method_cfgs calculator = [[], []]" "sg_args calculator = [[(''a'', 1), (''b'', 1)], [(''a'', 1)]]"
  "sg_return_types calculator = [1, 0]"
  "trait_service calculator = [([], ''add'', [(''a'', 1), (''b'', 1)], 1), ([], ''neg'', [(''a'', 1)], 0)]"
  by (simp_all add: calculator_def trait_service_def service_macro_def service_parse_def rpc_method_parse_def derive_meta_parse_none
    snake_to_camel_def unraw_def collect_cfg_attrs_def)

theorem client_method_serves_witness:
  "\<forall>ctx. client_method calculator 0 (\<lambda>ctx req w. (Ok (fst req, sum_list (snd req)) :: (string \<times> nat, unit rpc_error) result, w))
     ctx [2, 3] () = Return (Ok 5, ())"
proof
  fix ctx
  show "client_method calculator 0 (\<lambda>ctx req w. (Ok (fst req, sum_list (snd req)) :: (string \<times> nat, unit rpc_error) result, w))
      ctx [2, 3] () = Return (Ok 5, ())"
    using client_method_serves[OF calculator_macro(1), of 0 "\<lambda>_. True"
      "\<lambda>ctx req w. (Ok (fst req, sum_list (snd req)) :: (string \<times> nat, unit rpc_error) result, w)"
      ctx "[2, 3]" "()" "Ok (''Add'', 5)" "()" calculate] calculator_macro
    by (simp add: generated_serve_def kept_def calculate_def)
qed

text \<open>C26: The generated code is well typed: for a well-typed request, the generated \<^verbatim>\<open>serve\<close> calls a method of the service with
  arguments of the types in the trait, and answers with the variant of the same name, which holds a value of
  the type that the response enum declares.  No well-typed request is without an arm.\<close>

theorem generated_serve_typed:
  assumes macro: "service_macro serde1 unit_type upper lower valid_ident items attrs vis ident fns = Return (Ok g)"
    and distinct: "distinct (sg_camel_case_idents g)"
    and svc: "service_typed cfg g ty_of svc" and req: "request_typed cfg g ty_of req"
  shows "\<exists>v w'. generated_serve cfg g svc ctx req w = Some (Ok (fst req, v), w') \<and> response_typed g ty_of (fst req, v)"
proof -
  note lens = service_macro_lengths[OF macro]
  obtain params where p: "map_of (enum_request cfg g) (fst req) = Some params" "map ty_of (snd req) = map snd params"
    using req by (auto simp: request_typed_def split: option.splits)
  then obtain i where i: "i < length (sg_camel_case_idents g)" "sg_camel_case_idents g ! i = fst req" "sg_args g ! i = params"
    "list_all cfg (sg_method_cfgs g ! i)"
    using kept_inverse[of cfg "sg_method_cfgs g" "sg_camel_case_idents g" "sg_args g"] by (auto simp: enum_request_def)
  have "map_of (kept cfg (sg_method_cfgs g) (zip (sg_camel_case_idents g) (sg_method_idents g))) (fst req) = Some (sg_method_idents g ! i)"
    using kept_lookup[of "sg_method_cfgs g" "sg_camel_case_idents g" "sg_method_idents g" i cfg] lens distinct i by simp
  moreover obtain v w' where v: "svc (sg_method_idents g ! i) ctx (snd req) w = (v, w')" by fastforce
  note trait = service_macro_trait[OF macro i(1)]
  have "ty_of (fst (svc (sg_method_idents g ! i) ctx (snd req) w)) = sg_return_types g ! i"
  proof -
    obtain as where t: "trait_service g ! i = (as, sg_method_idents g ! i, params, sg_return_types g ! i)" using trait(1) i(3) by blast
    have "case trait_service g ! i of (attrs, method, params, output) \<Rightarrow>
        \<forall>ctx args w. map ty_of args = map snd params \<longrightarrow> ty_of (fst (svc method ctx args w)) = output"
      using svc i(1,4) trait(2) unfolding service_typed_def by simp
    with p(2) show ?thesis unfolding t by simp
  qed
  then have "response_typed g ty_of (fst req, v)"
    using map_of_zip_nth[of "sg_camel_case_idents g" "sg_return_types g" i] trait(3) distinct i v
    by (simp add: response_typed_def enum_response_def)
  ultimately show ?thesis using v by (simp add: generated_serve_def)
qed

text \<open>Every value of the calculator is of type 1, but the result of \<^verbatim>\<open>neg\<close>, which has type 0.\<close>

theorem generated_serve_typed_witness:
  "\<forall>ctx. \<exists>v w'. generated_serve (\<lambda>_. True) calculator (\<lambda>m ctx args w. ((if m = ''add'' then 1 else 0 :: nat), w)) ctx (''neg'', [1]) () =
      Some (Ok (''neg'', v), w') \<and> response_typed calculator (\<lambda>v. v) (''neg'', v)"
proof
  fix ctx
  have "service_typed (\<lambda>_. True) calculator (\<lambda>v. v) (\<lambda>m ctx args (w :: unit). ((if m = ''add'' then 1 else 0 :: nat), w))"
    by (auto simp: service_typed_def calculator_macro less_Suc_eq)
  moreover have "request_typed (\<lambda>_. True) calculator (\<lambda>v. v) (''neg'', [1])" "distinct (sg_camel_case_idents calculator)"
    by (simp_all add: request_typed_def enum_request_def kept_def calculator_macro)
  ultimately show "\<exists>v w'. generated_serve (\<lambda>_. True) calculator (\<lambda>m ctx args w. ((if m = ''add'' then 1 else 0 :: nat), w)) ctx (''neg'', [1]) () =
      Some (Ok (''neg'', v), w') \<and> response_typed calculator (\<lambda>v. v) (''neg'', v)"
    using generated_serve_typed[OF calculator_macro(1), of "\<lambda>_. True" "\<lambda>v. v" _ "(''neg'', [1])" ctx "()"] by simp
qed

end
