(* ===== verification/Client_Answers.thy ===== *)
theory Client_Answers
  imports Client_Wire
begin

text \<open>
  Where the responses that the dispatch task hands to its callers come from: a result of the server
  is given to a caller only when a response to the request of that very caller was read, and the
  request was written before.  The request ids on the wire are distinct.
\<close>

section \<open>Responses and their requests\<close>

abbreviation written :: "('req, 'resp, 'e) event list \<Rightarrow> 'req dispatch_request \<Rightarrow> bool" where
  "written log r \<equiv> Received (Ready (Some r)) \<in> set log \<and> Wrote (request_message r) (Ok ()) \<in> set log"

definition answered :: "('req, 'resp, 'e) event list \<Rightarrow> oneshot \<Rightarrow> ('resp, server_error) result \<Rightarrow> bool" where
  "answered log os m \<longleftrightarrow>
     (\<exists>r. written log r \<and> dr_response_completion r = os \<and>
        Polled (Ready (Some (Ok \<lparr>request_id = dr_request_id r, response_message = m\<rparr>))) \<in> set log)"

definition answer_inv :: "('w \<times> ('req, 'resp, 'e) event list, 'q, 'e) dispatch \<Rightarrow> bool" where
  "answer_inv d \<longleftrightarrow>
     (\<forall>i rd. map_of (request_data (d_in_flight d)) i = Some rd \<longrightarrow>
        (\<exists>r. written (snd (d_world d)) r \<and> dr_request_id r = i \<and> dr_response_completion r = rd_response_completion rd)) \<and>
     (\<forall>os m. Completed os (map_err Server m) \<in> set (snd (d_world d)) \<longrightarrow> answered (snd (d_world d)) os m)"

lemma answered_append: "answered log os m \<Longrightarrow> answered (log @ evs) os m"
  by (auto simp: answered_def)

lemma map_err_Server_eq [simp]:
  "map_err Server m = Err (Server e) \<longleftrightarrow> m = Err e" "map_err Server m = Ok x \<longleftrightarrow> m = Ok x"
  "Err (Channel c) \<noteq> map_err Server m" "Err (Send c') \<noteq> map_err Server m" "Err DeadlineExceeded \<noteq> map_err Server m"
  by (cases m; auto)+

lemma map_err_Server_inject: "map_err Server a = map_err Server b \<Longrightarrow> a = b"
  by (cases a; cases b) auto

text \<open>The invariant after a step that adds \<open>evs\<close> to the log.\<close>

lemma answer_invI:
  assumes inv: "answer_inv d" and log: "snd wl = snd (d_world d) @ evs"
    and entries: "\<And>i rd. map_of (request_data f) i = Some rd \<Longrightarrow>
      map_of (request_data (d_in_flight d)) i = Some rd \<or>
      (\<exists>r. written (snd wl) r \<and> dr_request_id r = i \<and> dr_response_completion r = rd_response_completion rd)"
    and completions: "\<And>os m. Completed os (map_err Server m) \<in> set evs \<Longrightarrow> answered (snd wl) os m"
  shows "answer_inv (d\<lparr>d_in_flight := f, d_world := wl\<rparr>)"
  unfolding answer_inv_def
proof (intro conjI allI impI)
  fix i rd assume "map_of (request_data (d_in_flight (d\<lparr>d_in_flight := f, d_world := wl\<rparr>))) i = Some rd"
  with entries[of i rd] inv log
  show "\<exists>r. written (snd (d_world (d\<lparr>d_in_flight := f, d_world := wl\<rparr>))) r \<and> dr_request_id r = i \<and>
      dr_response_completion r = rd_response_completion rd"
    by (fastforce simp: answer_inv_def)
next
  fix os m assume "Completed os (map_err Server m) \<in> set (snd (d_world (d\<lparr>d_in_flight := f, d_world := wl\<rparr>)))"
  with completions[of os m] inv log answered_append[of "snd (d_world d)" os m evs]
  show "answered (snd (d_world (d\<lparr>d_in_flight := f, d_world := wl\<rparr>))) os m"
    by (auto simp: answer_inv_def)
qed

lemma answer_inv_shrink:
  assumes "answer_inv d" "snd wl = snd (d_world d) @ evs"
    and "map_of (request_data f) \<subseteq>\<^sub>m map_of (request_data (d_in_flight d))"
    and "\<And>os m. Completed os (map_err Server m) \<notin> set evs"
  shows "answer_inv (d\<lparr>d_in_flight := f, d_world := wl\<rparr>)"
  by (rule answer_invI[OF assms(1,2)]) (use assms(3,4) in \<open>auto simp: map_le_def dom_def\<close>)

lemma answer_inv_step:
  assumes inv: "dispatch_inv (recording env) ent hz W (\<lambda>wl. up (fst wl)) d"
    and step: "dispatch_step (recording env) d d'" and ans: "answer_inv d"
  shows "answer_inv d'"
proof -
  note c_inv = dispatch_invD(2)[OF inv] and ans' = answer_invI[OF ans] and shrink = answer_inv_shrink[OF ans]
  from step show ?thesis
  proof cases
    case (ds_idle wl)
    from recording_env_idle(2)[OF ds_idle(2)] obtain evs where "snd wl = snd (d_world d) @ evs" "\<forall>ev \<in> set evs. quiet ev"
      by (metis append_Nil2 empty_iff empty_set list.set_cases set_ConsD)
    with shrink[of wl evs "d_in_flight d"] ds_idle(1) show ?thesis by fastforce
  next
    case (ds_aborted r wl)
    with shrink[of wl "[Received (Ready (Some r))]" "d_in_flight d"] show ?thesis by auto
  next
    case (ds_refused r wl e)
    with shrink[of "d_world d'" "[Received (Ready (Some r)), Completed (dr_response_completion r) (Err (Channel e))]" "d_in_flight d"]
    show ?thesis by auto
  next
    case (ds_write r wl f wl')
    note entry = insert_request_entry[OF inv ds_write(3,5)]
    have log: "snd wl' = snd (d_world d) @ [Received (Ready (Some r)), Wrote (request_message r) (Ok ())]"
      using ds_write by simp
    show ?thesis unfolding ds_write(1)
    proof (rule ans'[OF log])
      fix i rd assume "map_of (request_data f) i = Some rd"
      with entry log show "map_of (request_data (d_in_flight d)) i = Some rd \<or>
          (\<exists>r. written (snd wl') r \<and> dr_request_id r = i \<and> dr_response_completion r = rd_response_completion rd)"
        by (cases "i = dr_request_id r") auto
    qed simp
  next
    case (ds_write_failed r wl f e wl' sp f' wl'')
    note failed = insert_then_complete[OF inv ds_write_failed(2,3,5,7)]
    have log: "snd wl'' = snd (d_world d) @ [Received (Ready (Some r)), Wrote (request_message r) (Err e),
        Completed (dr_response_completion r) (Err (Send e))]"
      using failed(2) ds_write_failed(3,6) by simp
    show ?thesis unfolding ds_write_failed(1)
      by (rule shrink[OF log failed(1)]) auto
  next
    case (ds_cancel i wl ctx sp f res wl')
    then have "request_data f = AList.delete i (request_data (d_in_flight d))"
      using cancel_request_result[OF c_inv, of i] by auto
    with shrink[of wl' "[Canceled (Ready (Some i)), Wrote (Cancel (trace_context ctx) i) res]" f] ds_cancel
    show ?thesis by (auto simp: map_le_delete[unfolded delete_conv'])
  next
    case (ds_cancel_missed i wl f)
    then have "request_data f = AList.delete i (request_data (d_in_flight d))"
      using cancel_request_result[OF c_inv, of i] by auto
    with shrink[of wl "[Canceled (Ready (Some i))]" f] ds_cancel_missed show ?thesis
      by (auto simp: map_le_delete[unfolded delete_conv'])
  next
    case (ds_response resp wl sp f wl')
    note rec = recording_complete_request[OF c_inv ds_response(3)]
    from ds_response(2) rec have log: "snd wl' = snd (d_world d) @ Polled (Ready (Some (Ok resp))) #
        completion_events (map_of (request_data (d_in_flight d)) (request_id resp)) (map_err Server (response_message resp))"
      by simp
    show ?thesis
      unfolding ds_response(1)
    proof (rule ans'[OF log])
      fix os m assume "Completed os (map_err Server m) \<in> set (Polled (Ready (Some (Ok resp))) #
        completion_events (map_of (request_data (d_in_flight d)) (request_id resp)) (map_err Server (response_message resp)))"
      then obtain rd where rd: "map_of (request_data (d_in_flight d)) (request_id resp) = Some rd"
        "os = rd_response_completion rd" "m = response_message resp"
        by (auto simp: completion_events_set dest: map_err_Server_inject)
      with ans obtain r where "written (snd (d_world d)) r" "dr_request_id r = request_id resp" "dr_response_completion r = os"
        unfolding answer_inv_def by blast
      with rd(3) log show "answered (snd wl') os m" by (auto simp: answered_def)
    qed (use rec in \<open>auto split: if_splits\<close>)
  next
    case (ds_expired p f wl)
    from recording_poll_expired[OF c_inv ds_expired(2)] show ?thesis
    proof (elim disjE exE conjE)
      fix i rd assume "request_data f = AList.delete i (request_data (d_in_flight d))"
        "snd wl = snd (d_world d) @ [Completed (rd_response_completion rd) (Err DeadlineExceeded)]"
      with shrink[of wl _ f] ds_expired(1) show ?thesis by (auto simp: map_le_delete[unfolded delete_conv'])
    next
      assume "request_data f = request_data (d_in_flight d)" "wl = d_world d"
      with ans ds_expired(1) show ?thesis by (simp add: answer_inv_def)
    qed
  next
    case (ds_fail_all e sps f wl)
    note rec = recording_complete_all[OF ds_fail_all(2)]
    show ?thesis unfolding ds_fail_all(1)
      by (rule shrink[OF rec(2)]) (use rec(1) in auto)
  next
    case (ds_terminal e)
    with ans show ?thesis by (simp add: answer_inv_def)
  qed
qed

interpretation answer: dispatch_property
  "recording env" ent hz W "\<lambda>wl. up (fst wl)" "outside_step W up" answer_inv
  for env :: "('w, 'q, 'req, 'resp, 'e) client_env" and ent hz W up
proof (unfold_locales, goal_cases)
  case (1 d d')
  then show ?case by (rule answer_inv_step)
next
  case (2 d wl)
  then show ?case
    using answer_invI[of d wl "[]" "d_in_flight d"] by (auto simp: outside_step_def)
qed

section \<open>Distinct ids\<close>

fun sent_message :: "('req, 'resp, 'e) event \<Rightarrow> 'req client_message list" where
  "sent_message (Wrote m (Ok _)) = [m]"
| "sent_message _ = []"

fun request_of :: "'req client_message \<Rightarrow> 'req request list" where
  "request_of (Request r) = [r]"
| "request_of (Cancel tc i) = []"

definition sent_messages :: "('req, 'resp, 'e) event list \<Rightarrow> 'req client_message list" where
  "sent_messages log = concat (map sent_message log)"

definition requests_of :: "'req client_message list \<Rightarrow> 'req request list" where
  "requests_of ms = concat (map request_of ms)"

lemma sent_messages_simps [simp]:
  "sent_messages [] = []" "sent_messages (log @ log') = sent_messages log @ sent_messages log'"
  "sent_messages (ev # log) = sent_message ev @ sent_messages log"
  by (simp_all add: sent_messages_def)

lemma requests_of_simps [simp]:
  "requests_of [] = []" "requests_of (ms @ ms') = requests_of ms @ requests_of ms'"
  "requests_of (m # ms) = request_of m @ requests_of ms"
  by (simp_all add: requests_of_def)

lemma in_sent_messages: "m \<in> set (sent_messages log) \<longleftrightarrow> Wrote m (Ok ()) \<in> set log"
proof (induction log)
  case (Cons ev log)
  then show ?case by (cases ev rule: sent_message.cases) auto
qed simp

lemma in_requests_of: "r \<in> set (requests_of ms) \<longleftrightarrow> Request r \<in> set ms"
proof (induction ms)
  case (Cons m ms)
  then show ?case by (cases m) auto
qed simp

lemma wire_run_requested:
  "wire_run log = Some st \<Longrightarrow>
   requested st = id ` set (requests_of (sent_messages log)) \<and> distinct (map id (requests_of (sent_messages log)))"
proof (induction log arbitrary: st rule: rev_induct)
  case (snoc ev log)
  from snoc.prems obtain st0 where st0: "wire_run log = Some st0" "wire_step st0 ev = Some st"
    by (cases "wire_run log") auto
  from snoc.IH[OF st0(1)] st0(2) show ?case
    by (cases "(st0, ev)" rule: wire_step.cases) (auto split: if_splits)
qed simp

end
