(* ===== verification/End_To_End.thy ===== *)
theory End_To_End
  imports Client_Answers Server_Theorems Memory_Transport
begin

text \<open>
  A client and a server, connected: the dispatch task of \<^verbatim>\<open>client.rs\<close> and a \<^verbatim>\<open>BaseChannel\<close> of
  \<^verbatim>\<open>server.rs\<close> run on one world, in which two lossless links carry the messages (\<open>connected\<close>).  The task
  is polled and the owner of the channel calls its operations in any order.  Every result of the
  server that a caller gets is the response to the request of that caller.
\<close>

section \<open>The connection\<close>

text \<open>Calls of the environments other than on the two links.\<close>

definition client_aside :: "('w, 'q, 'req, 'resp, 'e) client_env \<Rightarrow> 'w \<Rightarrow> 'w \<Rightarrow> bool" where
  "client_aside env w w' \<longleftrightarrow>
     w' = snd (tr_poll_ready (ce_transport env) w) \<or> w' = snd (tr_poll_flush (ce_transport env) w) \<or>
     w' = snd (tr_poll_close (ce_transport env) w) \<or> w' = snd (ce_pending_poll_recv env w) \<or>
     w' = ce_pending_close env w \<or> w' = snd (ce_canceled_poll_recv env w) \<or> (\<exists>os res. w' = ce_send env w os res)"

definition server_aside :: "('w, 'q, 'req, 'resp, 'e) server_env \<Rightarrow> 'w \<Rightarrow> 'w \<Rightarrow> bool" where
  "server_aside env w w' \<longleftrightarrow>
     w' = snd (tr_poll_ready (se_transport env) w) \<or> w' = snd (tr_poll_flush (se_transport env) w) \<or>
     w' = snd (tr_poll_close (se_transport env) w) \<or> w' = snd (se_canceled_poll_recv env w) \<or>
     w' = snd (ab_new_pair (se_abort env) w) \<or> (\<exists>h. w' = ab_abort (se_abort env) w h) \<or>
     (\<exists>c. w' = snd (se_new_span env w c)) \<or> w' = snd (se_random_span_id env w)"

text \<open>\<open>up\<close> and \<open>down\<close> are the messages on their way to the server and back, \<open>slog\<close> the log of the server.  Each link
  is lossless, each side leaves the other link alone, and the client leaves the server's log alone.\<close>

definition connected ::
  "('w, 'q, 'req, 'resp, 'e) client_env \<Rightarrow> ('w, 'p, 'req, 'resp, 'e) server_env \<Rightarrow> ('w \<Rightarrow> bool) \<Rightarrow>
   ('w \<Rightarrow> 'req client_message list) \<Rightarrow> ('w \<Rightarrow> 'resp response list) \<Rightarrow> ('w \<Rightarrow> ('req, 'resp) server_event list) \<Rightarrow> bool" where
  "connected cenv senv W up down slog \<longleftrightarrow>
     lossless_link (tr_start_send (ce_transport cenv)) (tr_poll_next (se_transport senv)) W up \<and>
     lossless_link (tr_start_send (se_transport senv)) (tr_poll_next (ce_transport cenv)) W down \<and>
     server_logged senv slog \<and>
     (\<forall>w w'. W w \<longrightarrow> env_step cenv w w' \<longrightarrow> slog w' = slog w) \<and>
     (\<forall>w m r w'. W w \<longrightarrow> tr_start_send (ce_transport cenv) w m = (r, w') \<longrightarrow> down w' = down w) \<and>
     (\<forall>w p w'. W w \<longrightarrow> tr_poll_next (ce_transport cenv) w = (p, w') \<longrightarrow> up w' = up w) \<and>
     (\<forall>w w'. W w \<longrightarrow> client_aside cenv w w' \<longrightarrow> up w' = up w \<and> down w' = down w) \<and>
     (\<forall>w m r w'. W w \<longrightarrow> tr_start_send (se_transport senv) w m = (r, w') \<longrightarrow> up w' = up w) \<and>
     (\<forall>w p w'. W w \<longrightarrow> tr_poll_next (se_transport senv) w = (p, w') \<longrightarrow> down w' = down w) \<and>
     (\<forall>w w'. W w \<longrightarrow> server_aside senv w w' \<longrightarrow> up w' = up w \<and> down w' = down w)"

lemma connectedD:
  assumes "connected cenv senv W up down slog"
  shows "W w \<Longrightarrow> tr_start_send (ce_transport cenv) w m = (r, w') \<Longrightarrow>
      up w' = (case r of Ok _ \<Rightarrow> up w @ [m] | Err _ \<Rightarrow> up w) \<and> down w' = down w"
    "W w \<Longrightarrow> tr_poll_next (se_transport senv) w = (p, w') \<Longrightarrow>
      up w = (case p of Ready (Some (Ok m)) \<Rightarrow> [m] | _ \<Rightarrow> []) @ up w' \<and> down w' = down w"
    "W w \<Longrightarrow> tr_start_send (se_transport senv) w resp = (r, w') \<Longrightarrow>
      down w' = (case r of Ok _ \<Rightarrow> down w @ [resp] | Err _ \<Rightarrow> down w) \<and> up w' = up w"
    "W w \<Longrightarrow> tr_poll_next (ce_transport cenv) w = (q, w') \<Longrightarrow>
      down w = (case q of Ready (Some (Ok m)) \<Rightarrow> [m] | _ \<Rightarrow> []) @ down w' \<and> up w' = up w"
    "W w \<Longrightarrow> env_step cenv w w' \<Longrightarrow> slog w' = slog w"
    "W w \<Longrightarrow> client_aside cenv w w' \<Longrightarrow> up w' = up w \<and> down w' = down w"
    "W w \<Longrightarrow> server_aside senv w w' \<Longrightarrow> up w' = up w \<and> down w' = down w"
    "server_logged senv slog"
proof -
  have up: "lossless_link (tr_start_send (ce_transport cenv)) (tr_poll_next (se_transport senv)) W up"
    and down: "lossless_link (tr_start_send (se_transport senv)) (tr_poll_next (ce_transport cenv)) W down"
    and cs: "\<And>w m r w'. W w \<Longrightarrow> tr_start_send (ce_transport cenv) w m = (r, w') \<Longrightarrow> down w' = down w"
    and cn: "\<And>w p w'. W w \<Longrightarrow> tr_poll_next (ce_transport cenv) w = (p, w') \<Longrightarrow> up w' = up w"
    and ss: "\<And>w m r w'. W w \<Longrightarrow> tr_start_send (se_transport senv) w m = (r, w') \<Longrightarrow> up w' = up w"
    and sn: "\<And>w p w'. W w \<Longrightarrow> tr_poll_next (se_transport senv) w = (p, w') \<Longrightarrow> down w' = down w"
    using assms unfolding connected_def by blast+
  show "W w \<Longrightarrow> tr_start_send (ce_transport cenv) w m = (r, w') \<Longrightarrow>
      up w' = (case r of Ok _ \<Rightarrow> up w @ [m] | Err _ \<Rightarrow> up w) \<and> down w' = down w"
    using lossless_link.send_law[OF up, of w m r w'] cs[of w m r w'] by simp
  show "W w \<Longrightarrow> tr_poll_next (se_transport senv) w = (p, w') \<Longrightarrow>
      up w = (case p of Ready (Some (Ok m)) \<Rightarrow> [m] | _ \<Rightarrow> []) @ up w' \<and> down w' = down w"
    using lossless_link.recv_law[OF up, of w p w'] sn[of w p w'] by simp
  show "W w \<Longrightarrow> tr_start_send (se_transport senv) w resp = (r, w') \<Longrightarrow>
      down w' = (case r of Ok _ \<Rightarrow> down w @ [resp] | Err _ \<Rightarrow> down w) \<and> up w' = up w"
    using lossless_link.send_law[OF down, of w resp r w'] ss[of w resp r w'] by simp
  show "W w \<Longrightarrow> tr_poll_next (ce_transport cenv) w = (q, w') \<Longrightarrow>
      down w = (case q of Ready (Some (Ok m)) \<Rightarrow> [m] | _ \<Rightarrow> []) @ down w' \<and> up w' = up w"
    using lossless_link.recv_law[OF down, of w q w'] cn[of w q w'] by simp
qed (use assms in \<open>unfold connected_def, blast+\<close>)

section \<open>What the two logs have in common\<close>

fun srv_read :: "('req, 'resp) server_event \<Rightarrow> 'req client_message list" where
  "srv_read (SrvRead m) = [m]"
| "srv_read _ = []"

fun srv_written :: "('req, 'resp) server_event \<Rightarrow> 'resp response list" where
  "srv_written (SrvWrote r) = [r]"
| "srv_written _ = []"

definition reads :: "('req, 'resp) server_event list \<Rightarrow> 'req client_message list" where
  "reads evs = concat (map srv_read evs)"

definition writes :: "('req, 'resp) server_event list \<Rightarrow> 'resp response list" where
  "writes evs = concat (map srv_written evs)"

lemma reads_simps [simp]:
  "reads [] = []" "reads (evs @ evs') = reads evs @ reads evs'" "reads (ev # evs) = srv_read ev @ reads evs"
  by (simp_all add: reads_def)

lemma writes_simps [simp]:
  "writes [] = []" "writes (evs @ evs') = writes evs @ writes evs'" "writes (ev # evs) = srv_written ev @ writes evs"
  by (simp_all add: writes_def)

lemma in_reads: "m \<in> set (reads evs) \<longleftrightarrow> SrvRead m \<in> set evs"
proof (induction evs)
  case (Cons ev evs)
  then show ?case by (cases ev) auto
qed simp

lemma in_writes: "r \<in> set (writes evs) \<longleftrightarrow> SrvWrote r \<in> set evs"
proof (induction evs)
  case (Cons ev evs)
  then show ?case by (cases ev) auto
qed simp

lemma reads_of_poll [simp]:
  "reads (read_events p) = (case p of Ready (Some (Ok m)) \<Rightarrow> [m] | _ \<Rightarrow> [])" "reads (guard_events c) = []"
  "writes (read_events p) = []" "writes (guard_events c) = []"
  by (cases p rule: poll_option_result_cases; cases c rule: poll_option_cases; simp add: read_events_def guard_events_def)+

definition polled :: "('req, 'resp, 'e) event list \<Rightarrow> 'resp response set" where
  "polled clog = {resp. Polled (Ready (Some (Ok resp))) \<in> set clog}"

text \<open>What the client sent is what the server has read and what is on its way; what the client has polled
  and what is on its way back was written by the server.\<close>

definition in_step ::
  "('w \<Rightarrow> 'req client_message list) \<Rightarrow> ('w \<Rightarrow> 'resp response list) \<Rightarrow> ('w \<Rightarrow> ('req, 'resp) server_event list) \<Rightarrow>
   ('req, 'resp, 'e) event list \<Rightarrow> 'w \<Rightarrow> bool" where
  "in_step up down slog clog w \<longleftrightarrow>
     sent_messages clog = reads (slog w) @ up w \<and> polled clog \<union> set (down w) \<subseteq> set (writes (slog w))"

lemma polled_append [simp]:
  "polled [] = {}" "polled (log @ [Polled (Ready (Some (Ok resp)))]) = insert resp (polled log)"
  "(\<And>resp. ev \<noteq> Polled (Ready (Some (Ok resp)))) \<Longrightarrow> polled (log @ [ev]) = polled log"
  by (auto simp: polled_def)

lemma sent_quiet [simp]:
  "sent_message (Polled p) = []" "sent_message (Closed c) = []" "sent_message (Received q) = []" "sent_message (Canceled k) = []" "sent_message (Completed os r) = []"
  by simp_all

text \<open>Both sides keep in step.  As part of the invariant of the world that each side is proved to keep, this
  needs no second look at the tasks.\<close>

lemma client_in_step:
  assumes c: "connected cenv senv W up down slog" and W: "W (fst wl)"
    and s: "in_step up down slog (snd wl) (fst wl)" and step: "env_step (recording cenv) wl wl'"
  shows "in_step up down slog (snd wl') (fst wl')"
proof -
  note slog = connectedD(5)[OF c W recording_env_step[OF step]]
  note aside = connectedD(6)[OF c W, of "fst wl'"]
  have keeps: "in_step up down slog (snd wl') (fst wl')"
    if "client_aside cenv (fst wl) (fst wl')" "sent_messages (snd wl') = sent_messages (snd wl)" "polled (snd wl') = polled (snd wl)"
    using that aside slog s by (simp add: in_step_def)
  from step show ?thesis
  proof cases
    case (es_next p)
    then have "tr_poll_next (ce_transport cenv) (fst wl) = (p, fst wl')" and log: "snd wl' = snd wl @ [Polled p]" by simp_all
    with connectedD(4)[OF c W this(1)] s slog show ?thesis
      by (cases p rule: poll_option_result_cases) (auto simp: in_step_def)
  next
    case (es_start_send m z)
    then have "tr_start_send (ce_transport cenv) (fst wl) m = (z, fst wl')" and log: "snd wl' = snd wl @ [Wrote m z]" by simp_all
    with connectedD(1)[OF c W this(1)] s slog show ?thesis
      by (cases z) (auto simp: in_step_def)
  next
    case (es_send os res)
    then have "fst wl' = ce_send cenv (fst wl) os res" by auto
    then have "client_aside cenv (fst wl) (fst wl')" unfolding client_aside_def by blast
    with keeps es_send show ?thesis by auto
  qed (rule keeps; auto simp: client_aside_def)+
qed

lemma server_in_step:
  assumes c: "connected cenv senv W up down slog" and W: "W w"
    and s: "in_step up down slog clog w" and step: "server_step senv w w'"
  shows "in_step up down slog clog w'"
proof -
  note lg = connectedD(8)[OF c] and aside = connectedD(7)[OF c W, of w']
  have keeps: "in_step up down slog clog w'"
    if "server_aside senv w w'" "reads (slog w') = reads (slog w)" "writes (slog w') = writes (slog w)"
    using that aside s by (simp add: in_step_def)
  from step show ?thesis
  proof cases
    case (ss_next p)
    with connectedD(2)[OF c W ss_next] server_loggedD(1)[OF lg ss_next] s show ?thesis
      by (cases p rule: poll_option_result_cases) (auto simp: in_step_def)
  next
    case (ss_start_send m z)
    with connectedD(3)[OF c W ss_start_send] server_loggedD(2)[OF lg ss_start_send] s show ?thesis
      by (cases z) (auto simp: in_step_def)
  next
    case (ss_abort h)
    then have "server_aside senv w w'" unfolding server_aside_def by blast
    with keeps server_loggedD(8)[OF lg, of w h] ss_abort show ?thesis by simp
  next
    case (ss_new_span k sp)
    then have "w' = snd (se_new_span senv w k)" by simp
    then have "server_aside senv w w'" unfolding server_aside_def by blast
    with keeps server_logged_span[OF lg ss_new_span] show ?thesis by simp
  next
    case (ss_ready y)
    with keeps server_loggedD(4)[OF lg this] show ?thesis by (simp add: server_aside_def)
  next
    case (ss_flush y)
    with keeps server_loggedD(5)[OF lg this] show ?thesis by (simp add: server_aside_def)
  next
    case (ss_close y)
    with keeps server_loggedD(6)[OF lg this] show ?thesis by (simp add: server_aside_def)
  next
    case (ss_canceled k)
    with keeps server_loggedD(3)[OF lg this] show ?thesis by (simp add: server_aside_def)
  next
    case (ss_new_pair h)
    with keeps server_loggedD(7)[OF lg this] show ?thesis by (simp add: server_aside_def)
  next
    case (ss_random r)
    with keeps server_loggedD(9)[OF lg this] show ?thesis by (simp add: server_aside_def)
  qed
qed

text \<open>The two sides keep what each relies on, with the logs in step.\<close>

definition client_world ::
  "('w \<Rightarrow> bool) \<Rightarrow> ('w \<Rightarrow> 'req client_message list) \<Rightarrow> ('w \<Rightarrow> 'resp response list) \<Rightarrow> ('w \<Rightarrow> ('req, 'resp) server_event list) \<Rightarrow>
   ('req, 'resp) server_event list \<Rightarrow> 'w \<times> ('req, 'resp, 'e) event list \<Rightarrow> bool" where
  "client_world W up down slog evs wl \<longleftrightarrow> W (fst wl) \<and> in_step up down slog (snd wl) (fst wl) \<and> slog (fst wl) = evs"

definition server_world ::
  "('w \<Rightarrow> bool) \<Rightarrow> ('w \<Rightarrow> 'req client_message list) \<Rightarrow> ('w \<Rightarrow> 'resp response list) \<Rightarrow> ('w \<Rightarrow> ('req, 'resp) server_event list) \<Rightarrow>
   ('w \<Rightarrow> u64 set) \<Rightarrow> ('req, 'resp, 'e) event list \<Rightarrow> u64 set \<Rightarrow> 'w \<Rightarrow> bool" where
  "server_world W up down slog upcoming clog U w \<longleftrightarrow> W w \<and> in_step up down slog clog w \<and> upcoming w \<subseteq> U"

definition leaves_ids :: "('w, 'p, 'req, 'resp, 'e) server_env \<Rightarrow> ('w \<Rightarrow> bool) \<Rightarrow> ('w \<Rightarrow> u64 set) \<Rightarrow> bool" where
  "leaves_ids senv W upcoming \<longleftrightarrow> (\<forall>w w'. W w \<longrightarrow> server_step senv w w' \<longrightarrow> upcoming w' \<subseteq> upcoming w)"

lemma client_world_laws:
  assumes c: "connected cenv senv W up down slog" and laws: "client_env_laws cenv W upcoming hz"
  shows "client_env_laws (recording cenv) (client_world W up down slog evs) (\<lambda>wl. upcoming (fst wl)) hz"
  unfolding client_env_laws_def
proof (intro conjI allI impI)
  fix wl wl' assume W: "client_world W up down slog evs wl" and step: "env_step (recording cenv) wl wl'"
  then have "W (fst wl)" "in_step up down slog (snd wl) (fst wl)" by (simp_all add: client_world_def)
  with client_in_step[OF c this step] connectedD(5)[OF c this(1) recording_env_step[OF step]] W
    client_env_laws_step[OF laws this(1) recording_env_step[OF step]]
  show "client_world W up down slog evs wl'" "upcoming (fst wl') \<subseteq> upcoming (fst wl)" by (simp_all add: client_world_def)
next
  fix wl r wl' assume W: "client_world W up down slog evs wl"
    and r: "ce_pending_poll_recv (recording cenv) wl = (Ready (Some r), wl')"
  with client_env_laws_recv[OF laws, of "fst wl" r "fst wl'"]
  show "dr_request_id r \<in> upcoming (fst wl)" "dr_request_id r \<notin> upcoming (fst wl')" "deadline (dr_ctx r) \<le> hz"
    by (simp_all add: client_world_def)
qed (use client_env_laws_now[OF laws] in \<open>simp add: client_world_def\<close>)

lemma server_world_laws:
  assumes c: "connected cenv senv W up down slog" and laws: "server_env_laws senv W hz" and ids: "leaves_ids senv W upcoming"
  shows "server_env_laws senv (server_world W up down slog upcoming clog U) hz"
  unfolding server_env_laws_def
proof (intro conjI allI impI)
  fix w w' assume W: "server_world W up down slog upcoming clog U w" and step: "server_step senv w w'"
  then have W': "W w" "in_step up down slog clog w" "upcoming w \<subseteq> U" by (simp_all add: server_world_def)
  have "upcoming w' \<subseteq> upcoming w" using ids W'(1) step unfolding leaves_ids_def by blast
  with server_in_step[OF c W'(1,2) step] server_env_lawsD(1)[OF laws W'(1) step] W'(3)
  show "server_world W up down slog upcoming clog U w'" by (simp add: server_world_def)
next
  fix w r w' assume "server_world W up down slog upcoming clog U w"
    and "tr_poll_next (se_transport senv) w = (Ready (Some (Ok (Request r))), w')"
  with server_env_lawsD(3)[OF laws, of w r w'] show "request_deadline r \<le> hz" by (simp add: server_world_def)
qed (use server_env_lawsD(2)[OF laws] in \<open>simp add: server_world_def\<close>)

section \<open>The two together\<close>

text \<open>An executor polls the client's task, and the owner of the channel calls its operations, in any order; other
  tasks run in between (\<^term>\<open>Outside\<close>).  The world is that of the client's task.\<close>

datatype ('w, 'resp) system_act = ClientPoll nat | ServerCall "('w, 'resp) channel_call"

abbreviation with_world :: "('w, 'p) base_channel \<Rightarrow> 'w \<Rightarrow> ('w, 'p) base_channel" where
  "with_world b w \<equiv> b\<lparr>b_world := w\<rparr>"

type_synonym ('w, 'q, 'p, 'req, 'resp, 'e) system =
  "('w \<times> ('req, 'resp, 'e) event list, 'q, 'e) dispatch \<times> ('w, 'p) base_channel"

fun system_run ::
  "('w, 'q, 'req, 'resp, 'e) client_env \<Rightarrow> ('w, 'p, 'req, 'resp, 'e) server_env \<Rightarrow> ('w, 'resp) system_act list \<Rightarrow>
   ('w, 'q, 'p, 'req, 'resp, 'e) system \<Rightarrow> ('w, 'q, 'p, 'req, 'resp, 'e) system outcome" where
  "system_run cenv senv [] (d, b) = Return (d, b)"
| "system_run cenv senv (ClientPoll n # acts) (d, b) =
     obind (dispatch_poll n (recording cenv) d) (\<lambda>(_, d).
       system_run cenv senv acts (d, with_world b (fst (d_world d))))"
| "system_run cenv senv (ServerCall c # acts) (d, b) =
     obind (run_call senv c (with_world b (fst (d_world d)))) (\<lambda>b.
       system_run cenv senv acts (d\<lparr>d_world := (b_world b, snd (d_world d))\<rparr>, b))"

definition outside_apart ::
  "('w \<Rightarrow> bool) \<Rightarrow> ('w \<Rightarrow> 'req client_message list) \<Rightarrow> ('w \<Rightarrow> 'resp response list) \<Rightarrow> ('w \<Rightarrow> ('req, 'resp) server_event list) \<Rightarrow>
   ('w \<Rightarrow> u64 set) \<Rightarrow> ('w, 'resp) system_act list \<Rightarrow> bool" where
  "outside_apart W up down slog upcoming acts \<longleftrightarrow> (\<forall>g. ServerCall (Outside g) \<in> set acts \<longrightarrow>
     (\<forall>w. W w \<longrightarrow> W (g w) \<and> up (g w) = up w \<and> down (g w) = down w \<and> slog (g w) = slog w \<and> upcoming (g w) \<subseteq> upcoming w))"

definition system_inv ::
  "('w, 'q, 'req, 'resp, 'e) client_env \<Rightarrow> ('w, 'p, 'req, 'resp, 'e) server_env \<Rightarrow> ('q \<Rightarrow> entries) \<Rightarrow> ('p \<Rightarrow> entries) \<Rightarrow>
   instant \<Rightarrow> instant \<Rightarrow> ('w \<Rightarrow> bool) \<Rightarrow> ('w \<Rightarrow> 'req client_message list) \<Rightarrow> ('w \<Rightarrow> 'resp response list) \<Rightarrow>
   ('w \<Rightarrow> ('req, 'resp) server_event list) \<Rightarrow> ('w \<Rightarrow> u64 set) \<Rightarrow> ('w, 'q, 'p, 'req, 'resp, 'e) system \<Rightarrow> bool" where
  "system_inv cenv senv ent ent' hz hz' W up down slog upcoming db \<longleftrightarrow> (case db of (d, b) \<Rightarrow>
     dispatch_inv (recording cenv) ent hz (\<lambda>wl. W (fst wl)) (\<lambda>wl. upcoming (fst wl)) d \<and> wire_inv upcoming d \<and> answer_inv d \<and>
     answering senv ent' hz' W slog (with_world b (fst (d_world d))) \<and>
     in_step up down slog (snd (d_world d)) (fst (d_world d)))"

lemma system_client_poll:
  assumes c: "connected cenv senv W up down slog" and laws: "client_env_laws cenv W upcoming hz"
    and inv: "system_inv cenv senv ent ent' hz hz' W up down slog upcoming (d, b)"
  shows "holds (dispatch_poll n (recording cenv) d) (\<lambda>(p, d').
    system_inv cenv senv ent ent' hz hz' W up down slog upcoming (d', with_world b (fst (d_world d'))))"
proof -
  let ?W = "client_world W up down slog (slog (fst (d_world d)))" and ?U = "\<lambda>wl. upcoming (fst wl)"
  have d: "dispatch_inv (recording cenv) ent hz (\<lambda>wl. W (fst wl)) ?U d" "wire_inv upcoming d" "answer_inv d"
    and b: "answering senv ent' hz' W slog (with_world b (fst (d_world d)))"
    and s: "in_step up down slog (snd (d_world d)) (fst (d_world d))"
    using inv by (simp_all add: system_inv_def)
  have "dispatch_inv (recording cenv) ent hz ?W ?U d"
    using dispatch_invD[OF d(1)] client_world_laws[OF c laws] s by (auto simp: dispatch_inv_def client_world_def)
  from holds_conj[OF wire.poll_keeps[OF this d(2)] answer.poll_keeps[OF this d(3)], of n] show ?thesis
  proof (rule holds_mono, goal_cases)
    case (1 x)
    obtain p d' where x: "x = (p, d')" by (cases x)
    with 1 have d': "dispatch_inv (recording cenv) ent hz ?W ?U d'" "wire_inv upcoming d'" "answer_inv d'" by auto
    have W: "W (fst (d_world d'))" "in_step up down slog (snd (d_world d')) (fst (d_world d'))"
      "slog (fst (d_world d')) = slog (fst (d_world d))"
      using dispatch_invD(3)[OF d'(1)] by (simp_all add: client_world_def)
    have "dispatch_inv (recording cenv) ent hz (\<lambda>wl. W (fst wl)) ?U d'"
      using dispatch_invD[OF d'(1)] recording_laws[OF laws] W(1) by (auto simp: dispatch_inv_def)
    moreover have "answering senv ent' hz' W slog (with_world b (fst (d_world d')))"
      using b W by (auto simp: answering_def base_inv_def)
    ultimately show ?case using d' W(2) x by (simp add: system_inv_def)
  qed
qed

text \<open>A turn of the server, whatever it does, as long as it keeps what the channel relies on and the logs in step.\<close>

lemma system_server_before:
  assumes c: "connected cenv senv W up down slog" and laws: "server_env_laws senv W hz'" "leaves_ids senv W upcoming"
    and inv: "system_inv cenv senv ent ent' hz hz' W up down slog upcoming (d, b)"
  shows "answering senv ent' hz' (server_world W up down slog upcoming (snd (d_world d)) (upcoming (fst (d_world d)))) slog
    (with_world b (fst (d_world d)))"
  using inv server_world_laws[OF c laws] by (auto simp: system_inv_def answering_def base_inv_def server_world_def)

lemma system_server_after:
  assumes laws: "server_env_laws senv W hz'"
    and inv: "system_inv cenv senv ent ent' hz hz' W up down slog upcoming (d, b)"
    and b': "answering senv ent' hz' (server_world W up down slog upcoming (snd (d_world d)) (upcoming (fst (d_world d)))) slog b'"
  shows "system_inv cenv senv ent ent' hz hz' W up down slog upcoming (d\<lparr>d_world := (b_world b', snd (d_world d))\<rparr>, b')"
proof -
  let ?wl = "(b_world b', snd (d_world d))"
  have d: "dispatch_inv (recording cenv) ent hz (\<lambda>wl. W (fst wl)) (\<lambda>wl. upcoming (fst wl)) d" "wire_inv upcoming d" "answer_inv d"
    using inv by (simp_all add: system_inv_def)
  have W: "W (b_world b')" "in_step up down slog (snd (d_world d)) (b_world b')" "upcoming (b_world b') \<subseteq> upcoming (fst (d_world d))"
    using b' by (auto simp: answering_def base_inv_def server_world_def)
  then have step: "outside_step (\<lambda>wl. W (fst wl)) upcoming (d_world d) ?wl" by (simp add: outside_step_def)
  have "answering senv ent' hz' W slog b'"
    using b' laws W(1) by (auto simp: answering_def base_inv_def)
  with wire.outside_keeps[OF d(1) step d(2)] wire.J_outside[OF d(1) step d(2)] answer.J_outside[OF d(1) step d(3)] W(2)
  show ?thesis by (simp add: system_inv_def)
qed

lemma system_server_call:
  assumes c: "connected cenv senv W up down slog" and laws: "server_env_laws senv W hz'" "leaves_ids senv W upcoming"
    and inv: "system_inv cenv senv ent ent' hz hz' W up down slog upcoming (d, b)"
    and outside: "outside_apart W up down slog upcoming [ServerCall k]"
  shows "holds (run_call senv k (with_world b (fst (d_world d)))) (\<lambda>b'.
    system_inv cenv senv ent ent' hz hz' W up down slog upcoming (d\<lparr>d_world := (b_world b', snd (d_world d))\<rparr>, b'))"
proof -
  let ?W = "server_world W up down slog upcoming (snd (d_world d)) (upcoming (fst (d_world d)))"
  have "outside_keeps ?W slog [k]"
    using outside by (auto simp: Server_Wire.outside_keeps_def outside_apart_def server_world_def in_step_def) blast
  with system_server_before[OF c laws inv]
  have "holds (run_call senv k (with_world b (fst (d_world d)))) (answering senv ent' hz' ?W slog)"
    by (rule run_call_answers)
  then show ?thesis by (rule holds_mono) (rule system_server_after[OF laws(1) inv])
qed

lemma system_inv_start:
  assumes "connected cenv senv W up down slog"
    and "delay_queue_laws (ce_delay_queue cenv) ent hz" "client_env_laws cenv W upcoming hz"
    and "delay_queue_laws (se_delay_queue senv) ent' hz'" "server_env_laws senv W hz'"
    and "W w" "up w = []" "down w = []" "slog w = []"
    and "dispatch_new mpsc_channel (ce_delay_queue cenv) config w0 = Return d" "d_world d = (w, [])"
  shows "system_inv cenv senv ent ent' hz hz' W up down slog upcoming (d, base_channel_new (se_delay_queue senv) config' w)"
  using recording_new[OF assms(2,3,6,10,11)] assms(7-9,11) base_channel_new_inv[OF assms(4-6), of config'] connectedD(8)[OF assms(1)]
  by (simp add: system_inv_def wire_inv_def wire_rel_def answer_inv_def answering_def in_step_def client_is_empty_def)
    (simp add: base_inv_def base_channel_new_def)

lemma system_run_inv:
  assumes c: "connected cenv senv W up down slog" and laws: "client_env_laws cenv W upcoming hz" "server_env_laws senv W hz'"
    "leaves_ids senv W upcoming"
    and inv: "system_inv cenv senv ent ent' hz hz' W up down slog upcoming (d, b)" and outside: "outside_apart W up down slog upcoming acts"
  shows "holds (system_run cenv senv acts (d, b)) (system_inv cenv senv ent ent' hz hz' W up down slog upcoming)"
  using inv outside
proof (induction acts arbitrary: d b)
  case (Cons act acts)
  have rest: "outside_apart W up down slog upcoming acts" and one: "outside_apart W up down slog upcoming [act]"
    using Cons.prems(2) by (simp_all add: outside_apart_def)
  show ?case
  proof (cases act)
    case (ClientPoll n)
    show ?thesis unfolding ClientPoll system_run.simps
      by (rule holds_bind_pair[OF system_client_poll[OF c laws(1) Cons.prems(1)]]) (simp add: Cons.IH[OF _ rest])
  next
    case (ServerCall k)
    from system_server_call[OF c laws(2,3) Cons.prems(1) one[unfolded ServerCall]] show ?thesis
      unfolding ServerCall system_run.simps holds_obind by (rule holds_mono) (simp add: Cons.IH[OF _ rest])
  qed
qed simp

lemma srv_answers_ids:
  "srv_answers {} evs \<Longrightarrow> distinct (map id (requests_of (reads evs))) \<Longrightarrow>
   distinct (map request_id (writes evs)) \<and>
   srv_opens {} evs \<subseteq> id ` set (requests_of (reads evs)) - request_id ` set (writes evs) \<and>
   request_id ` set (writes evs) \<subseteq> id ` set (requests_of (reads evs))"
proof (induction evs rule: rev_induct)
  case (snoc ev evs)
  have "srv_answers {} evs" "distinct (map id (requests_of (reads evs)))"
    using snoc.prems by (simp_all add: srv_answers_snoc)
  note IH = snoc.IH[OF this]
  show ?case
  proof (cases ev)
    case (SrvRead m)
    with IH snoc.prems show ?thesis by (cases m) auto
  next
    case (SrvWrote r)
    with IH snoc.prems show ?thesis by (auto simp: srv_answers_snoc)
  qed (use IH in auto)
qed simp

lemma in_step_read:
  assumes "in_step up down slog clog w" "srv_answers {} (slog w)" "wire_run clog = Some st" "answered clog os m"
  shows "\<exists>r. dr_response_completion r = os \<and> Received (Ready (Some r)) \<in> set clog \<and>
    SrvRead (request_message r) \<in> set (slog w) \<and>
    SrvWrote \<lparr>request_id = dr_request_id r, response_message = m\<rparr> \<in> set (slog w)"
proof -
  obtain r where r: "written clog r" "dr_response_completion r = os"
    "Polled (Ready (Some (Ok \<lparr>request_id = dr_request_id r, response_message = m\<rparr>))) \<in> set clog"
    using assms(4) by (auto simp: answered_def)
  obtain q where q: "request_message r = Request q" "id q = dr_request_id r" by (auto simp: request_message_def)
  have sent: "sent_messages clog = reads (slog w) @ up w" using assms(1) by (simp add: in_step_def)
  have ids: "distinct (map id (requests_of (sent_messages clog)))" using wire_run_requested[OF assms(3)] by simp
  have wrote: "\<lparr>request_id = dr_request_id r, response_message = m\<rparr> \<in> set (writes (slog w))"
    using assms(1) r(3) by (auto simp: in_step_def polled_def)
  then have "dr_request_id r \<in> request_id ` set (writes (slog w))" by force
  moreover have "distinct (map id (requests_of (reads (slog w))))" using ids sent by simp
  ultimately obtain q' where q': "q' \<in> set (requests_of (reads (slog w)))" "id q' = dr_request_id r"
    using srv_answers_ids[OF assms(2)] by force
  have "q \<in> set (requests_of (sent_messages clog))"
    using r(1) q(1) in_sent_messages[of "Request q" clog] by (simp add: in_requests_of)
  moreover have "q' \<in> set (requests_of (sent_messages clog))" using q'(1) sent by simp
  ultimately have "q' = q" using ids q'(2) q(2) by (simp add: distinct_map inj_on_def)
  with q q'(1) r wrote show ?thesis by (auto simp: in_requests_of in_reads in_writes)
qed

text \<open>A client and a server on the two ends of \<^verbatim>\<open>transport::channel::unbounded\<close>, with a queue of requests from callers
  whose deadlines the links bound.\<close>

record net =
  nt_up :: "nat client_message list"
  nt_down :: "nat response list"
  nt_log :: "(nat, nat) server_event list"
  nt_pending :: "nat dispatch_request list"
  nt_handles :: nat

definition net_ends ::
  "('a net_scheme, nat client_message, nat response, string memory_error) transport \<times>
   ('a net_scheme, nat response, nat client_message, string memory_error) transport" where
  "net_ends = unbounded
     (\<lparr>us_send = (\<lambda>w m. if message_deadline m \<le> 100 then (Ok (), w\<lparr>nt_up := nt_up w @ [m]\<rparr>) else (Err m, w)), us_is_closed = (\<lambda>w. False)\<rparr>,
      \<lambda>w. (waiting_for (nt_up w), w\<lparr>nt_up := tl (nt_up w), nt_log := nt_log w @ map SrvRead (take 1 (nt_up w))\<rparr>))
     (\<lparr>us_send = (\<lambda>w r. (Ok (), w\<lparr>nt_down := nt_down w @ [r], nt_log := nt_log w @ [SrvWrote r]\<rparr>)), us_is_closed = (\<lambda>w. False)\<rparr>,
      \<lambda>w. (waiting_for (nt_down w), w\<lparr>nt_down := tl (nt_down w)\<rparr>))"

definition net_client :: "('a net_scheme, ref_queue, nat, nat, string memory_error) client_env" where
  "net_client =
     \<lparr>ce_transport = fst net_ends,
      ce_pending_poll_recv = (\<lambda>w. (waiting_for (nt_pending w), w\<lparr>nt_pending := tl (nt_pending w)\<rparr>)),
      ce_pending_close = (\<lambda>w. w),
      ce_canceled_poll_recv = (\<lambda>w. (Pending, w)),
      ce_is_closed = (\<lambda>w os. False),
      ce_send = (\<lambda>w os r. w),
      ce_now = (\<lambda>w. 0),
      ce_delay_queue = ref_delay_queue,
      ce_error_type = 0\<rparr>"

definition net_server :: "('a net_scheme, ref_queue, nat, nat, string memory_error) server_env" where
  "net_server =
     \<lparr>se_transport = snd net_ends,
      se_canceled_poll_recv = (\<lambda>w. (Pending, w)),
      se_abort = \<lparr>ab_new_pair = (\<lambda>w. (nt_handles w, w\<lparr>nt_handles := Suc (nt_handles w)\<rparr>)), ab_abort = (\<lambda>w h. w)\<rparr>,
      se_now = (\<lambda>w. 0),
      se_new_span = (\<lambda>w c. (0, w)),
      se_active_span = (\<lambda>w sp. None),
      se_random_span_id = (\<lambda>w. (9, w)),
      se_delay_queue = ref_delay_queue\<rparr>"

definition net_ok :: "'a net_scheme \<Rightarrow> bool" where
  "net_ok w \<longleftrightarrow> distinct (map dr_request_id (nt_pending w)) \<and> (\<forall>r \<in> set (nt_pending w). deadline (dr_ctx r) \<le> 100) \<and>
     (\<forall>m \<in> set (nt_up w). message_deadline m \<le> 100)"

definition net_ids :: "'a net_scheme \<Rightarrow> u64 set" where
  "net_ids w = dr_request_id ` set (nt_pending w)"

lemmas net_defs = net_client_def net_server_def net_ends_def unbounded_def unbounded_channel_def

lemma waiting_for_cases:
  "waiting_for xs = (case xs of [] \<Rightarrow> Pending | x # _ \<Rightarrow> Ready (Some x))"
  by (cases xs) simp_all

lemma net_ok_tail:
  "net_ok w \<Longrightarrow> nt_up w' = tl (nt_up w) \<or> nt_up w' = nt_up w \<or> (\<exists>m. nt_up w' = nt_up w @ [m] \<and> message_deadline m \<le> 100) \<Longrightarrow>
   nt_pending w' = tl (nt_pending w) \<or> nt_pending w' = nt_pending w \<Longrightarrow> net_ok w' \<and> net_ids w' \<subseteq> net_ids w"
  by (cases "nt_up w"; cases "nt_pending w") (auto simp: net_ok_def net_ids_def)

lemma net_client_step:
  assumes "env_step net_client w w'" "net_ok w"
  shows "net_ok w' \<and> net_ids w' \<subseteq> net_ids w" "nt_log w' = nt_log w"
proof -
  show "net_ok w' \<and> net_ids w' \<subseteq> net_ids w"
    using assms(1) by cases (rule net_ok_tail[OF assms(2)]; auto simp: net_defs split: if_splits)+
  show "nt_log w' = nt_log w"
    using assms(1) by cases (auto simp: net_defs split: if_splits)
qed

lemma net_server_step:
  assumes "server_step net_server w w'" "net_ok w"
  shows "net_ok w' \<and> net_ids w' \<subseteq> net_ids w"
  using assms(1) by cases (rule net_ok_tail[OF assms(2)]; auto simp: net_defs split: if_splits)+

lemma net_client_laws: "client_env_laws net_client net_ok net_ids 100"
  unfolding client_env_laws_def
proof (intro conjI allI impI)
  fix w r w' assume "net_ok w" "ce_pending_poll_recv net_client w = (Ready (Some r), w')"
  then show "dr_request_id r \<in> net_ids w" "dr_request_id r \<notin> net_ids w'" "deadline (dr_ctx r) \<le> 100"
    by (auto simp: net_defs net_ids_def net_ok_def)
next
  fix w w' assume "net_ok w" "env_step net_client w w'"
  from net_client_step(1)[OF this(2,1)] show "net_ok w'" "net_ids w' \<subseteq> net_ids w" by simp_all
qed (simp add: net_client_def)

lemma net_server_laws: "server_env_laws net_server net_ok 100" "leaves_ids net_server net_ok net_ids"
proof -
  show "leaves_ids net_server net_ok net_ids"
    unfolding leaves_ids_def by (intro allI impI) (rule net_server_step[THEN conjunct2])
  show "server_env_laws net_server net_ok 100"
    unfolding server_env_laws_def
  proof (intro conjI allI impI)
    fix w r w' assume ok: "net_ok w" and "tr_poll_next (se_transport net_server) w = (Ready (Some (Ok (Request r))), w')"
    then have "Request r \<in> set (nt_up w)"
      by (cases "nt_up w") (auto simp: net_defs)
    with ok show "request_deadline r \<le> 100" by (force simp: net_ok_def)
  next
    fix w w' assume "net_ok w" "server_step net_server w w'"
    from net_server_step[OF this(2,1)] show "net_ok w'" by simp
  qed (simp add: net_server_def)
qed

lemma net_connected: "connected net_client net_server net_ok nt_up nt_down nt_log"
  unfolding connected_def
proof (intro conjI)
  show "lossless_link (tr_start_send (ce_transport net_client)) (tr_poll_next (se_transport net_server)) net_ok nt_up"
  proof (unfold_locales, goal_cases)
    case (1 w m r w')
    from net_client_step(1)[OF es_start_send[OF 1(2)] 1(1)] 1(2) show ?case
      by (auto simp: net_defs split: if_splits)
  next
    case (2 w p w')
    from net_server_step[OF ss_next[OF 2(2)] 2(1)] 2(2) show ?case
      by (cases "nt_up w") (auto simp: net_defs)
  qed
  show "lossless_link (tr_start_send (se_transport net_server)) (tr_poll_next (ce_transport net_client)) net_ok nt_down"
  proof (unfold_locales, goal_cases)
    case (1 w m r w')
    from net_server_step[OF ss_start_send[OF 1(2)] 1(1)] 1(2) show ?case by (auto simp: net_defs)
  next
    case (2 w p w')
    from net_client_step(1)[OF es_next[OF 2(2)] 2(1)] 2(2) show ?case
      by (cases "nt_down w") (auto simp: net_defs)
  qed
  show "server_logged net_server nt_log"
    by (simp add: server_logged_def logs_def net_defs read_events_def guard_events_def waiting_for_cases split: list.splits)
  show "\<forall>w w'. net_ok w \<longrightarrow> env_step net_client w w' \<longrightarrow> nt_log w' = nt_log w" 
    by (intro allI impI) (rule net_client_step(2))
  show "\<forall>w w'. net_ok w \<longrightarrow> client_aside net_client w w' \<longrightarrow> nt_up w' = nt_up w \<and> nt_down w' = nt_down w"
    by (auto simp: client_aside_def net_defs)
  show "\<forall>w w'. net_ok w \<longrightarrow> server_aside net_server w w' \<longrightarrow> nt_up w' = nt_up w \<and> nt_down w' = nt_down w"
    by (auto simp: server_aside_def net_defs)
qed (auto simp: net_defs split: if_splits)

definition net_start :: net where
  "net_start = \<lparr>nt_up = [], nt_down = [], nt_log = [], nt_pending = [sample_request 0, sample_request 1], nt_handles = 0\<rparr>"

text \<open>The client writes two requests; the server reads them, answers the second and then the first; the client reads.\<close>

definition net_acts :: "(net, nat) system_act list" where
  "net_acts = [ClientPoll 20, ServerCall (CallNext 9), ServerCall (CallNext 9),
     ServerCall (CallSend \<lparr>request_id = 1, response_message = Ok 6\<rparr>),
     ServerCall (CallSend \<lparr>request_id = 0, response_message = Ok 7\<rparr>), ClientPoll 20]"


text \<open>C3: End to end.  A client's dispatch task and a server's \<^verbatim>\<open>BaseChannel\<close> over two lossless links, polled and
  called in any order with any other tasks in between: every result of the server that a caller is
  given was handed to the transport by the server as the response to the request of that caller, which
  the server has read.  No two requests that the server reads have the same id, and no two responses
  that it hands to the transport do.  Neither side panics, the deadlines being within what the delay
  queues of both sides accept.\<close>

theorem end_to_end_answers:
  assumes "connected cenv senv W up down slog"
    and "delay_queue_laws (ce_delay_queue cenv) ent hz" "client_env_laws cenv W upcoming hz"
    and "delay_queue_laws (se_delay_queue senv) ent' hz'" "server_env_laws senv W hz'" "leaves_ids senv W upcoming"
    and "W w" "up w = []" "down w = []" "slog w = []"
    and "dispatch_new mpsc_channel (ce_delay_queue cenv) config w0 = Return d" "d_world d = (w, [])"
    and "outside_apart W up down slog upcoming acts"
  shows "holds (system_run cenv senv acts (d, base_channel_new (se_delay_queue senv) config' w)) (\<lambda>(d', b').
    (\<forall>os m. Completed os (map_err Server m) \<in> set (snd (d_world d')) \<longrightarrow>
      (\<exists>r. dr_response_completion r = os \<and> Received (Ready (Some r)) \<in> set (snd (d_world d')) \<and>
        SrvRead (request_message r) \<in> set (slog (fst (d_world d'))) \<and>
        SrvWrote \<lparr>request_id = dr_request_id r, response_message = m\<rparr> \<in> set (slog (fst (d_world d'))))) \<and>
    distinct (map id (requests_of (reads (slog (fst (d_world d')))))) \<and>
    distinct (map request_id (writes (slog (fst (d_world d'))))))"
proof -
  have "system_inv cenv senv ent ent' hz hz' W up down slog upcoming (d, base_channel_new (se_delay_queue senv) config' w)"
    by (rule system_inv_start[OF assms(1-5) assms(7-12)])
  from system_run_inv[OF assms(1,3,5,6) this assms(13)] show ?thesis
  proof (rule holds_mono, goal_cases)
    case (1 x)
    obtain d' b' where x: "x = (d', b')" by (cases x)
    with 1 have inv: "system_inv cenv senv ent ent' hz hz' W up down slog upcoming (d', b')" by simp
    then have ans: "answer_inv d'" "srv_answers {} (slog (fst (d_world d')))"
      and s: "in_step up down slog (snd (d_world d')) (fst (d_world d'))"
      and "wire_inv upcoming d'" by (simp_all add: system_inv_def answering_def)
    then obtain st where st: "wire_run (snd (d_world d')) = Some st" by (auto simp: wire_inv_def)
    have ids: "distinct (map id (requests_of (reads (slog (fst (d_world d'))))))"
      using wire_run_requested[OF st] s by (simp add: in_step_def)
    with ans(1) in_step_read[OF s ans(2) st] srv_answers_ids[OF ans(2)] x show ?case
      by (simp add: answer_inv_def)
  qed
qed

theorem end_to_end_answers_witness:
  "holds (system_run net_client net_server net_acts
      (sample_dispatch (net_start, []), base_channel_new (se_delay_queue (net_server :: (net, _, _, _, _) server_env)) server_config_default net_start)) (\<lambda>(d', b').
    (\<forall>os m. Completed os (map_err Server m) \<in> set (snd (d_world d')) \<longrightarrow>
      (\<exists>r. dr_response_completion r = os \<and> Received (Ready (Some r)) \<in> set (snd (d_world d')) \<and>
        SrvRead (request_message r) \<in> set (nt_log (fst (d_world d'))) \<and>
        SrvWrote \<lparr>request_id = dr_request_id r, response_message = m\<rparr> \<in> set (nt_log (fst (d_world d'))))) \<and>
    distinct (map id (requests_of (reads (nt_log (fst (d_world d')))))) \<and>
    distinct (map request_id (writes (nt_log (fst (d_world d')))))) \<and>
   (case system_run net_client net_server net_acts
      (sample_dispatch (net_start, []), base_channel_new (se_delay_queue (net_server :: (net, _, _, _, _) server_env)) server_config_default net_start) of
      Return (d', b') \<Rightarrow> filter (\<lambda>ev. case ev of Completed os r \<Rightarrow> True | _ \<Rightarrow> False) (snd (d_world d')) = [Completed 1 (Ok 6), Completed 0 (Ok 7)]
    | _ \<Rightarrow> False)"
  (is "?safe \<and> ?run")
proof
  show ?safe
    by (rule end_to_end_answers[OF net_connected _ net_client_laws _ net_server_laws, of map_of map_of net_start "\<lambda>n. Some" sample_config "(net_start, [])"])
      (simp_all add: ref_delay_queue_laws sample_dispatch_new net_client_def net_server_def net_start_def net_ok_def
        sample_request_def sample_context_def outside_apart_def net_acts_def sample_dispatch_def)
  show ?run by code_simp
qed

end
