(* ===== verification/Serving.thy ===== *)
theory Serving
  imports Execute Server_Wire
begin

text \<open>
  A whole server connection: the stream \<^verbatim>\<open>Requests\<close> over a \<^verbatim>\<open>BaseChannel\<close>, the pool of handlers that an executor
  runs (\<^verbatim>\<open>InFlightRequest::execute\<close>) and the channel of responses between them, polled in any order.  Every
  response that is written is what the service returned for the message of a request with that id.
\<close>

section \<open>The stream, and the replies it writes\<close>

text \<open>\<open>came s r\<close>: the request \<open>r\<close> was read.  \<open>fit s r\<close>: the response \<open>r\<close> may be written.  The channel hands out only
  requests that were read, and the channel of responses holds only responses that are fit.\<close>

definition onward :: "('s \<Rightarrow> bool) \<Rightarrow> ('s \<Rightarrow> 'a \<Rightarrow> bool) \<Rightarrow> 's \<Rightarrow> 's \<Rightarrow> bool" where
  "onward I came s s' \<longleftrightarrow> I s' \<and> came s \<le> came s'"

lemma onward_trans: "onward I came s s' \<Longrightarrow> onward I came s' s'' \<Longrightarrow> onward I came s s''"
  by (auto simp: onward_def intro: order_trans)

lemma onward_refl: "I s \<Longrightarrow> onward I came s s"
  by (simp add: onward_def)

lemma onward_inv: "onward I came s s' \<Longrightarrow> I s'"
  by (simp add: onward_def)

lemma onward_came: "onward I came s s' \<Longrightarrow> came s r \<Longrightarrow> came s' r"
  by (auto simp: onward_def)

locale replying_contract =
  fixes ch :: "('s, 'req, 'resp, 'e) channel" and recv :: "'s \<Rightarrow> 'resp response option poll \<times> 's"
    and cancel :: "'s \<Rightarrow> u64 \<Rightarrow> 's" and inv :: "'s \<Rightarrow> bool" and came :: "'s \<Rightarrow> 'req request \<Rightarrow> bool"
    and fit :: "'s \<Rightarrow> 'resp response \<Rightarrow> bool"
  assumes next_reply: "inv s \<Longrightarrow> holds (ch_poll_next ch s) (\<lambda>(p, s'). onward inv came s s' \<and>
      (\<forall>t. p = Ready (Some (Ok t)) \<longrightarrow> came s' (tk_request t)))"
    and send_reply: "inv s \<Longrightarrow> fit s r \<Longrightarrow> holds (ch_start_send ch s r) (\<lambda>(res, s'). onward inv came s s')"
    and ready_reply: "inv s \<Longrightarrow> ch_poll_ready ch s = (x, s') \<Longrightarrow> onward inv came s s'"
    and flush_reply: "inv s \<Longrightarrow> ch_poll_flush ch s = (x, s') \<Longrightarrow> onward inv came s s'"
    and recv_reply: "inv s \<Longrightarrow> recv s = (p, s') \<Longrightarrow> onward inv came s s' \<and> (\<forall>r. p = Ready (Some r) \<longrightarrow> fit s' r)"
    and cancel_reply: "inv s \<Longrightarrow> onward inv came s (cancel s i)"
begin

lemma ensure_writeable_reply:
  assumes "inv s"
  shows "holds (requests_ensure_writeable n ch s) (\<lambda>(p, s'). onward inv came s s')"
  unfolding requests_ensure_writeable_def
proof (rule loop_holds[where I = "onward inv came s"], goal_cases)
  case (2 s1)
  obtain p s2 where p: "ch_poll_ready ch s1 = (p, s2)" by fastforce
  obtain q s3 where q: "ch_poll_flush ch s2 = (q, s3)" by fastforce
  have s2: "onward inv came s s2" using onward_trans[OF 2 ready_reply[OF onward_inv[OF 2] p]] .
  have s3: "onward inv came s s3" using onward_trans[OF s2 flush_reply[OF onward_inv[OF s2] q]] .
  from s2 s3 p q show ?case
    by (cases p rule: poll_result_cases; cases q rule: poll_result_cases)
      (simp_all add: requests_ensure_writeable_turn_def)
qed (use assms in \<open>simp add: onward_refl\<close>)

lemma next_response_reply:
  assumes "inv s"
  shows "holds (poll_next_response n ch recv s) (\<lambda>(p, s'). onward inv came s s' \<and> (\<forall>r. p = Ready (Some (Ok r)) \<longrightarrow> fit s' r))"
  unfolding poll_next_response_def
proof (rule holds_bind_pair[OF ensure_writeable_reply[OF assms]], goal_cases)
  case (1 p s1)
  obtain q s2 where q: "recv s1 = (q, s2)" by fastforce
  from recv_reply[OF onward_inv[OF 1(2)] q] onward_trans[OF 1(2), of s2] 1(2) q show ?case
    by (cases p rule: poll_option_result_cases; cases q rule: poll_option_cases) simp_all
qed

lemma pump_write_reply:
  assumes "inv s"
  shows "holds (requests_pump_write n ch recv closed s) (\<lambda>(p, s'). onward inv came s s')"
  unfolding requests_pump_write_def
proof (rule holds_bind_pair[OF next_response_reply[OF assms]], goal_cases)
  case (1 p s1)
  then have s1: "onward inv came s s1" by simp
  obtain q s2 where q: "ch_poll_flush ch s1 = (q, s2)" by fastforce
  have s2: "onward inv came s s2" using onward_trans[OF s1 flush_reply[OF onward_inv[OF s1] q]] .
  show ?case
  proof (cases p rule: poll_option_result_cases)
    case (Item r)
    have "holds (obind (ch_start_send ch s1 r) (\<lambda>(res, s). case res of
        Err e \<Rightarrow> Return (Ready (Some (Err e)), s) | Ok _ \<Rightarrow> Return (Ready (Some (Ok ())), s)))
      (\<lambda>(p, s'). onward inv came s s')"
      by (rule holds_bind_pair[OF send_reply[OF onward_inv[OF s1]]])
        (use 1 Item onward_trans[OF s1] in \<open>auto split: result.splits\<close>)
    with Item show ?thesis by simp
  qed (use s1 q s2 in \<open>cases q rule: poll_result_cases; simp\<close>)+
qed

lemma drop_read_reply: "inv s \<Longrightarrow> onward inv came s (drop_read cancel r s)"
  by (auto simp: drop_read_def response_guard_drop_def onward_refl cancel_reply split: poll.splits option.splits result.splits)

text \<open>Every request that is handed out was read.\<close>

lemma requests_turn_reply:
  assumes "inv s"
  shows "holds (requests_poll_next_turn n ch recv cancel s) (\<lambda>(c, s'). onward inv came s s' \<and>
    (\<forall>r. c = Break (Ready (Some (Ok r))) \<longrightarrow> came s' (if_request r)))"
  unfolding requests_poll_next_turn_def requests_pump_read_def holds_obind
proof (rule holds_mono[OF next_reply[OF assms]], goal_cases)
  case (1 x)
  obtain p s1 where x: "x = (p, s1)" by (cases x)
  with 1 have s1: "onward inv came s s1" and p: "\<And>t. p = Ready (Some (Ok t)) \<Longrightarrow> came s1 (tk_request t)" by simp_all
  have wrote: "holds (requests_pump_write n ch recv b s1) (\<lambda>(w, s2). onward inv came s s2 \<and>
      (\<forall>t. p = Ready (Some (Ok t)) \<longrightarrow> came s2 (tk_request t)) \<and>
      onward inv came s (drop_read cancel r s2))" for b r
  proof (rule holds_pair_mono[OF pump_write_reply[OF onward_inv[OF s1]]], goal_cases)
    case (1 w s2)
    from onward_trans[OF s1 1(2)] have s2: "onward inv came s s2" .
    with onward_trans[OF s2 drop_read_reply[OF onward_inv[OF s2]]] onward_came[OF 1(2)] p show ?case by blast
  qed
  show ?case
  proof (cases p rule: poll_option_result_cases)
    case (Failed e)
    then show ?thesis using s1 x by simp
  next
    case Pending
    show ?thesis unfolding x Pending prod.case
      by (simp, rule holds_mono[OF wrote]) (use Pending in \<open>auto split: poll.splits option.splits result.splits prod.splits\<close>)
  next
    case Closed
    show ?thesis unfolding x Closed prod.case
      by (simp, rule holds_mono[OF wrote]) (auto split: poll.splits option.splits result.splits prod.splits)
  next
    case (Item t)
    show ?thesis unfolding x Item prod.case
      by (simp, rule holds_mono[OF wrote]) (use Item in \<open>auto simp: begin_request_def split: poll.splits option.splits result.splits prod.splits\<close>)
  qed
qed

lemma requests_poll_next_reply:
  assumes "inv s"
  shows "holds (requests_poll_next n ch recv cancel s) (\<lambda>(p, s'). onward inv came s s' \<and>
    (\<forall>r. p = Ready (Some (Ok r)) \<longrightarrow> came s' (if_request r)))"
  unfolding requests_poll_next_def
proof (rule loop_holds[where I = "onward inv came s"], goal_cases)
  case (2 s1)
  show ?case
  proof (rule holds_pair_mono[OF requests_turn_reply[OF onward_inv[OF 2]]], goal_cases)
    case (1 c s2)
    with onward_trans[OF 2, of s2] show ?case by (cases c) auto
  qed
qed (use assms in \<open>simp add: onward_refl\<close>)

text \<open>A limit on the channel keeps the contract, where a refusal of a request that was read is fit.\<close>

lemma limited_turn_reply:
  assumes inv: "inv (mr_inner m)" and fit: "\<And>s t. inv s \<Longrightarrow> came s (tk_request t) \<Longrightarrow> fit s (throttle_response t)"
  shows "holds (max_requests_turn ch m) (\<lambda>(c, m'). onward inv came (mr_inner m) (mr_inner m') \<and>
    (\<forall>t. c = Break (Ready (Some (Ok t))) \<longrightarrow> came (mr_inner m') (tk_request t)))"
proof (cases "ch_in_flight_requests ch (mr_inner m) \<ge> mr_max_in_flight_requests m")
  case True
  obtain x s where x: "ch_poll_ready ch (mr_inner m) = (x, s)" by fastforce
  have s: "onward inv came (mr_inner m) s" using ready_reply[OF inv x] .
  have sent: "holds (ch_start_send ch s1 (throttle_response t)) (\<lambda>(res, s2). onward inv came (mr_inner m) s2)"
    if "onward inv came s s1" "came s1 (tk_request t)" for s1 t
    by (rule holds_mono[OF send_reply[OF onward_inv[OF that(1)] fit[OF onward_inv[OF that(1)] that(2)]]])
      (use onward_trans[OF onward_trans[OF s that(1)]] in auto)
  have "holds (obind (ch_poll_next ch s) (\<lambda>(p, s). case p of
          Pending \<Rightarrow> Return (Break Pending, m\<lparr>mr_inner := s\<rparr>)
        | Ready (Some (Err e)) \<Rightarrow> Return (Break (Ready (Some (Err e))), m\<lparr>mr_inner := s\<rparr>)
        | Ready None \<Rightarrow> Return (Break (Ready None), m\<lparr>mr_inner := s\<rparr>)
        | Ready (Some (Ok r)) \<Rightarrow>
            obind (ch_start_send ch s (throttle_response r)) (\<lambda>(res, s). case res of
              Err e \<Rightarrow> Return (Break (Ready (Some (Err e))), m\<lparr>mr_inner := s\<rparr>) | Ok _ \<Rightarrow> Return (Continue, m\<lparr>mr_inner := s\<rparr>))))
      (\<lambda>(c, m'). onward inv came (mr_inner m) (mr_inner m') \<and> (\<forall>t. c \<noteq> Break (Ready (Some (Ok t)))))"
  proof (rule holds_bind_pair[OF next_reply[OF onward_inv[OF s]]], goal_cases)
    case (1 p s1)
    then have s1: "onward inv came s s1" by simp
    show ?case
    proof (cases p rule: poll_option_result_cases)
      case (Item t)
      then have "holds (ch_start_send ch s1 (throttle_response t)) (\<lambda>(res, s2). onward inv came (mr_inner m) s2)"
        using sent[OF s1] 1 by simp
      with Item show ?thesis by (auto elim!: holds_mono split: result.splits)
    qed (use onward_trans[OF s s1] in auto)
  qed
  with True x s show ?thesis
    unfolding max_requests_turn_def by (cases x rule: poll_result_cases) (auto elim!: holds_mono)
next
  case False
  have "holds (obind (ch_poll_next ch (mr_inner m)) (\<lambda>(p, s). Return (Break p, m\<lparr>mr_inner := s\<rparr>)))
      (\<lambda>(c, m'). onward inv came (mr_inner m) (mr_inner m') \<and>
        (\<forall>t. c = Break (Ready (Some (Ok t))) \<longrightarrow> came (mr_inner m') (tk_request t)))"
    by (rule holds_bind_pair[OF next_reply[OF inv]]) simp
  then show ?thesis unfolding max_requests_turn_def if_not_P[OF False] .
qed

lemma limited_poll_next_reply:
  assumes inv: "inv (mr_inner m)" and fit: "\<And>s t. inv s \<Longrightarrow> came s (tk_request t) \<Longrightarrow> fit s (throttle_response t)"
  shows "holds (max_requests_poll_next n ch m) (\<lambda>(p, m'). onward inv came (mr_inner m) (mr_inner m') \<and>
    (\<forall>t. p = Ready (Some (Ok t)) \<longrightarrow> came (mr_inner m') (tk_request t)))"
  unfolding max_requests_poll_next_def
proof (rule loop_holds[where I = "\<lambda>m'. onward inv came (mr_inner m) (mr_inner m')"], goal_cases)
  case (2 m1)
  show ?case
  proof (rule holds_pair_mono[OF limited_turn_reply[OF onward_inv[OF 2] fit]], goal_cases)
    case (3 c m2)
    with onward_trans[OF 2, of "mr_inner m2"] show ?case by (cases c) auto
  qed
qed (use inv in \<open>simp add: onward_refl\<close>)

lemma guarded_reply: "replying_contract ch recv cancel (\<lambda>s. inv s \<and> G) came fit"
proof -
  have guard: "onward (\<lambda>s. inv s \<and> G) came s s'" if "onward inv came s s'" G for s s'
    using that by (simp add: onward_def)
  show ?thesis
  proof (unfold_locales, goal_cases)
    case (1 s)
    then have "inv s" G by simp_all
    from next_reply[OF this(1)] show ?case by (rule holds_mono) (use guard[OF _ \<open>G\<close>] in auto)
  next
    case (2 s r)
    then have "inv s" G by simp_all
    from send_reply[OF this(1) 2(2)] show ?case by (rule holds_mono) (use guard[OF _ \<open>G\<close>] in auto)
  next
    case (3 s x s')
    then show ?case by (intro guard ready_reply) simp_all
  next
    case (4 s x s')
    then show ?case by (intro guard flush_reply) simp_all
  next
    case (5 s p s')
    with recv_reply[of s p s'] guard[of s s'] show ?case by simp
  next
    case (6 s i)
    then show ?case by (intro guard cancel_reply) simp_all
  qed
qed

lemma limited_reply:
  assumes fit: "\<And>s t. inv s \<Longrightarrow> came s (tk_request t) \<Longrightarrow> fit s (throttle_response t)"
    and recv': "\<And>m. recv' m = (let (p, s) = recv (mr_inner m) in (p, m\<lparr>mr_inner := s\<rparr>))"
    and cancel': "\<And>m i. cancel' m i = m\<lparr>mr_inner := cancel (mr_inner m) i\<rparr>"
  shows "replying_contract (max_requests_ops k ch) recv' cancel' (\<lambda>m. inv (mr_inner m)) (\<lambda>m. came (mr_inner m)) (\<lambda>m. fit (mr_inner m))"
proof (unfold_locales, goal_cases)
  case (1 m)
  have "holds (max_requests_poll_next k ch m) (\<lambda>(p, m'). onward inv came (mr_inner m) (mr_inner m') \<and>
      (\<forall>t. p = Ready (Some (Ok t)) \<longrightarrow> came (mr_inner m') (tk_request t)))"
    by (rule limited_poll_next_reply[OF 1 fit])
  then show ?case
    unfolding max_requests_ops_def channel.simps by (rule holds_mono) (auto simp: onward_def)
next
  case (2 m r)
  from send_reply[OF 2] show ?case
    unfolding max_requests_ops_def channel.simps holds_obind by (rule holds_mono) (auto simp: onward_def)
next
  case (3 m x m')
  obtain y s where y: "ch_poll_ready ch (mr_inner m) = (y, s)" by fastforce
  with 3(2) have "m' = m\<lparr>mr_inner := s\<rparr>" by (simp add: max_requests_ops_def)
  with ready_reply[OF 3(1) y] show ?case by (auto simp: onward_def)
next
  case (4 m x m')
  obtain y s where y: "ch_poll_flush ch (mr_inner m) = (y, s)" by fastforce
  with 4(2) have "m' = m\<lparr>mr_inner := s\<rparr>" by (simp add: max_requests_ops_def)
  with flush_reply[OF 4(1) y] show ?case by (auto simp: onward_def)
next
  case (5 m p m')
  obtain y s where y: "recv (mr_inner m) = (y, s)" by fastforce
  with 5(2) have "m' = m\<lparr>mr_inner := s\<rparr>" "p = y" by (simp_all add: recv')
  with recv_reply[OF 5(1) y] show ?case by (auto simp: onward_def)
next
  case (6 m i)
  from cancel_reply[OF 6, of i] show ?case by (auto simp: cancel' onward_def)
qed

end

section \<open>What a world shows of a server\<close>

text \<open>The log of the channel, the results that the service has returned, and the responses that are queued between
  the handlers and the stream.  \<open>vw_own\<close> are the results that the channel itself may answer requests with.\<close>

record ('w, 'req, 'resp) service_view =
  vw_log :: "'w \<Rightarrow> ('req, 'resp) server_event list"
  vw_results :: "'w \<Rightarrow> (rpc_context \<times> 'req \<times> ('resp, server_error) result) list"
  vw_queue :: "'w \<Rightarrow> 'resp response list"
  vw_own :: "('resp, server_error) result set"

definition unseen :: "('w, 'req, 'resp) service_view \<Rightarrow> 'w \<Rightarrow> 'w \<Rightarrow> bool" where
  "unseen v w w' \<longleftrightarrow> vw_log v w' = vw_log v w \<and> vw_results v w' = vw_results v w \<and> vw_queue v w' = vw_queue v w"

text \<open>A request as the handler gets it has the id, the message and the deadline that were read; its trace context is new.\<close>

definition request_came :: "('w, 'req, 'resp) service_view \<Rightarrow> 'w \<Rightarrow> 'req request \<Rightarrow> bool" where
  "request_came v w r \<longleftrightarrow> (\<exists>q. SrvRead (Request q) \<in> set (vw_log v w) \<and> id q = id r \<and> message q = message r \<and>
     deadline (request_context q) = deadline (request_context r))"

definition reply_of :: "('w, 'req, 'resp) service_view \<Rightarrow> 'w \<Rightarrow> 'resp response \<Rightarrow> bool" where
  "reply_of v w resp \<longleftrightarrow> (\<exists>q. SrvRead (Request q) \<in> set (vw_log v w) \<and> id q = request_id resp \<and>
     (response_message resp \<in> vw_own v \<or>
      (\<exists>c. deadline c = deadline (request_context q) \<and> (c, message q, response_message resp) \<in> set (vw_results v w))))"

definition all_replies :: "('w, 'req, 'resp) service_view \<Rightarrow> 'w \<Rightarrow> bool" where
  "all_replies v w \<longleftrightarrow> (\<forall>r \<in> set (vw_queue v w). reply_of v w r) \<and> (\<forall>r. SrvWrote r \<in> set (vw_log v w) \<longrightarrow> reply_of v w r)"

text \<open>What the server relies on: the service's results are those in the view, the channel of responses delivers
  what was sent, and nothing else is seen in the view but what the channel reads and writes.\<close>

definition handlers_laws ::
  "('w, 'q, 'req, 'resp, 'e) server_env \<Rightarrow> ('w, 'req, 'resp) exec_env \<Rightarrow> ('w \<Rightarrow> 'resp response option poll \<times> 'w) \<Rightarrow>
   ('w \<Rightarrow> bool) \<Rightarrow> ('w, 'req, 'resp) service_view \<Rightarrow> bool" where
  "handlers_laws senv xenv poll_recv W v \<longleftrightarrow>
     server_logged senv (vw_log v) \<and> abortable_laws xenv \<and>
     (\<forall>w w'. W w \<longrightarrow> server_step senv w w' \<longrightarrow> vw_results v w' = vw_results v w \<and> vw_queue v w' = vw_queue v w) \<and>
     (\<forall>w c m p w'. W w \<longrightarrow> ex_serve xenv c m w = (p, w') \<longrightarrow> W w' \<and> vw_log v w' = vw_log v w \<and> vw_queue v w' = vw_queue v w \<and>
        vw_results v w' = vw_results v w @ (case p of Ready res \<Rightarrow> [(c, m, res)] | Pending \<Rightarrow> [])) \<and>
     (\<forall>w r p w'. W w \<longrightarrow> ex_send_poll xenv r w = (p, w') \<longrightarrow> W w' \<and> vw_log v w' = vw_log v w \<and> vw_results v w' = vw_results v w \<and>
        vw_queue v w' = vw_queue v w @ (if p = Ready True then [r] else [])) \<and>
     (\<forall>w p w'. W w \<longrightarrow> poll_recv w = (p, w') \<longrightarrow> W w' \<and> vw_log v w' = vw_log v w \<and> vw_results v w' = vw_results v w \<and>
        vw_queue v w = (case p of Ready (Some r) \<Rightarrow> [r] | _ \<Rightarrow> []) @ vw_queue v w') \<and>
     (\<forall>w i. W w \<longrightarrow> W (ex_cancel xenv w i) \<and> unseen v w (ex_cancel xenv w i))"

lemma handlers_lawsD:
  assumes "handlers_laws senv xenv poll_recv W v"
  shows "server_logged senv (vw_log v)" "abortable_laws xenv"
    "W w \<Longrightarrow> server_step senv w w' \<Longrightarrow> vw_results v w' = vw_results v w \<and> vw_queue v w' = vw_queue v w"
    "W w \<Longrightarrow> ex_serve xenv c m w = (p, w') \<Longrightarrow> W w' \<and> vw_log v w' = vw_log v w \<and> vw_queue v w' = vw_queue v w \<and>
       vw_results v w' = vw_results v w @ (case p of Ready res \<Rightarrow> [(c, m, res)] | Pending \<Rightarrow> [])"
    "W w \<Longrightarrow> ex_send_poll xenv r w = (s, w') \<Longrightarrow> W w' \<and> vw_log v w' = vw_log v w \<and> vw_results v w' = vw_results v w \<and>
       vw_queue v w' = vw_queue v w @ (if s = Ready True then [r] else [])"
    "W w \<Longrightarrow> poll_recv w = (q, w') \<Longrightarrow> W w' \<and> vw_log v w' = vw_log v w \<and> vw_results v w' = vw_results v w \<and>
       vw_queue v w = (case q of Ready (Some r) \<Rightarrow> [r] | _ \<Rightarrow> []) @ vw_queue v w'"
    "W w \<Longrightarrow> W (ex_cancel xenv w i) \<and> unseen v w (ex_cancel xenv w i)"
  using assms unfolding handlers_laws_def by blast+

text \<open>Nothing that was read or returned is forgotten.\<close>

definition remembers :: "('w, 'req, 'resp) service_view \<Rightarrow> 'w \<Rightarrow> 'w \<Rightarrow> bool" where
  "remembers v w w' \<longleftrightarrow> set (vw_log v w) \<subseteq> set (vw_log v w') \<and> set (vw_results v w) \<subseteq> set (vw_results v w')"

lemma remembers_refl [simp]: "remembers v w w"
  by (simp add: remembers_def)

lemma unseen_remembers: "unseen v w w' \<Longrightarrow> remembers v w w'"
  by (simp add: remembers_def unseen_def)

lemma remembers_came: "remembers v w w' \<Longrightarrow> request_came v w r \<Longrightarrow> request_came v w' r"
  unfolding remembers_def request_came_def by blast

lemma remembers_reply: "remembers v w w' \<Longrightarrow> reply_of v w r \<Longrightarrow> reply_of v w' r"
  unfolding remembers_def reply_of_def by blast

lemma all_replies_step:
  assumes "all_replies v w" "remembers v w w'"
    and "\<And>r. r \<in> set (vw_queue v w') \<Longrightarrow> r \<in> set (vw_queue v w) \<or> reply_of v w' r"
    and "\<And>r. SrvWrote r \<in> set (vw_log v w') \<Longrightarrow> SrvWrote r \<in> set (vw_log v w) \<or> reply_of v w' r"
  shows "all_replies v w'"
  using assms remembers_reply[OF assms(2)] unfolding all_replies_def by blast

lemma all_replies_unseen: "all_replies v w \<Longrightarrow> unseen v w w' \<Longrightarrow> all_replies v w'"
  by (rule all_replies_step) (auto simp: unseen_def remembers_def)

section \<open>A base channel hands out what it has read\<close>

lemma base_poll_request_came:
  assumes "answering env ent hz W (vw_log v) b"
  shows "holds (base_poll_request env b) (\<lambda>(st, b'). \<forall>t. st = Yield (Ok t) \<longrightarrow> request_came v (b_world b') (tk_request t))"
proof -
  have inv: "base_inv env ent hz W b" and lg: "server_logged env (vw_log v)" using assms by (simp_all add: answering_def)
  obtain p w where p: "tr_poll_next (se_transport env) (b_world b) = (p, w)" by fastforce
  show ?thesis
  proof (cases "\<exists>r. p = Ready (Some (Ok (Request r)))")
    case True
    then obtain r where r: "p = Ready (Some (Ok (Request r)))" by blast
    have "request_deadline r \<le> hz"
      using server_env_lawsD(3)[OF base_invD(1)[OF inv] base_invD(3)[OF inv]] p r by simp
    note law = base_start_request_law[OF base_inv_world[OF inv ss_next[OF p]] this]
    then obtain res b1 where s: "base_start_request env (b\<lparr>b_world := w\<rparr>) r = Return (res, b1)" by (auto simp: yields_def)
    with law have t: "id (tk_request t) = id r \<and> message (tk_request t) = message r \<and>
        deadline (request_context (tk_request t)) = deadline (request_context r)" if "res = Ok t" for t
      using that by simp
    have "SrvRead (Request r) \<in> set (vw_log v (b_world b1))"
      using base_start_request_log[OF lg s] server_loggedD(1)[OF lg p] r by (simp add: read_events_def)
    then have "request_came v (b_world b1) (tk_request t)" if "res = Ok t" for t
      using t[OF that] unfolding request_came_def by (intro exI[of _ r]) simp
    with s p r show ?thesis by (cases res) (simp_all add: base_poll_request_def)
  next
    case False
    from base_poll_request_answers[OF assms] obtain x where "base_poll_request env b = Return x" by (auto simp: yields_def)
    with False p show ?thesis
      by (cases p rule: poll_option_result_cases)
        (auto simp: base_poll_request_def obind_eq_Return split: client_message.splits prod.splits)
  qed
qed

lemma base_poll_next_came:
  assumes "answering env ent hz W (vw_log v) b"
  shows "holds (base_poll_next n env b) (\<lambda>(p, b'). \<forall>t. p = Ready (Some (Ok t)) \<longrightarrow> request_came v (b_world b') (tk_request t))"
  unfolding base_poll_next_def
proof (rule loop_holds[where I = "answering env ent hz W (vw_log v)", OF assms], goal_cases)
  case (1 b)
  have "holds (base_poll_next_turn env b) (\<lambda>(c, b'). \<forall>t. c = Break (Ready (Some (Ok t))) \<longrightarrow> request_came v (b_world b') (tk_request t))"
    unfolding base_poll_next_turn_def
  proof (rule holds_bind_pair[OF yields_imp_holds[OF base_poll_cancellation_answers[OF 1]]], goal_cases)
    case (1 s1 b1)
    obtain s2 b2 where s2: "base_poll_expiration env b1 = (s2, b2)" by fastforce
    have b2: "answering env ent hz W (vw_log v) b2" using base_poll_expiration_answers[OF 1(2) s2] .
    from base_poll_request_came[OF b2] s2 show ?case
      by (auto elim!: holds_mono split: request_status.splits receiver_status.splits)
  qed
  from holds_conj[OF this base_poll_next_turn_answers[OF 1]] show ?case
    by (auto elim!: holds_mono split: control.splits)
qed

text \<open>\<^verbatim>\<open>poll_next\<close> of a \<^verbatim>\<open>BaseChannel\<close> writes nothing: it does the same on a transport whose \<^verbatim>\<open>start_send\<close> has no
  effect.\<close>

definition unsending :: "('w, 'q, 'req, 'resp, 'e) server_env \<Rightarrow> ('w, 'q, 'req, 'resp, 'e) server_env" where
  "unsending env = env\<lparr>se_transport := (se_transport env)\<lparr>tr_start_send := (\<lambda>w m. (fst (tr_start_send (se_transport env) w m), w))\<rparr>\<rparr>"

lemma unsending_simps [simp]:
  "tr_poll_next (se_transport (unsending env)) = tr_poll_next (se_transport env)"
  "tr_poll_ready (se_transport (unsending env)) = tr_poll_ready (se_transport env)"
  "tr_poll_flush (se_transport (unsending env)) = tr_poll_flush (se_transport env)"
  "tr_poll_close (se_transport (unsending env)) = tr_poll_close (se_transport env)"
  "tr_start_send (se_transport (unsending env)) w m = (fst (tr_start_send (se_transport env) w m), w)"
  "se_canceled_poll_recv (unsending env) = se_canceled_poll_recv env" "se_abort (unsending env) = se_abort env"
  "se_now (unsending env) = se_now env" "se_new_span (unsending env) = se_new_span env"
  "se_active_span (unsending env) = se_active_span env" "se_random_span_id (unsending env) = se_random_span_id env"
  "se_delay_queue (unsending env) = se_delay_queue env"
  by (simp_all add: unsending_def)

lemma base_poll_next_unsending: "base_poll_next n (unsending env) b = base_poll_next n env b"
proof -
  have start: "base_start_request (unsending env) = base_start_request env"
    unfolding base_start_request_def unsending_simps by (rule refl)
  have "base_poll_next_turn (unsending env) = base_poll_next_turn env"
    unfolding base_poll_next_turn_def base_poll_cancellation_def base_poll_expiration_def base_poll_request_def
      unsending_simps start by (rule refl)
  then show ?thesis by (simp add: base_poll_next_def)
qed

text \<open>What it does to the log: it adds events, none of them a response.\<close>

lemma unsending_step:
  assumes lg: "server_logged env log" and step: "server_step (unsending env) w w'"
  shows "w' = w \<or> server_step env w w'" "\<exists>evs. log w' = log w @ evs \<and> (\<forall>r. SrvWrote r \<notin> set evs)"
proof -
  note d = server_loggedD[OF lg] server_logged_span[OF lg]
  from step show "w' = w \<or> server_step env w w'" by cases (auto intro: server_step.intros)
  from step show "\<exists>evs. log w' = log w @ evs \<and> (\<forall>r. SrvWrote r \<notin> set evs)"
  proof cases
    case (ss_next p)
    with d(1) show ?thesis by (cases p rule: poll_option_result_cases) (auto simp: read_events_def)
  next
    case (ss_canceled c)
    with d(3) show ?thesis by (cases c rule: poll_option_cases) (auto simp: guard_events_def)
  next
    case (ss_abort h)
    with d(8)[of w h] show ?thesis by simp
  qed (auto dest: d(4-7,9-))
qed

lemma unsending_laws:
  assumes "server_env_laws env W hz" "handlers_laws env xenv poll_recv W v"
  shows "server_env_laws (unsending env) (\<lambda>w. W w \<and> all_replies v w \<and> remembers v w0 w) hz"
  unfolding server_env_laws_def
proof (intro conjI allI impI)
  fix w w' assume W: "W w \<and> all_replies v w \<and> remembers v w0 w" and step: "server_step (unsending env) w w'"
  note u = unsending_step[OF handlers_lawsD(1)[OF assms(2)] step]
  obtain evs where evs: "vw_log v w' = vw_log v w @ evs" "\<And>r. SrvWrote r \<notin> set evs" using u(2) by blast
  have same: "vw_results v w' = vw_results v w" "vw_queue v w' = vw_queue v w"
    using u(1) handlers_lawsD(3)[OF assms(2), of w w'] W by auto
  show "W w'" using u(1) W server_env_lawsD(1)[OF assms(1)] by auto
  show "remembers v w0 w'" using W evs(1) same by (auto simp: remembers_def)
  show "all_replies v w'"
    by (rule all_replies_step[of v w]) (use W evs same in \<open>auto simp: remembers_def\<close>)
qed (use server_env_lawsD[OF assms(1)] in auto)

definition replies_inv ::
  "('w, 'q, 'req, 'resp, 'e) server_env \<Rightarrow> ('q \<Rightarrow> entries) \<Rightarrow> instant \<Rightarrow> ('w \<Rightarrow> bool) \<Rightarrow> ('w, 'req, 'resp) service_view \<Rightarrow>
   'w \<Rightarrow> ('w, 'q) base_channel \<Rightarrow> bool" where
  "replies_inv env ent hz W v w0 b \<longleftrightarrow>
     answering env ent hz W (vw_log v) b \<and> all_replies v (b_world b) \<and> remembers v w0 (b_world b)"

lemma replies_invD:
  assumes "replies_inv env ent hz W v w0 b"
  shows "answering env ent hz W (vw_log v) b" "all_replies v (b_world b)" "remembers v w0 (b_world b)" "W (b_world b)"
    "base_inv env ent hz W b" "server_env_laws env W hz"
  using assms by (simp_all add: replies_inv_def answering_def base_inv_def)

lemma remembers_trans: "remembers v w w' \<Longrightarrow> remembers v w' w'' \<Longrightarrow> remembers v w w''"
  by (auto simp: remembers_def)

lemma replies_inv_world:
  assumes "replies_inv env ent hz W v w0 b" "W w" "all_replies v w" "remembers v (b_world b) w" "vw_log v w = vw_log v (b_world b)"
  shows "replies_inv env ent hz W v w0 (b\<lparr>b_world := w\<rparr>)"
  using assms remembers_trans[of v w0 "b_world b" w] by (auto simp: replies_inv_def answering_def base_inv_def)

lemma base_poll_next_replies:
  assumes inv: "replies_inv env ent hz W v w0 b" and laws: "handlers_laws env xenv poll_recv W v"
  shows "holds (base_poll_next n env b) (\<lambda>(p, b'). replies_inv env ent hz W v w0 b' \<and> remembers v (b_world b) (b_world b'))"
proof -
  note i = replies_invD[OF inv]
  have "base_inv (unsending env) ent hz (\<lambda>w. W w \<and> all_replies v w \<and> remembers v (b_world b) w) b"
    using i unsending_laws[OF i(6) laws] by (simp add: base_inv_def)
  from base_poll_next_law[OF this, of n] have "holds (base_poll_next n env b) (\<lambda>(p, b').
      all_replies v (b_world b') \<and> remembers v (b_world b) (b_world b'))"
    unfolding base_poll_next_unsending by (auto simp: base_inv_def elim!: holds_mono)
  from holds_conj[OF this base_poll_next_answers[OF i(1)]] show ?thesis
    by (rule holds_mono) (use i(3) in \<open>auto simp: replies_inv_def intro: remembers_trans\<close>)
qed

lemma base_start_send_replies:
  assumes inv: "replies_inv env ent hz W v w0 b" and laws: "handlers_laws env xenv poll_recv W v" and r: "reply_of v (b_world b) r"
  shows "holds (base_start_send env b r) (\<lambda>(res, b'). replies_inv env ent hz W v w0 b' \<and> remembers v (b_world b) (b_world b'))"
proof (rule holds_mono[OF base_start_send_answers[OF replies_invD(1)[OF inv], of r]])
  note i = replies_invD[OF inv]
  fix x assume x: "base_start_send env b r = Return x" and a: "case x of (res, b') \<Rightarrow> answering env ent hz W (vw_log v) b'"
  obtain res b' where x': "x = (res, b')" by (cases x)
  obtain z w where s: "tr_start_send (se_transport env) (b_world b) r = (z, w)" by fastforce
  have same: "vw_results v w = vw_results v (b_world b)" "vw_queue v w = vw_queue v (b_world b)"
    using handlers_lawsD(3)[OF laws i(4) ss_start_send[OF s]] by simp_all
  have log: "vw_log v w = vw_log v (b_world b) @ [SrvWrote r]" using server_loggedD(2)[OF handlers_lawsD(1)[OF laws] s] .
  have rem: "remembers v (b_world b) w" using same log by (simp add: remembers_def) blast
  have "all_replies v w"
    by (rule all_replies_step[OF i(2) rem]) (use same log remembers_reply[OF rem r] in auto)
  moreover have "b_world b' = b_world b \<or> b_world b' = w"
    using x s x' by (auto simp: base_start_send_def obind_eq_Return split: option.splits)
  ultimately show "case x of (res, b') \<Rightarrow> replies_inv env ent hz W v w0 b' \<and> remembers v (b_world b) (b_world b')"
    using a i(2,3) rem remembers_trans[OF i(3) rem] x' by (auto simp: replies_inv_def)
qed

definition serving_inv ::
  "('w, 'q, 'req, 'resp, 'e) server_env \<Rightarrow> ('w, 'req, 'resp) exec_env \<Rightarrow> ('w \<Rightarrow> 'resp response option poll \<times> 'w) \<Rightarrow>
   ('q \<Rightarrow> entries) \<Rightarrow> instant \<Rightarrow> ('w \<Rightarrow> bool) \<Rightarrow> ('w, 'req, 'resp) service_view \<Rightarrow> 'w \<Rightarrow> ('w, 'q) base_channel \<Rightarrow> bool" where
  "serving_inv env xenv poll_recv ent hz W v w0 b \<longleftrightarrow> replies_inv env ent hz W v w0 b \<and> handlers_laws env xenv poll_recv W v"

lemma serving_invD:
  assumes "serving_inv env xenv poll_recv ent hz W v w0 b"
  shows "replies_inv env ent hz W v w0 b" "handlers_laws env xenv poll_recv W v"
  using assms by (simp_all add: serving_inv_def)

lemma replies_onward:
  assumes "serving_inv env xenv poll_recv ent hz W v w0 b" "replies_inv env ent hz W v w0 b'" "remembers v (b_world b) (b_world b')"
  shows "onward (serving_inv env xenv poll_recv ent hz W v w0) (\<lambda>b. request_came v (b_world b)) b b'"
  using assms remembers_came[OF assms(3)] by (auto simp: onward_def serving_inv_def)

lemma unseen_onward:
  assumes inv: "serving_inv env xenv poll_recv ent hz W v w0 b" and w: "W w" "unseen v (b_world b) w"
  shows "onward (serving_inv env xenv poll_recv ent hz W v w0) (\<lambda>b. request_came v (b_world b)) b (b\<lparr>b_world := w\<rparr>)"
proof (rule replies_onward[OF inv])
  note i = serving_invD(1)[OF inv]
  show "replies_inv env ent hz W v w0 (b\<lparr>b_world := w\<rparr>)"
    by (rule replies_inv_world[OF i w(1) all_replies_unseen[OF replies_invD(2)[OF i] w(2)] unseen_remembers[OF w(2)]])
      (use w(2) in \<open>simp add: unseen_def\<close>)
qed (use w(2) in \<open>simp add: unseen_remembers\<close>)

lemma unseen_server_step:
  assumes inv: "serving_inv env xenv poll_recv ent hz W v w0 b" and "server_step env (b_world b) w" "vw_log v w = vw_log v (b_world b)"
  shows "W w" "unseen v (b_world b) w"
proof -
  note i = replies_invD(4,6)[OF serving_invD(1)[OF inv]]
  show "W w" using server_env_lawsD(1)[OF i(2,1) assms(2)] .
  show "unseen v (b_world b) w"
    using handlers_lawsD(3)[OF serving_invD(2)[OF inv] i(1) assms(2)] assms(3) by (simp add: unseen_def)
qed

lemma base_recv_replies:
  assumes inv: "serving_inv env xenv poll_recv ent hz W v w0 b" and r: "base_recv poll_recv b = (p, b')"
  shows "onward (serving_inv env xenv poll_recv ent hz W v w0) (\<lambda>b. request_came v (b_world b)) b b' \<and>
    (\<forall>r. p = Ready (Some r) \<longrightarrow> reply_of v (b_world b') r)"
proof -
  obtain w where w: "poll_recv (b_world b) = (p, w)" "b' = b\<lparr>b_world := w\<rparr>"
    using r by (auto simp: base_recv_def split: prod.splits)
  note i = serving_invD[OF inv]
  from handlers_lawsD(6)[OF i(2) replies_invD(4)[OF i(1)] w(1)] have W: "W w"
    and same: "vw_log v w = vw_log v (b_world b)" "vw_results v w = vw_results v (b_world b)"
    and q: "vw_queue v (b_world b) = (case p of Ready (Some r) \<Rightarrow> [r] | _ \<Rightarrow> []) @ vw_queue v w" by simp_all
  have rem: "remembers v (b_world b) w" using same by (simp add: remembers_def)
  have "all_replies v w" by (rule all_replies_step[OF replies_invD(2)[OF i(1)] rem]) (use same q in auto)
  from replies_inv_world[OF i(1) W this rem same(1)] have "replies_inv env ent hz W v w0 b'" using w(2) by simp
  moreover have "reply_of v w r" if "p = Ready (Some r)" for r
    using that q replies_invD(2)[OF i(1)] remembers_reply[OF rem] by (simp add: all_replies_def)
  ultimately show ?thesis using replies_onward[OF inv] rem w(2) by simp
qed

interpretation replies: replying_contract
  "base_channel_ops n env" "base_recv poll_recv" "base_cancel (ex_cancel xenv)" "serving_inv env xenv poll_recv ent hz W v w0"
  "\<lambda>b. request_came v (b_world b)" "\<lambda>b. reply_of v (b_world b)"
  for n and env :: "('w, 'q, 'req, 'resp, 'e) server_env" and poll_recv xenv ent hz W v w0
proof (unfold_locales, goal_cases)
  case (1 b)
  note i = serving_invD[OF 1]
  from holds_conj[OF base_poll_next_replies[OF i, of n] base_poll_next_came[OF replies_invD(1)[OF i(1)], of n]] replies_onward[OF 1]
  show ?case by (auto simp: base_channel_ops_def elim!: holds_mono)
next
  case (2 b r)
  note i = serving_invD[OF 2(1)]
  from base_start_send_replies[OF i 2(2)] replies_onward[OF 2(1)]
  show ?case by (auto simp: base_channel_ops_def elim!: holds_mono)
next
  case (3 b x b')
  then obtain p w where p: "tr_poll_ready (se_transport env) (b_world b) = (p, w)" and b': "b' = b\<lparr>b_world := w\<rparr>"
    by (auto simp: base_channel_ops_def base_poll_ready_def split: prod.splits)
  note log = server_loggedD(4)[OF handlers_lawsD(1)[OF serving_invD(2)[OF 3(1)]] p]
  from unseen_onward[OF 3(1) unseen_server_step[OF 3(1) ss_ready[OF p] log]] b' show ?case by simp
next
  case (4 b x b')
  then obtain p w where p: "tr_poll_flush (se_transport env) (b_world b) = (p, w)" and b': "b' = b\<lparr>b_world := w\<rparr>"
    by (auto simp: base_channel_ops_def base_poll_flush_def split: prod.splits)
  note log = server_loggedD(5)[OF handlers_lawsD(1)[OF serving_invD(2)[OF 4(1)]] p]
  from unseen_onward[OF 4(1) unseen_server_step[OF 4(1) ss_flush[OF p] log]] b' show ?case by simp
next
  case (5 b p b')
  then show ?case by (rule base_recv_replies)
next
  case (6 b i)
  note cancel = handlers_lawsD(7)[OF serving_invD(2)[OF 6] replies_invD(4)[OF serving_invD(1)[OF 6]], of i]
  from unseen_onward[OF 6 cancel[THEN conjunct1] cancel[THEN conjunct2]] show ?case by (simp add: base_cancel_def)
qed

section \<open>The handlers\<close>

text \<open>A handler that is sending has a result of the service for the request it was started with.\<close>

definition handler_ok :: "('w, 'req, 'resp) service_view \<Rightarrow> 'w \<Rightarrow> ('req, 'resp) execution \<Rightarrow> bool" where
  "handler_ok v w x \<longleftrightarrow> request_came v w (if_request (xn_request x)) \<and> (\<forall>r. xn_phase x = Sending r \<longrightarrow> reply_of v w r)"

lemma remembers_handler: "remembers v w w' \<Longrightarrow> handler_ok v w x \<Longrightarrow> handler_ok v w' x"
  by (simp add: handler_ok_def remembers_came remembers_reply)

text \<open>What a handler keeps between two calls.\<close>

definition handler_keeps :: "('w \<Rightarrow> bool) \<Rightarrow> ('w, 'req, 'resp) service_view \<Rightarrow> 'w \<Rightarrow> 'w \<Rightarrow> bool" where
  "handler_keeps W v w w' \<longleftrightarrow> W w' \<and> all_replies v w' \<and> remembers v w w' \<and> vw_log v w' = vw_log v w"

lemma execute_send_replies:
  assumes laws: "handlers_laws senv xenv poll_recv W v" and w: "W w" "all_replies v w" "reply_of v w r"
    and e: "execute_send xenv r w = (p, phase, w')"
  shows "handler_keeps W v w w'" "phase = Sending r"
proof -
  obtain q where q: "ex_send_poll xenv r w = (q, w')" and phase: "phase = Sending r"
    using e by (auto simp: execute_send_def split: prod.splits poll.splits)
  from handlers_lawsD(5)[OF laws w(1) q] have W: "W w'" "vw_log v w' = vw_log v w" "vw_results v w' = vw_results v w"
    and queue: "vw_queue v w' = vw_queue v w @ (if q = Ready True then [r] else [])" by simp_all
  have rem: "remembers v w w'" using W by (simp add: remembers_def)
  have "all_replies v w'"
    by (rule all_replies_step[OF w(2) rem]) (use queue W(2) remembers_reply[OF rem w(3)] in \<open>auto split: if_splits\<close>)
  with W rem show "handler_keeps W v w w'" by (simp add: handler_keeps_def)
  show "phase = Sending r" by (rule phase)
qed

lemma execute_body_replies:
  assumes laws: "handlers_laws senv xenv poll_recv W v" and w: "W w" "all_replies v w"
    and r: "request_came v w r" "\<And>resp. phase = Sending resp \<Longrightarrow> reply_of v w resp"
    and b: "execute_body xenv r (phase, w) = (p, phase', w')"
  shows "handler_keeps W v w w' \<and> (\<forall>resp. phase' = Sending resp \<longrightarrow> reply_of v w' resp)"
proof (cases phase)
  case Serving
  obtain q w1 where q: "ex_serve xenv (request_context r) (message r) w = (q, w1)" by fastforce
  from handlers_lawsD(4)[OF laws w(1) q] have W: "W w1" and same: "vw_log v w1 = vw_log v w" "vw_queue v w1 = vw_queue v w"
    and results: "vw_results v w1 = vw_results v w @ (case q of Ready res \<Rightarrow> [(request_context r, message r, res)] | Pending \<Rightarrow> [])" by simp_all
  have rem: "remembers v w w1" using same results by (simp add: remembers_def)
  have all: "all_replies v w1" by (rule all_replies_step[OF w(2) rem]) (use same in auto)
  show ?thesis
  proof (cases q)
    case Pending
    with b q Serving W rem all same show ?thesis by (simp add: handler_keeps_def)
  next
    case (Ready m)
    let ?resp = "\<lparr>request_id = id r, response_message = m\<rparr>"
    have e: "execute_send xenv ?resp w1 = (p, phase', w')" using b q Serving Ready by simp
    have "(request_context r, message r, m) \<in> set (vw_results v w1)" using results Ready by simp
    moreover from remembers_came[OF rem r(1)] obtain q where "SrvRead (Request q) \<in> set (vw_log v w1)" "id q = id r"
      "message q = message r" "deadline (request_context q) = deadline (request_context r)" unfolding request_came_def by blast
    ultimately have reply: "reply_of v w1 ?resp"
      unfolding reply_of_def by (intro exI[of _ q] conjI disjI2 exI[of _ "request_context r"]) simp_all
    note sent = execute_send_replies[OF laws W all reply e]
    then have "remembers v w1 w'" by (simp add: handler_keeps_def)
    with sent remembers_trans[OF rem this] remembers_reply[OF this reply] same show ?thesis
      by (simp add: handler_keeps_def)
  qed
next
  case (Sending resp)
  then have "execute_send xenv resp w = (p, phase', w')" using b by simp
  note sent = execute_send_replies[OF laws w r(2)[OF Sending] this]
  then have "remembers v w w'" by (simp add: handler_keeps_def)
  with sent remembers_reply[OF this r(2)[OF Sending]] show ?thesis by simp
qed

lemma execute_poll_replies:
  assumes laws: "handlers_laws senv xenv poll_recv W v" and w: "W w" "all_replies v w" and x: "handler_ok v w x"
    and poll: "execute_poll xenv x w = (p, x', w')"
  shows "handler_keeps W v w w' \<and> handler_ok v w' x'"
proof -
  let ?r = "xn_request x"
  obtain q phase w1 where q: "ex_abortable xenv (execute_body xenv (if_request ?r)) (if_abort_registration ?r) (xn_phase x, w) =
      (q, phase, w1)" by (metis prod_cases3)
  have came: "request_came v w (if_request ?r)" "\<And>resp. xn_phase x = Sending resp \<Longrightarrow> reply_of v w resp"
    using x by (simp_all add: handler_ok_def)
  have keeps: "handler_keeps W v w w1 \<and> (\<forall>resp. phase = Sending resp \<longrightarrow> reply_of v w1 resp)"
    using handlers_lawsD(2)[OF laws] q
  proof (cases rule: abortable_cases)
    case aborted
    with w came(2) show ?thesis by (simp add: handler_keeps_def)
  next
    case (polled q')
    from execute_body_replies[OF laws w came polled(1)] show ?thesis .
  qed
  have "w' = w1" "if_request (xn_request x') = if_request ?r" "xn_phase x' = phase"
    using poll q by (auto simp: execute_poll_def Let_def split: poll.splits)
  with keeps remembers_came[of v w w1, OF _ came(1)] show ?thesis by (simp add: handler_ok_def handler_keeps_def)
qed

end
