(* ===== verification/Connection.thy ===== *)
theory Connection
  imports Serving
begin

text \<open>
  Server connections: a channel, the stream \<^verbatim>\<open>Requests\<close> over it and the pool of handlers that an executor runs, over
  a \<^verbatim>\<open>BaseChannel\<close> or over a \<^verbatim>\<open>BaseChannel\<close> with a limit (\<^verbatim>\<open>MaxRequests\<close>).  The locale \<open>serving_connection\<close> is
  what the executor relies on, and both kinds of channel provide it.
\<close>

section \<open>Connections\<close>

text \<open>The operations of a channel with what the stream over it uses, and the \<^verbatim>\<open>BaseChannel\<close> that it is built on.\<close>

record ('s, 'w, 'q, 'req, 'resp, 'e) connection =
  cn_channel :: "nat \<Rightarrow> ('s, 'req, 'resp, 'e channel_error) channel"
  cn_recv :: "'s \<Rightarrow> 'resp response option poll \<times> 's"
  cn_cancel :: "'s \<Rightarrow> u64 \<Rightarrow> 's"
  cn_base :: "'s \<Rightarrow> ('w, 'q) base_channel"
  cn_at :: "'s \<Rightarrow> 'w \<Rightarrow> 's"

definition base_connection ::
  "('w, 'q, 'req, 'resp, 'e) server_env \<Rightarrow> ('w, 'req, 'resp) exec_env \<Rightarrow> ('w \<Rightarrow> 'resp response option poll \<times> 'w) \<Rightarrow>
   (('w, 'q) base_channel, 'w, 'q, 'req, 'resp, 'e) connection" where
  "base_connection senv xenv poll_recv =
     \<lparr>cn_channel = (\<lambda>n. base_channel_ops n senv), cn_recv = base_recv poll_recv, cn_cancel = base_cancel (ex_cancel xenv),
      cn_base = (\<lambda>b. b), cn_at = (\<lambda>b w. b\<lparr>b_world := w\<rparr>)\<rparr>"

definition limited_connection ::
  "('w, 'q, 'req, 'resp, 'e) server_env \<Rightarrow> ('w, 'req, 'resp) exec_env \<Rightarrow> ('w \<Rightarrow> 'resp response option poll \<times> 'w) \<Rightarrow>
   (('w, 'q) base_channel max_requests, 'w, 'q, 'req, 'resp, 'e) connection" where
  "limited_connection senv xenv poll_recv =
     \<lparr>cn_channel = (\<lambda>n. max_requests_ops n (base_channel_ops n senv)), cn_recv = limited_recv poll_recv,
      cn_cancel = limited_cancel (ex_cancel xenv), cn_base = mr_inner,
      cn_at = (\<lambda>m w. m\<lparr>mr_inner := (mr_inner m)\<lparr>b_world := w\<rparr>\<rparr>)\<rparr>"

text \<open>The stream and the handlers that it has handed out and that have not finished; a handler that is ready, or
  that the executor drops, is gone with its guard.  The executor polls the stream and the handlers in any order.\<close>

record ('s, 'req, 'resp) server_task =
  st_channel :: 's
  st_handlers :: "('req, 'resp) execution list"

datatype 'w task_act = PollRequests nat | PollHandler nat | DropHandler nat | Elsewhere "'w \<Rightarrow> 'w"

abbreviation st_base :: "('s, 'w, 'q, 'req, 'resp, 'e) connection \<Rightarrow> ('s, 'req, 'resp) server_task \<Rightarrow> ('w, 'q) base_channel" where
  "st_base cn t \<equiv> cn_base cn (st_channel t)"

abbreviation st_world :: "('s, 'w, 'q, 'req, 'resp, 'e) connection \<Rightarrow> ('s, 'req, 'resp) server_task \<Rightarrow> 'w" where
  "st_world cn t \<equiv> b_world (st_base cn t)"

abbreviation st_at ::
  "('s, 'w, 'q, 'req, 'resp, 'e) connection \<Rightarrow> ('s, 'req, 'resp) server_task \<Rightarrow> 'w \<Rightarrow> ('s, 'req, 'resp) server_task" where
  "st_at cn t w \<equiv> t\<lparr>st_channel := cn_at cn (st_channel t) w\<rparr>"

definition without :: "nat \<Rightarrow> 'a list \<Rightarrow> 'a list" where
  "without i xs = take i xs @ drop (Suc i) xs"

definition handler_done ::
  "('s, 'w, 'q, 'req, 'resp, 'e) connection \<Rightarrow> ('w, 'req, 'resp) exec_env \<Rightarrow> nat \<Rightarrow> ('req, 'resp) execution \<Rightarrow> 'w \<Rightarrow>
   ('s, 'req, 'resp) server_task \<Rightarrow> ('s, 'req, 'resp) server_task" where
  "handler_done cn xenv i x w t =
     (st_at cn t (response_guard_drop (ex_cancel xenv) (if_response_guard (xn_request x)) w))\<lparr>st_handlers := without i (st_handlers t)\<rparr>"

fun task_step ::
  "('s, 'w, 'q, 'req, 'resp, 'e) connection \<Rightarrow> ('w, 'req, 'resp) exec_env \<Rightarrow> 'w task_act \<Rightarrow> ('s, 'req, 'resp) server_task \<Rightarrow>
   ('s, 'req, 'resp) server_task outcome" where
  "task_step cn xenv (PollRequests n) t =
     obind (requests_poll_next n (cn_channel cn n) (cn_recv cn) (cn_cancel cn) (st_channel t)) (\<lambda>(p, s).
       Return (t\<lparr>st_channel := s,
                 st_handlers := st_handlers t @ (case p of Ready (Some (Ok r)) \<Rightarrow> [execution_start r] | _ \<Rightarrow> [])\<rparr>))"
| "task_step cn xenv (PollHandler i) t =
     (if i < length (st_handlers t) then
        (case execute_poll xenv (st_handlers t ! i) (st_world cn t) of
           (Pending, x, w) \<Rightarrow> Return ((st_at cn t w)\<lparr>st_handlers := (st_handlers t)[i := x]\<rparr>)
         | (Ready _, x, w) \<Rightarrow> Return (handler_done cn xenv i x w t))
      else Return t)"
| "task_step cn xenv (DropHandler i) t =
     (if i < length (st_handlers t) then Return (handler_done cn xenv i (st_handlers t ! i) (st_world cn t) t) else Return t)"
| "task_step cn xenv (Elsewhere g) t = Return (st_at cn t (g (st_world cn t)))"

fun task_run ::
  "('s, 'w, 'q, 'req, 'resp, 'e) connection \<Rightarrow> ('w, 'req, 'resp) exec_env \<Rightarrow> 'w task_act list \<Rightarrow> ('s, 'req, 'resp) server_task \<Rightarrow>
   ('s, 'req, 'resp) server_task outcome" where
  "task_run cn xenv [] t = Return t"
| "task_run cn xenv (a # acts) t = obind (task_step cn xenv a t) (task_run cn xenv acts)"

text \<open>A connection as \<^verbatim>\<open>BaseChannel::new\<close> and \<^verbatim>\<open>MaxRequests::new\<close> make it, before anything is handed out.\<close>

definition server_task_new :: "'s \<Rightarrow> ('s, 'req, 'resp) server_task" where
  "server_task_new s = \<lparr>st_channel = s, st_handlers = []\<rparr>"

section \<open>What the executor keeps\<close>

definition elsewhere_unseen :: "('w \<Rightarrow> bool) \<Rightarrow> ('w, 'req, 'resp) service_view \<Rightarrow> 'w task_act list \<Rightarrow> bool" where
  "elsewhere_unseen W v acts \<longleftrightarrow> (\<forall>g. Elsewhere g \<in> set acts \<longrightarrow> (\<forall>w. W w \<longrightarrow> W (g w) \<and> unseen v w (g w)))"

definition task_inv ::
  "('s, 'w, 'q, 'req, 'resp, 'e) connection \<Rightarrow> ('w, 'q, 'req, 'resp, 'e) server_env \<Rightarrow> ('w, 'req, 'resp) exec_env \<Rightarrow>
   ('w \<Rightarrow> 'resp response option poll \<times> 'w) \<Rightarrow>
   ('q \<Rightarrow> entries) \<Rightarrow> instant \<Rightarrow> ('w \<Rightarrow> bool) \<Rightarrow> ('w, 'req, 'resp) service_view \<Rightarrow> ('s, 'req, 'resp) server_task \<Rightarrow> bool" where
  "task_inv cn senv xenv poll_recv ent hz W v t \<longleftrightarrow>
     serving_inv senv xenv poll_recv ent hz W v (st_world cn t) (st_base cn t) \<and>
     (\<forall>x \<in> set (st_handlers t). handler_ok v (st_world cn t) x)"

lemma serving_inv_self:
  "serving_inv senv xenv poll_recv ent hz W v w0 b \<Longrightarrow> serving_inv senv xenv poll_recv ent hz W v (b_world b) b"
  by (simp add: serving_inv_def replies_inv_def)

lemma set_without: "set (without i xs) \<subseteq> set xs"
  by (auto simp: without_def dest: in_set_takeD in_set_dropD)

lemma handler_keeps_unseen: "all_replies v w \<Longrightarrow> W w' \<Longrightarrow> unseen v w w' \<Longrightarrow> handler_keeps W v w w'"
  by (auto simp: handler_keeps_def all_replies_unseen unseen_remembers) (simp add: unseen_def)

lemma handler_keeps_trans: "handler_keeps W v w w' \<Longrightarrow> handler_keeps W v w' w'' \<Longrightarrow> handler_keeps W v w w''"
  by (auto simp: handler_keeps_def intro: remembers_trans)

text \<open>The stream over the channel hands out requests that were read and writes replies only.\<close>

locale serving_connection =
  fixes cn :: "('s, 'w, 'q, 'req, 'resp, 'e) connection" and senv :: "('w, 'q, 'req, 'resp, 'e) server_env"
    and xenv :: "('w, 'req, 'resp) exec_env" and poll_recv :: "'w \<Rightarrow> 'resp response option poll \<times> 'w"
    and own :: "('resp, server_error) result set"
  assumes stream_law: "serving_inv senv xenv poll_recv ent hz W v w0 (cn_base cn s) \<Longrightarrow> own \<subseteq> vw_own v \<Longrightarrow>
      holds (requests_poll_next n (cn_channel cn n) (cn_recv cn) (cn_cancel cn) s) (\<lambda>(p, s').
        serving_inv senv xenv poll_recv ent hz W v w0 (cn_base cn s') \<and>
        (\<forall>r. p = Ready (Some (Ok r)) \<longrightarrow> request_came v (b_world (cn_base cn s')) (if_request r)))"
    and at_law: "cn_base cn (cn_at cn s w) = (cn_base cn s)\<lparr>b_world := w\<rparr>"
begin

lemma task_inv_world:
  assumes inv: "task_inv cn senv xenv poll_recv ent hz W v t" and w: "handler_keeps W v (st_world cn t) w"
    and hs: "\<And>x. x \<in> set hs \<Longrightarrow> x \<in> set (st_handlers t) \<or> handler_ok v w x"
  shows "task_inv cn senv xenv poll_recv ent hz W v ((st_at cn t w)\<lparr>st_handlers := hs\<rparr>)"
proof -
  have i: "serving_inv senv xenv poll_recv ent hz W v (st_world cn t) (st_base cn t)" using inv by (simp add: task_inv_def)
  have rem: "remembers v (st_world cn t) w" using w by (simp add: handler_keeps_def)
  have "replies_inv senv ent hz W v (st_world cn t) ((st_base cn t)\<lparr>b_world := w\<rparr>)"
    using replies_inv_world[OF serving_invD(1)[OF i]] w by (simp add: handler_keeps_def)
  then have "serving_inv senv xenv poll_recv ent hz W v w ((st_base cn t)\<lparr>b_world := w\<rparr>)"
    using serving_invD(2)[OF i] by (simp add: serving_inv_def replies_inv_def)
  moreover have "handler_ok v w x" if "x \<in> set hs" for x
    using hs[OF that] inv remembers_handler[OF rem] by (auto simp: task_inv_def)
  ultimately show ?thesis by (simp add: task_inv_def at_law)
qed

lemma handler_done_inv:
  assumes inv: "task_inv cn senv xenv poll_recv ent hz W v t" and w: "handler_keeps W v (st_world cn t) w"
  shows "task_inv cn senv xenv poll_recv ent hz W v (handler_done cn xenv i x w t)"
proof -
  have laws: "handlers_laws senv xenv poll_recv W v" using inv by (simp add: task_inv_def serving_inv_def)
  have W: "W w" "all_replies v w" using w by (simp_all add: handler_keeps_def)
  let ?g = "if_response_guard (xn_request x)"
  have "handler_keeps W v w (response_guard_drop (ex_cancel xenv) ?g w)"
    using handlers_lawsD(7)[OF laws W(1), of "rg_request_id ?g"] handler_keeps_unseen[OF W(2), of W] W
    by (auto simp: response_guard_drop_def handler_keeps_def)
  from task_inv_world[OF inv handler_keeps_trans[OF w this]] set_without[of i "st_handlers t"] show ?thesis
    unfolding handler_done_def by blast
qed

lemma task_step_inv:
  assumes inv: "task_inv cn senv xenv poll_recv ent hz W v t" and own: "own \<subseteq> vw_own v" and outside: "elsewhere_unseen W v [a]"
  shows "holds (task_step cn xenv a t) (task_inv cn senv xenv poll_recv ent hz W v)"
proof -
  have i: "serving_inv senv xenv poll_recv ent hz W v (st_world cn t) (st_base cn t)"
    and hs: "\<And>x. x \<in> set (st_handlers t) \<Longrightarrow> handler_ok v (st_world cn t) x" using inv by (simp_all add: task_inv_def)
  note laws = serving_invD(2)[OF i] and W = replies_invD(4,2)[OF serving_invD(1)[OF i]]
  have still: "handler_keeps W v (st_world cn t) (st_world cn t)" using W by (simp add: handler_keeps_def)
  show ?thesis
  proof (cases a)
    case (PollRequests n)
    show ?thesis unfolding PollRequests task_step.simps
    proof (rule holds_bind_pair[OF stream_law[OF i own]], goal_cases)
      case (1 p s)
      then have s: "serving_inv senv xenv poll_recv ent hz W v (st_world cn t) (cn_base cn s)" by simp
      then have rem: "remembers v (st_world cn t) (b_world (cn_base cn s))" by (simp add: serving_inv_def replies_inv_def)
      have started: "handler_ok v (b_world (cn_base cn s)) (execution_start r)" if "p = Ready (Some (Ok r))" for r
        using 1 that by (simp add: handler_ok_def execution_start_def)
      from serving_inv_self[OF s] started remembers_handler[OF rem hs] show ?case
        by (cases p rule: poll_option_result_cases) (auto simp: task_inv_def)
    qed
  next
    case (PollHandler j)
    show ?thesis
    proof (cases "j < length (st_handlers t)")
      case True
      obtain p x w where p: "execute_poll xenv (st_handlers t ! j) (st_world cn t) = (p, x, w)" by (metis prod_cases3)
      have x: "handler_keeps W v (st_world cn t) w" "handler_ok v w x"
        using execute_poll_replies[OF laws W hs[OF nth_mem[OF True]] p] by simp_all
      have "task_inv cn senv xenv poll_recv ent hz W v ((st_at cn t w)\<lparr>st_handlers := (st_handlers t)[j := x]\<rparr>)"
        by (rule task_inv_world[OF inv x(1)]) (use x(2) set_update_subset_insert[of "st_handlers t" j x] in auto)
      with PollHandler True p handler_done_inv[OF inv x(1)] show ?thesis by (cases p) simp_all
    qed (use PollHandler inv in simp)
  next
    case (DropHandler j)
    with inv handler_done_inv[OF inv still] show ?thesis by simp
  next
    case (Elsewhere g)
    with outside W have "handler_keeps W v (st_world cn t) (g (st_world cn t))"
      by (intro handler_keeps_unseen) (auto simp: elsewhere_unseen_def)
    from task_inv_world[OF inv this, of "st_handlers t"] Elsewhere show ?thesis by simp
  qed
qed

lemma task_run_inv:
  "task_inv cn senv xenv poll_recv ent hz W v t \<Longrightarrow> own \<subseteq> vw_own v \<Longrightarrow> elsewhere_unseen W v acts \<Longrightarrow>
   holds (task_run cn xenv acts t) (task_inv cn senv xenv poll_recv ent hz W v)"
proof (induction acts arbitrary: t)
  case (Cons a acts)
  then have "elsewhere_unseen W v [a]" "elsewhere_unseen W v acts" by (simp_all add: elsewhere_unseen_def)
  from holds_mono[OF task_step_inv[OF Cons.prems(1,2) this(1)] Cons.IH[OF _ Cons.prems(2) this(2)]] show ?case by simp
qed simp

lemma server_task_new_inv:
  assumes "handlers_laws senv xenv poll_recv W v" "delay_queue_laws (se_delay_queue senv) ent hz" "server_env_laws senv W hz"
    and "W w" "vw_log v w = []" "vw_queue v w = []" "cn_base cn s = base_channel_new (se_delay_queue senv) config w"
  shows "task_inv cn senv xenv poll_recv ent hz W v (server_task_new s)"
proof -
  let ?b = "base_channel_new (se_delay_queue senv) config w"
  have "b_world ?b = w" by (simp add: base_channel_new_def)
  with base_channel_new_inv[OF assms(2,3,4), of config] assms(1,5-7) handlers_lawsD(1)[OF assms(1)] show ?thesis
    by (simp add: task_inv_def server_task_new_def serving_inv_def replies_inv_def answering_def all_replies_def)
qed

text \<open>Whatever the executor does, every response that is written is a reply.\<close>

lemma written_replies:
  assumes "handlers_laws senv xenv poll_recv W v" "delay_queue_laws (se_delay_queue senv) ent hz" "server_env_laws senv W hz"
    and "W w" "vw_log v w = []" "vw_queue v w = []" "cn_base cn s = base_channel_new (se_delay_queue senv) config w"
    and "own \<subseteq> vw_own v" "elsewhere_unseen W v acts"
  shows "holds (task_run cn xenv acts (server_task_new s)) (\<lambda>t.
    \<forall>resp. SrvWrote resp \<in> set (vw_log v (st_world cn t)) \<longrightarrow> reply_of v (st_world cn t) resp)"
  by (rule holds_mono[OF task_run_inv[OF server_task_new_inv[OF assms(1-7)] assms(8,9)]])
    (simp add: task_inv_def serving_inv_def replies_inv_def all_replies_def)

end

section \<open>The two kinds of channel\<close>

interpretation plain: serving_connection "base_connection senv xenv poll_recv" senv xenv poll_recv "{}"
  for senv :: "('w, 'q, 'req, 'resp, 'e) server_env" and xenv poll_recv
proof (unfold_locales, goal_cases)
  case (1 ent hz W v w0 b n)
  then have "serving_inv senv xenv poll_recv ent hz W v w0 b" by (simp add: base_connection_def)
  from replies.requests_poll_next_reply[OF this, of n n] show ?case
    by (auto simp: base_connection_def onward_def elim!: holds_mono)
qed (simp add: base_connection_def)

text \<open>What a limited channel answers by itself.\<close>

definition throttle_error :: "('resp, server_error) result" where
  "throttle_error = Err \<lparr>kind = WouldBlock, detail = ''server throttled the request.''\<rparr>"

lemma throttle_reply:
  "request_came v w (tk_request t) \<Longrightarrow> throttle_error \<in> vw_own v \<Longrightarrow> reply_of v w (throttle_response t)"
  by (auto simp: request_came_def reply_of_def throttle_response_def throttle_error_def)

interpretation refusing: replying_contract
  "max_requests_ops k (base_channel_ops n senv)" "limited_recv poll_recv" "limited_cancel (ex_cancel xenv)"
  "\<lambda>m. serving_inv senv xenv poll_recv ent hz W v w0 (mr_inner m) \<and> throttle_error \<in> vw_own v"
  "\<lambda>m. request_came v (b_world (mr_inner m))" "\<lambda>m. reply_of v (b_world (mr_inner m))"
  for k n and senv :: "('w, 'q, 'req, 'resp, 'e) server_env" and poll_recv xenv ent hz W v w0
  by (rule replying_contract.limited_reply[OF replies.guarded_reply])
    (auto simp: throttle_reply limited_recv_def limited_cancel_def)

interpretation limited: serving_connection "limited_connection senv xenv poll_recv" senv xenv poll_recv "{throttle_error}"
  for senv :: "('w, 'q, 'req, 'resp, 'e) server_env" and xenv poll_recv
proof (unfold_locales, goal_cases)
  case (1 ent hz W v w0 m n)
  then have "serving_inv senv xenv poll_recv ent hz W v w0 (mr_inner m) \<and> throttle_error \<in> vw_own v"
    by (simp add: limited_connection_def)
  from refusing.requests_poll_next_reply[OF this, of n n n] show ?case
    by (auto simp: limited_connection_def onward_def elim!: holds_mono)
qed (simp add: limited_connection_def)

end
