(* ===== verification/Served_Calls.thy ===== *)
theory Served_Calls
  imports End_To_End Connection
begin

text \<open>
  The theorems on served calls: what a server connection writes are the results of its service (\<open>Serving\<close>), and over
  a connection to a client (\<open>End_To_End\<close>) the result that a caller gets is what the service returned for the
  message of that caller.
\<close>

section \<open>A client and a serving connection\<close>

text \<open>What the handlers and the stream call beside the channel.\<close>

inductive handler_step ::
  "('w, 'req, 'resp) exec_env \<Rightarrow> ('w \<Rightarrow> 'resp response option poll \<times> 'w) \<Rightarrow> 'w \<Rightarrow> 'w \<Rightarrow> bool" for xenv poll_recv where
  hs_serve: "ex_serve xenv c m w = (p, w') \<Longrightarrow> handler_step xenv poll_recv w w'"
| hs_send: "ex_send_poll xenv r w = (s, w') \<Longrightarrow> handler_step xenv poll_recv w w'"
| hs_recv: "poll_recv w = (q, w') \<Longrightarrow> handler_step xenv poll_recv w w'"
| hs_cancel: "ex_cancel xenv w i = w' \<Longrightarrow> handler_step xenv poll_recv w w'"

text \<open>The handlers leave the links alone, and the client leaves the results and the queue of responses alone.\<close>

definition handlers_apart ::
  "('w, 'q, 'req, 'resp, 'e) client_env \<Rightarrow> ('w, 'req, 'resp) exec_env \<Rightarrow> ('w \<Rightarrow> 'resp response option poll \<times> 'w) \<Rightarrow>
   ('w \<Rightarrow> bool) \<Rightarrow> ('w \<Rightarrow> 'req client_message list) \<Rightarrow> ('w \<Rightarrow> 'resp response list) \<Rightarrow> ('w \<Rightarrow> u64 set) \<Rightarrow> ('w, 'req, 'resp) service_view \<Rightarrow> bool" where
  "handlers_apart cenv xenv poll_recv W up down upcoming v \<longleftrightarrow>
     (\<forall>w w'. W w \<longrightarrow> handler_step xenv poll_recv w w' \<longrightarrow> up w' = up w \<and> down w' = down w \<and> upcoming w' \<subseteq> upcoming w) \<and>
     (\<forall>w w'. W w \<longrightarrow> env_step cenv w w' \<longrightarrow> vw_results v w' = vw_results v w \<and> vw_queue v w' = vw_queue v w)"

definition elsewhere_apart ::
  "('w \<Rightarrow> bool) \<Rightarrow> ('w \<Rightarrow> 'req client_message list) \<Rightarrow> ('w \<Rightarrow> 'resp response list) \<Rightarrow> ('w \<Rightarrow> u64 set) \<Rightarrow>
   ('w, 'req, 'resp) service_view \<Rightarrow> 'w task_act list \<Rightarrow> bool" where
  "elsewhere_apart W up down upcoming v acts \<longleftrightarrow> (\<forall>g. Elsewhere g \<in> set acts \<longrightarrow>
     (\<forall>w. W w \<longrightarrow> W (g w) \<and> unseen v w (g w) \<and> up (g w) = up w \<and> down (g w) = down w \<and> upcoming (g w) \<subseteq> upcoming w))"

datatype 'w call_act = CallerTask nat | ServingTask "'w task_act"

type_synonym ('s, 'w, 'q, 'req, 'resp, 'e) calls =
  "('w \<times> ('req, 'resp, 'e) event list, 'q, 'e) dispatch \<times> ('s, 'req, 'resp) server_task"

fun calls_run ::
  "('w, 'q, 'req, 'resp, 'e) client_env \<Rightarrow> ('s, 'w, 'p, 'req, 'resp, 'e) connection \<Rightarrow> ('w, 'req, 'resp) exec_env \<Rightarrow>
   'w call_act list \<Rightarrow> ('s, 'w, 'q, 'req, 'resp, 'e) calls \<Rightarrow> ('s, 'w, 'q, 'req, 'resp, 'e) calls outcome" where
  "calls_run cenv cn xenv [] (d, t) = Return (d, t)"
| "calls_run cenv cn xenv (CallerTask n # acts) (d, t) =
     obind (dispatch_poll n (recording cenv) d) (\<lambda>(_, d).
       calls_run cenv cn xenv acts (d, st_at cn t (fst (d_world d))))"
| "calls_run cenv cn xenv (ServingTask a # acts) (d, t) =
     obind (task_step cn xenv a (st_at cn t (fst (d_world d)))) (\<lambda>t.
       calls_run cenv cn xenv acts (d\<lparr>d_world := (st_world cn t, snd (d_world d))\<rparr>, t))"

definition calls_inv ::
  "('w, 'q, 'req, 'resp, 'e) client_env \<Rightarrow> ('s, 'w, 'p, 'req, 'resp, 'e) connection \<Rightarrow> ('w, 'p, 'req, 'resp, 'e) server_env \<Rightarrow>
   ('q \<Rightarrow> entries) \<Rightarrow> ('p \<Rightarrow> entries) \<Rightarrow> instant \<Rightarrow> instant \<Rightarrow> ('w \<Rightarrow> bool) \<Rightarrow> ('w \<Rightarrow> 'req client_message list) \<Rightarrow>
   ('w \<Rightarrow> 'resp response list) \<Rightarrow> ('w \<Rightarrow> u64 set) \<Rightarrow> ('w, 'req, 'resp) service_view \<Rightarrow> ('s, 'w, 'q, 'req, 'resp, 'e) calls \<Rightarrow> bool" where
  "calls_inv cenv cn senv ent ent' hz hz' W up down upcoming v dt \<longleftrightarrow> (case dt of (d, t) \<Rightarrow>
     system_inv cenv senv ent ent' hz hz' W up down (vw_log v) upcoming (d, st_base cn t) \<and>
     all_replies v (fst (d_world d)) \<and> (\<forall>x \<in> set (st_handlers t). handler_ok v (fst (d_world d)) x))"

text \<open>The client's turn: what the world shows of the server does not change.\<close>

lemma client_poll_unseen:
  assumes c: "connected cenv senv W up down (vw_log v)" and laws: "client_env_laws cenv W upcoming hz"
    and apart: "handlers_apart cenv xenv poll_recv W up down upcoming v"
    and inv: "system_inv cenv senv ent ent' hz hz' W up down (vw_log v) upcoming (d, b)"
  shows "holds (dispatch_poll n (recording cenv) d) (\<lambda>(p, d'). unseen v (fst (d_world d)) (fst (d_world d')))"
proof -
  let ?W = "\<lambda>wl :: 'a \<times> ('c, 'd, 'e) event list. W (fst wl) \<and> unseen v (fst (d_world d)) (fst wl)" and ?U = "\<lambda>wl. upcoming (fst wl)"
  have step: "W w' \<and> unseen v w0 w'" if "W w" "unseen v w0 w" "env_step cenv w w'" for w0 w w'
    using that client_env_laws_step[OF laws that(1,3)] connectedD(5)[OF c that(1,3)] apart
    by (auto simp: unseen_def handlers_apart_def)
  have "client_env_laws (recording cenv) ?W ?U hz"
    unfolding client_env_laws_def
  proof (intro conjI allI impI)
    fix wl wl' assume W: "?W wl" and "env_step (recording cenv) wl wl'"
    note s = recording_env_step[OF this(2)]
    from step[OF _ _ s] client_env_laws_step[OF laws _ s] W
    show "W (fst wl')" "unseen v (fst (d_world d)) (fst wl')" "upcoming (fst wl') \<subseteq> upcoming (fst wl)" by simp_all
  next
    fix wl r wl' assume "?W wl" "ce_pending_poll_recv (recording cenv) wl = (Ready (Some r), wl')"
    with client_env_laws_recv[OF laws, of "fst wl" r "fst wl'"]
    show "dr_request_id r \<in> upcoming (fst wl)" "dr_request_id r \<notin> upcoming (fst wl')" "deadline (dr_ctx r) \<le> hz" by simp_all
  qed (use client_env_laws_now[OF laws] in simp)
  moreover have d: "dispatch_inv (recording cenv) ent hz (\<lambda>wl. W (fst wl)) ?U d" "wire_inv upcoming d"
    using inv by (simp_all add: system_inv_def)
  moreover have "unseen v (fst (d_world d)) (fst (d_world d))" by (simp add: unseen_def)
  ultimately have "dispatch_inv (recording cenv) ent hz ?W ?U d" unfolding dispatch_inv_def by blast
  from wire.poll_keeps[OF this d(2), of n] show ?thesis
  proof (rule holds_pair_mono)
    fix p d' assume "dispatch_inv (recording cenv) ent hz ?W ?U d' \<and> wire_inv upcoming d'"
    from dispatch_invD(3)[OF this[THEN conjunct1]] show "unseen v (fst (d_world d)) (fst (d_world d'))" by simp
  qed
qed

text \<open>The server's turn: the same laws hold with the logs in step.\<close>

lemma handlers_world_laws:
  assumes c: "connected cenv senv W up down (vw_log v)" and laws: "handlers_laws senv xenv poll_recv W v"
    and apart: "handlers_apart cenv xenv poll_recv W up down upcoming v"
  shows "handlers_laws senv xenv poll_recv (server_world W up down (vw_log v) upcoming clog U) v"
proof -
  let ?W = "server_world W up down (vw_log v) upcoming clog U"
  have W: "W w" if "?W w" for w using that by (simp add: server_world_def)
  have keeps: "?W w'" if "?W w" "handler_step xenv poll_recv w w'" "W w'" "vw_log v w' = vw_log v w" for w w'
    using that apart unfolding handlers_apart_def server_world_def in_step_def by fastforce
  note l = handlers_lawsD[OF laws] and k = keeps[OF _ hs_serve] keeps[OF _ hs_send] keeps[OF _ hs_recv] keeps[OF _ hs_cancel[OF refl]]
  show ?thesis
    unfolding handlers_laws_def
  proof (intro conjI allI impI)
    fix w c m p w' assume a: "?W w" "ex_serve xenv c m w = (p, w')"
    with l(4)[OF W[OF a(1)] a(2)] k(1)[OF a] show "?W w'" "vw_log v w' = vw_log v w" "vw_queue v w' = vw_queue v w"
      "vw_results v w' = vw_results v w @ (case p of Ready res \<Rightarrow> [(c, m, res)] | Pending \<Rightarrow> [])" by simp_all
  next
    fix w r p w' assume a: "?W w" "ex_send_poll xenv r w = (p, w')"
    with l(5)[OF W[OF a(1)] a(2)] k(2)[OF a] show "?W w'" "vw_log v w' = vw_log v w" "vw_results v w' = vw_results v w"
      "vw_queue v w' = vw_queue v w @ (if p = Ready True then [r] else [])" by simp_all
  next
    fix w p w' assume a: "?W w" "poll_recv w = (p, w')"
    with l(6)[OF W[OF a(1)] a(2)] k(3)[OF a] show "?W w'" "vw_log v w' = vw_log v w" "vw_results v w' = vw_results v w"
      "vw_queue v w = (case p of Ready (Some r) \<Rightarrow> [r] | _ \<Rightarrow> []) @ vw_queue v w'" by simp_all
  next
    fix w i assume a: "?W w"
    with l(7)[OF W[OF a], of i] k(4)[OF a, of i] show "?W (ex_cancel xenv w i)" "unseen v w (ex_cancel xenv w i)"
      by (simp_all add: unseen_def)
  qed (use l(1,2,3) W in blast)+
qed

definition acts_apart ::
  "('w \<Rightarrow> bool) \<Rightarrow> ('w \<Rightarrow> 'req client_message list) \<Rightarrow> ('w \<Rightarrow> 'resp response list) \<Rightarrow> ('w \<Rightarrow> u64 set) \<Rightarrow>
   ('w, 'req, 'resp) service_view \<Rightarrow> 'w call_act list \<Rightarrow> bool" where
  "acts_apart W up down upcoming v acts \<longleftrightarrow> (\<forall>a. ServingTask a \<in> set acts \<longrightarrow> elsewhere_apart W up down upcoming v [a])"

text \<open>A result that a caller got is a result of the service.\<close>

lemma calls_inv_served:
  assumes inv: "calls_inv cenv cn senv ent ent' hz hz' W up down upcoming v (d, t)"
    and got: "Completed os (map_err Server m) \<in> set (snd (d_world d))"
  shows "\<exists>r. dr_response_completion r = os \<and> Received (Ready (Some r)) \<in> set (snd (d_world d)) \<and>
    (m \<in> vw_own v \<or> (\<exists>c. deadline c = deadline (dr_ctx r) \<and> (c, dr_request r, m) \<in> set (vw_results v (fst (d_world d)))))"
proof -
  let ?w = "fst (d_world d)" and ?clog = "snd (d_world d)"
  have s: "in_step up down (vw_log v) ?clog ?w" "srv_answers {} (vw_log v ?w)" "answered ?clog os m" "wire_inv upcoming d" "all_replies v ?w"
    using inv got by (auto simp: calls_inv_def system_inv_def answering_def answer_inv_def)
  then obtain st where st: "wire_run ?clog = Some st" by (auto simp: wire_inv_def)
  obtain r where r: "dr_response_completion r = os" "Received (Ready (Some r)) \<in> set ?clog"
    "SrvRead (request_message r) \<in> set (vw_log v ?w)" "SrvWrote \<lparr>request_id = dr_request_id r, response_message = m\<rparr> \<in> set (vw_log v ?w)"
    using in_step_read[OF s(1,2) st s(3)] by blast
  then have "reply_of v ?w \<lparr>request_id = dr_request_id r, response_message = m\<rparr>" using s(5) by (simp add: all_replies_def)
  then obtain q where q: "SrvRead (Request q) \<in> set (vw_log v ?w)" "id q = dr_request_id r"
    "m \<in> vw_own v \<or> (\<exists>c. deadline c = deadline (request_context q) \<and> (c, message q, m) \<in> set (vw_results v ?w))"
    by (auto simp: reply_of_def)
  obtain q' where q': "request_message r = Request q'" "id q' = dr_request_id r" "message q' = dr_request r"
    "deadline (request_context q') = deadline (dr_ctx r)" by (simp add: request_message_def)
  have "distinct (map id (requests_of (reads (vw_log v ?w))))"
    using wire_run_requested[OF st] s(1) by (simp add: in_step_def)
  moreover have "q \<in> set (requests_of (reads (vw_log v ?w)))" "q' \<in> set (requests_of (reads (vw_log v ?w)))"
    using q(1) r(3) q'(1) by (simp_all add: in_requests_of in_reads)
  ultimately have "q' = q" using q(2) q'(2) by (simp add: distinct_map inj_on_def)
  with q q' r show ?thesis by (intro exI[of _ r]) simp
qed

context serving_connection
begin

lemma calls_client_poll:
  assumes c: "connected cenv senv W up down (vw_log v)" and laws: "client_env_laws cenv W upcoming hz"
    and apart: "handlers_apart cenv xenv poll_recv W up down upcoming v"
    and inv: "calls_inv cenv cn senv ent ent' hz hz' W up down upcoming v (d, t)"
  shows "holds (dispatch_poll n (recording cenv) d) (\<lambda>(p, d').
    calls_inv cenv cn senv ent ent' hz hz' W up down upcoming v (d', st_at cn t (fst (d_world d'))))"
proof -
  have i: "system_inv cenv senv ent ent' hz hz' W up down (vw_log v) upcoming (d, st_base cn t)" "all_replies v (fst (d_world d))"
    "\<And>x. x \<in> set (st_handlers t) \<Longrightarrow> handler_ok v (fst (d_world d)) x" using inv by (simp_all add: calls_inv_def)
  from holds_conj[OF client_poll_unseen[OF c laws apart i(1)] system_client_poll[OF c laws i(1)], of n] show ?thesis
  proof (rule holds_mono, goal_cases)
    case (1 x)
    obtain p d' where x: "x = (p, d')" by (cases x)
    with 1 have u: "unseen v (fst (d_world d)) (fst (d_world d'))" by simp
    from 1 x all_replies_unseen[OF i(2) u] remembers_handler[OF unseen_remembers[OF u] i(3)] show ?case
      by (simp add: calls_inv_def at_law)
  qed
qed

lemma calls_server_act:
  assumes c: "connected cenv senv W up down (vw_log v)" and laws: "server_env_laws senv W hz'" "leaves_ids senv W upcoming"
    and handlers: "handlers_laws senv xenv poll_recv W v" "handlers_apart cenv xenv poll_recv W up down upcoming v"
    and inv: "calls_inv cenv cn senv ent ent' hz hz' W up down upcoming v (d, t)" and own: "own \<subseteq> vw_own v" and outside: "elsewhere_apart W up down upcoming v [a]"
  shows "holds (task_step cn xenv a (st_at cn t (fst (d_world d)))) (\<lambda>t'.
    calls_inv cenv cn senv ent ent' hz hz' W up down upcoming v (d\<lparr>d_world := (st_world cn t', snd (d_world d))\<rparr>, t'))"
proof -
  let ?W = "server_world W up down (vw_log v) upcoming (snd (d_world d)) (upcoming (fst (d_world d)))"
  have i: "system_inv cenv senv ent ent' hz hz' W up down (vw_log v) upcoming (d, st_base cn t)" "all_replies v (fst (d_world d))"
    "\<And>x. x \<in> set (st_handlers t) \<Longrightarrow> handler_ok v (fst (d_world d)) x" using inv by (simp_all add: calls_inv_def)
  have "task_inv cn senv xenv poll_recv ent' hz' ?W v (st_at cn t (fst (d_world d)))"
    using system_server_before[OF c laws i(1)] i(2,3) handlers_world_laws[OF c handlers]
    by (simp add: task_inv_def serving_inv_def replies_inv_def at_law)
  moreover have "elsewhere_unseen ?W v [a]"
    using outside unfolding elsewhere_unseen_def elsewhere_apart_def server_world_def in_step_def unseen_def by fastforce
  ultimately have "holds (task_step cn xenv a (st_at cn t (fst (d_world d)))) (task_inv cn senv xenv poll_recv ent' hz' ?W v)"
    using task_step_inv own by blast
  then show ?thesis
  proof (rule holds_mono)
    fix t' assume t': "task_inv cn senv xenv poll_recv ent' hz' ?W v t'"
    then have "answering senv ent' hz' ?W (vw_log v) (st_base cn t')" by (simp add: task_inv_def serving_inv_def replies_inv_def)
    from system_server_after[OF laws(1) i(1) this] t'
    show "calls_inv cenv cn senv ent ent' hz hz' W up down upcoming v (d\<lparr>d_world := (st_world cn t', snd (d_world d))\<rparr>, t')"
      by (simp add: calls_inv_def task_inv_def serving_inv_def replies_inv_def)
  qed
qed

lemma calls_run_inv:
  assumes c: "connected cenv senv W up down (vw_log v)" and laws: "client_env_laws cenv W upcoming hz" "server_env_laws senv W hz'"
    "leaves_ids senv W upcoming"
    and handlers: "handlers_laws senv xenv poll_recv W v" "handlers_apart cenv xenv poll_recv W up down upcoming v"
    and inv: "calls_inv cenv cn senv ent ent' hz hz' W up down upcoming v (d, t)" and own: "own \<subseteq> vw_own v" and outside: "acts_apart W up down upcoming v acts"
  shows "holds (calls_run cenv cn xenv acts (d, t)) (calls_inv cenv cn senv ent ent' hz hz' W up down upcoming v)"
  using inv outside
proof (induction acts arbitrary: d t)
  case (Cons act acts)
  have rest: "acts_apart W up down upcoming v acts" using Cons.prems(2) by (simp add: acts_apart_def)
  show ?case
  proof (cases act)
    case (CallerTask n)
    show ?thesis unfolding CallerTask calls_run.simps
      by (rule holds_bind_pair[OF calls_client_poll[OF c laws(1) handlers(2) Cons.prems(1)]]) (simp add: Cons.IH[OF _ rest])
  next
    case (ServingTask a)
    then have "elsewhere_apart W up down upcoming v [a]" using Cons.prems(2) by (simp add: acts_apart_def)
    from calls_server_act[OF c laws(2,3) handlers Cons.prems(1) own this] show ?thesis
      unfolding ServingTask calls_run.simps holds_obind by (rule holds_mono) (simp add: Cons.IH[OF _ rest])
  qed
qed simp

text \<open>What a caller gets from a connection that starts with nothing on its way.\<close>

lemma calls_run_served:
  assumes "connected cenv senv W up down (vw_log v)"
    and "delay_queue_laws (ce_delay_queue cenv) ent hz" "client_env_laws cenv W upcoming hz"
    and "delay_queue_laws (se_delay_queue senv) ent' hz'" "server_env_laws senv W hz'" "leaves_ids senv W upcoming"
    and "handlers_laws senv xenv poll_recv W v" "handlers_apart cenv xenv poll_recv W up down upcoming v"
    and "W w" "up w = []" "down w = []" "vw_log v w = []" "vw_queue v w = []"
    and "dispatch_new mpsc_channel (ce_delay_queue cenv) config w0 = Return d" "d_world d = (w, [])"
    and "cn_base cn s = base_channel_new (se_delay_queue senv) config' w" "own \<subseteq> vw_own v" "acts_apart W up down upcoming v acts"
  shows "holds (calls_run cenv cn xenv acts (d, server_task_new s)) (\<lambda>(d', t').
    \<forall>os m. Completed os (map_err Server m) \<in> set (snd (d_world d')) \<longrightarrow>
      (\<exists>r. dr_response_completion r = os \<and> Received (Ready (Some r)) \<in> set (snd (d_world d')) \<and>
        (m \<in> vw_own v \<or> (\<exists>c. deadline c = deadline (dr_ctx r) \<and> (c, dr_request r, m) \<in> set (vw_results v (fst (d_world d')))))))"
proof -
  have "system_inv cenv senv ent ent' hz hz' W up down (vw_log v) upcoming (d, base_channel_new (se_delay_queue senv) config' w)"
    by (rule system_inv_start[OF assms(1-5) assms(9-12) assms(14,15)])
  then have "calls_inv cenv cn senv ent ent' hz hz' W up down upcoming v (d, server_task_new s)"
    using assms(12,13,15,16) by (simp add: calls_inv_def server_task_new_def all_replies_def)
  from calls_run_inv[OF assms(1,3,5-8) this assms(17,18)] show ?thesis
    by (rule holds_mono) (use calls_inv_served in blast)
qed

end

section \<open>A service that doubles numbers\<close>

text \<open>The network of \<open>End_To_End\<close> with a service that returns the double of every message.\<close>

record hosted = net +
  ho_queue :: "nat response list"
  ho_results :: "(rpc_context \<times> nat \<times> (nat, server_error) result) list"

definition doubling :: "(hosted, nat, nat) exec_env" where
  "doubling =
     \<lparr>ex_serve = (\<lambda>c m w. (Ready (Ok (2 * m)), w\<lparr>ho_results := ho_results w @ [(c, m, Ok (2 * m))]\<rparr>)),
      ex_send_poll = (\<lambda>r w. (Ready True, w\<lparr>ho_queue := ho_queue w @ [r]\<rparr>)),
      ex_cancel = (\<lambda>w i. w),
      ex_is_aborted = (\<lambda>w h. False),
      ex_abortable = (\<lambda>body h pw. case body pw of (Ready u, pw') \<Rightarrow> (Ready (Ok u), pw') | (Pending, pw') \<Rightarrow> (Pending, pw'))\<rparr>"

definition hosted_recv :: "hosted \<Rightarrow> nat response option poll \<times> hosted" where
  "hosted_recv w = (waiting_for (ho_queue w), w\<lparr>ho_queue := tl (ho_queue w)\<rparr>)"

definition hosted_view :: "(nat, server_error) result set \<Rightarrow> (hosted, nat, nat) service_view" where
  "hosted_view own = \<lparr>vw_log = nt_log, vw_results = ho_results, vw_queue = ho_queue, vw_own = own\<rparr>"

lemma hosted_server_step: "server_step net_server w w' \<Longrightarrow> ho_results w' = ho_results w \<and> ho_queue w' = ho_queue w"
  by (erule server_step.cases) (auto simp: net_defs)

lemma hosted_client_step: "env_step net_client w w' \<Longrightarrow> ho_results w' = ho_results w \<and> ho_queue w' = ho_queue w"
  by (erule env_step.cases) (auto simp: net_defs split: if_splits)

lemma net_server_logged: "server_logged net_server nt_log"
  by (rule connectedD(8)[OF net_connected])

lemma hosted_laws:
  "handlers_laws net_server doubling hosted_recv net_ok (hosted_view own)"
  "handlers_apart net_client doubling hosted_recv net_ok nt_up nt_down net_ids (hosted_view own)"
proof -
  show "handlers_laws net_server doubling hosted_recv net_ok (hosted_view own)"
    unfolding handlers_laws_def
  proof (intro conjI)
    show "abortable_laws doubling" by (auto simp: abortable_laws_def doubling_def split: poll.splits prod.splits)
    show "\<forall>w w'. net_ok w \<longrightarrow> server_step net_server w w' \<longrightarrow>
        vw_results (hosted_view own) w' = vw_results (hosted_view own) w \<and> vw_queue (hosted_view own) w' = vw_queue (hosted_view own) w"
      by (simp add: hosted_view_def hosted_server_step)
    show "\<forall>w p w'. net_ok w \<longrightarrow> hosted_recv w = (p, w') \<longrightarrow> net_ok w' \<and> vw_log (hosted_view own) w' = vw_log (hosted_view own) w \<and>
        vw_results (hosted_view own) w' = vw_results (hosted_view own) w \<and>
        vw_queue (hosted_view own) w = (case p of Ready (Some r) \<Rightarrow> [r] | _ \<Rightarrow> []) @ vw_queue (hosted_view own) w'"
      by (auto simp: hosted_recv_def hosted_view_def net_ok_def waiting_for_cases split: list.splits)
  qed (auto simp: hosted_view_def doubling_def net_ok_def unseen_def net_server_logged)
  show "handlers_apart net_client doubling hosted_recv net_ok nt_up nt_down net_ids (hosted_view own)"
    unfolding handlers_apart_def
  proof (intro conjI allI impI)
    fix w w' assume "handler_step doubling hosted_recv w w'"
    then have "nt_up w' = nt_up w \<and> nt_down w' = nt_down w \<and> nt_pending w' = nt_pending w"
      by cases (auto simp: doubling_def hosted_recv_def)
    then show "nt_up w' = nt_up w" "nt_down w' = nt_down w" "net_ids w' \<subseteq> net_ids w" by (simp_all add: net_ids_def)
  qed (simp_all add: hosted_view_def hosted_client_step)
qed

definition hosted_start :: "nat dispatch_request list \<Rightarrow> nat client_message list \<Rightarrow> hosted" where
  "hosted_start pending arriving =
     \<lparr>nt_up = arriving, nt_down = [], nt_log = [], nt_pending = pending, nt_handles = 0, ho_queue = [], ho_results = []\<rparr>"

abbreviation two_calls :: hosted where
  "two_calls \<equiv> hosted_start [sample_request 0, (sample_request 1)\<lparr>dr_request := 7\<rparr>] []"

abbreviation two_arrived :: hosted where
  "two_arrived \<equiv> hosted_start [] [request_message (sample_request 0), request_message ((sample_request 1)\<lparr>dr_request := 7\<rparr>)]"

text \<open>The second handler is run before the first.\<close>

definition hosted_turns :: "hosted task_act list" where
  "hosted_turns = [PollRequests 9, PollRequests 9, PollHandler 1, PollHandler 0, PollRequests 9]"

lemma hosted_queues:
  "delay_queue_laws (ce_delay_queue (net_client :: (hosted, _, _, _, _) client_env)) map_of 100"
  "delay_queue_laws (se_delay_queue (net_server :: (hosted, _, _, _, _) server_env)) map_of 100"
  by (simp_all add: net_client_def net_server_def ref_delay_queue_laws)

lemma hosted_connected: "connected net_client net_server net_ok nt_up nt_down (vw_log (hosted_view own))"
  using net_connected by (simp add: hosted_view_def)

lemma two_calls_ok: "net_ok two_calls"
  by (simp add: net_ok_def hosted_start_def sample_request_def sample_context_def)

section \<open>Theorems\<close>

text \<open>C6: A server connection (a \<^verbatim>\<open>BaseChannel\<close>, the stream \<^verbatim>\<open>Requests\<close> over it, and a pool of handlers) whose stream
  and handlers are polled, or dropped, in any order: every response that is handed to the transport carries the
  result that the service returned for the message and the deadline of a request with that id that was read.  The
  peer may send any requests and cancellations, with ids used twice and in any order, as long as the deadlines of its
  requests are within what the delay queue accepts (\<open>hz\<close>); then nothing panics.  What a deadline beyond that does is
  shown in \<open>Server_Panics\<close>.\<close>

theorem served_responses:
  assumes "handlers_laws senv xenv poll_recv W v" "delay_queue_laws (se_delay_queue senv) ent hz" "server_env_laws senv W hz"
    and "W w" "vw_log v w = []" "vw_queue v w = []" "vw_own v = {}" "elsewhere_unseen W v acts"
  shows "holds (task_run (base_connection senv xenv poll_recv) xenv acts
      (server_task_new (base_channel_new (se_delay_queue senv) config w))) (\<lambda>t.
    \<forall>resp. SrvWrote resp \<in> set (vw_log v (b_world (st_channel t))) \<longrightarrow>
      (\<exists>q c. SrvRead (Request q) \<in> set (vw_log v (b_world (st_channel t))) \<and> id q = request_id resp \<and>
        deadline c = deadline (request_context q) \<and>
        (c, message q, response_message resp) \<in> set (vw_results v (b_world (st_channel t)))))"
proof -
  let ?cn = "base_connection senv xenv poll_recv" and ?b = "base_channel_new (se_delay_queue senv) config w"
  have base: "cn_base ?cn s = s" for s by (simp add: base_connection_def)
  have own: "{} \<subseteq> vw_own v" by simp
  from plain.written_replies[OF assms(1-6) base own assms(8)] show ?thesis
    by (rule holds_mono) (auto simp: reply_of_def base assms(7))
qed

theorem served_responses_witness:
  "holds (task_run (base_connection net_server doubling hosted_recv) doubling hosted_turns
      (server_task_new (base_channel_new (se_delay_queue (net_server :: (hosted, _, _, _, _) server_env)) server_config_default two_arrived))) (\<lambda>t.
    \<forall>resp. SrvWrote resp \<in> set (nt_log (b_world (st_channel t))) \<longrightarrow>
      (\<exists>q c. SrvRead (Request q) \<in> set (nt_log (b_world (st_channel t))) \<and> id q = request_id resp \<and>
        deadline c = deadline (request_context q) \<and> (c, message q, response_message resp) \<in> set (ho_results (b_world (st_channel t))))) \<and>
   (case task_run (base_connection net_server doubling hosted_recv) doubling hosted_turns
      (server_task_new (base_channel_new (se_delay_queue (net_server :: (hosted, _, _, _, _) server_env)) server_config_default two_arrived)) of
      Return t \<Rightarrow> writes (nt_log (b_world (st_channel t))) =
        [\<lparr>request_id = 1, response_message = Ok 14\<rparr>, \<lparr>request_id = 0, response_message = Ok 10\<rparr>]
    | _ \<Rightarrow> False)"
  (is "?safe \<and> ?run")
proof
  have "net_ok two_arrived"
    by (simp add: net_ok_def hosted_start_def request_message_def sample_request_def sample_context_def request_deadline_def)
  from served_responses[OF hosted_laws(1)[of "{}"] hosted_queues(2) net_server_laws(1) this, of hosted_turns server_config_default] show ?safe
    by (simp add: hosted_view_def hosted_start_def elsewhere_unseen_def hosted_turns_def)
  show ?run by code_simp
qed

text \<open>C1: End to end with the service.  A client's dispatch task and a server connection with its handlers, over two
  lossless links, polled in any order: every result of the server that a caller is given is what the service
  returned for the message of that caller, under the deadline of that caller.  Neither side panics, the deadlines
  being within what the delay queues of both sides accept.\<close>

theorem calls_are_served:
  assumes "connected cenv senv W up down (vw_log v)"
    and "delay_queue_laws (ce_delay_queue cenv) ent hz" "client_env_laws cenv W upcoming hz"
    and "delay_queue_laws (se_delay_queue senv) ent' hz'" "server_env_laws senv W hz'" "leaves_ids senv W upcoming"
    and "handlers_laws senv xenv poll_recv W v" "handlers_apart cenv xenv poll_recv W up down upcoming v"
    and "W w" "up w = []" "down w = []" "vw_log v w = []" "vw_queue v w = []"
    and "dispatch_new mpsc_channel (ce_delay_queue cenv) config w0 = Return d" "d_world d = (w, [])"
    and "vw_own v = {}" "acts_apart W up down upcoming v acts"
  shows "holds (calls_run cenv (base_connection senv xenv poll_recv) xenv acts
      (d, server_task_new (base_channel_new (se_delay_queue senv) config' w))) (\<lambda>(d', t').
    \<forall>os m. Completed os (map_err Server m) \<in> set (snd (d_world d')) \<longrightarrow>
      (\<exists>r c. dr_response_completion r = os \<and> Received (Ready (Some r)) \<in> set (snd (d_world d')) \<and>
        deadline c = deadline (dr_ctx r) \<and> (c, dr_request r, m) \<in> set (vw_results v (fst (d_world d')))))"
proof -
  have base: "cn_base (base_connection senv xenv poll_recv) s = s" for s by (simp add: base_connection_def)
  have own: "{} \<subseteq> vw_own v" by simp
  from plain.calls_run_served[OF assms(1-15) base own assms(17)] show ?thesis
    by (rule holds_pair_mono) (simp add: assms(16))
qed

theorem calls_are_served_witness:
  "holds (calls_run net_client (base_connection net_server doubling hosted_recv) doubling
      (CallerTask 20 # map ServingTask hosted_turns @ [CallerTask 20])
      (sample_dispatch (two_calls, []),
       server_task_new (base_channel_new (se_delay_queue (net_server :: (hosted, _, _, _, _) server_env)) server_config_default two_calls))) (\<lambda>(d', t').
    \<forall>os m. Completed os (map_err Server m) \<in> set (snd (d_world d')) \<longrightarrow>
      (\<exists>r c. dr_response_completion r = os \<and> Received (Ready (Some r)) \<in> set (snd (d_world d')) \<and>
        deadline c = deadline (dr_ctx r) \<and> (c, dr_request r, m) \<in> set (ho_results (fst (d_world d'))))) \<and>
   (case calls_run net_client (base_connection net_server doubling hosted_recv) doubling
      (CallerTask 20 # map ServingTask hosted_turns @ [CallerTask 20])
      (sample_dispatch (two_calls, []),
       server_task_new (base_channel_new (se_delay_queue (net_server :: (hosted, _, _, _, _) server_env)) server_config_default two_calls)) of
      Return (d', t') \<Rightarrow> filter (\<lambda>ev. case ev of Completed os r \<Rightarrow> True | _ \<Rightarrow> False) (snd (d_world d')) =
        [Completed 1 (Ok 14), Completed 0 (Ok 10)]
    | _ \<Rightarrow> False)"
  (is "?safe \<and> ?run")
proof
  show ?safe
    using calls_are_served[OF hosted_connected[of "{}"] hosted_queues(1) net_client_laws hosted_queues(2) net_server_laws hosted_laws two_calls_ok,
        of "\<lambda>n. Some" sample_config "(two_calls, [])" "sample_dispatch (two_calls, [])"
          "CallerTask 20 # map ServingTask hosted_turns @ [CallerTask 20]" server_config_default]
    by (simp add: hosted_view_def hosted_start_def sample_dispatch_new net_client_def sample_dispatch_def
        acts_apart_def elsewhere_apart_def hosted_turns_def)
  show ?run by code_simp
qed

text \<open>C2: End to end with a limit.  The same over a \<^verbatim>\<open>MaxRequests\<close> with any limit: every result of the server that a caller
  is given is what the service returned for the message of that caller, or the refusal of the limit,
  which only answers a request of that caller.  Neither side panics, the deadlines being within what the delay
  queues of both sides accept.\<close>

theorem limited_calls_are_served:
  assumes "connected cenv senv W up down (vw_log v)"
    and "delay_queue_laws (ce_delay_queue cenv) ent hz" "client_env_laws cenv W upcoming hz"
    and "delay_queue_laws (se_delay_queue senv) ent' hz'" "server_env_laws senv W hz'" "leaves_ids senv W upcoming"
    and "handlers_laws senv xenv poll_recv W v" "handlers_apart cenv xenv poll_recv W up down upcoming v"
    and "W w" "up w = []" "down w = []" "vw_log v w = []" "vw_queue v w = []"
    and "dispatch_new mpsc_channel (ce_delay_queue cenv) config w0 = Return d" "d_world d = (w, [])"
    and "vw_own v = {throttle_error}" "acts_apart W up down upcoming v acts"
  shows "holds (calls_run cenv (limited_connection senv xenv poll_recv) xenv acts
      (d, server_task_new (max_requests_new (base_channel_new (se_delay_queue senv) config' w) limit))) (\<lambda>(d', t').
    \<forall>os m. Completed os (map_err Server m) \<in> set (snd (d_world d')) \<longrightarrow>
      (\<exists>r. dr_response_completion r = os \<and> Received (Ready (Some r)) \<in> set (snd (d_world d')) \<and>
        (m = throttle_error \<or>
         (\<exists>c. deadline c = deadline (dr_ctx r) \<and> (c, dr_request r, m) \<in> set (vw_results v (fst (d_world d')))))))"
proof -
  have base: "cn_base (limited_connection senv xenv poll_recv) (max_requests_new b limit) = b" for b
    by (simp add: limited_connection_def max_requests_new_def)
  have own: "{throttle_error} \<subseteq> vw_own v" by (simp add: assms(16))
  from limited.calls_run_served[OF assms(1-15) base own assms(17)] show ?thesis
    by (rule holds_pair_mono) (simp add: assms(16))
qed

text \<open>With a limit of one, the second call is refused while the first is served.\<close>

theorem limited_calls_are_served_witness:
  "holds (calls_run net_client (limited_connection net_server doubling hosted_recv) doubling
      (CallerTask 20 # map ServingTask [PollRequests 9, PollRequests 9, PollHandler 0, PollRequests 9] @ [CallerTask 20])
      (sample_dispatch (two_calls, []),
       server_task_new (max_requests_new (base_channel_new (se_delay_queue (net_server :: (hosted, _, _, _, _) server_env)) server_config_default two_calls) 1))) (\<lambda>(d', t').
    \<forall>os m. Completed os (map_err Server m) \<in> set (snd (d_world d')) \<longrightarrow>
      (\<exists>r. dr_response_completion r = os \<and> Received (Ready (Some r)) \<in> set (snd (d_world d')) \<and>
        (m = throttle_error \<or>
         (\<exists>c. deadline c = deadline (dr_ctx r) \<and> (c, dr_request r, m) \<in> set (ho_results (fst (d_world d'))))))) \<and>
   (case calls_run net_client (limited_connection net_server doubling hosted_recv) doubling
      (CallerTask 20 # map ServingTask [PollRequests 9, PollRequests 9, PollHandler 0, PollRequests 9] @ [CallerTask 20])
      (sample_dispatch (two_calls, []),
       server_task_new (max_requests_new (base_channel_new (se_delay_queue (net_server :: (hosted, _, _, _, _) server_env)) server_config_default two_calls) 1)) of
      Return (d', t') \<Rightarrow> filter (\<lambda>ev. case ev of Completed os r \<Rightarrow> True | _ \<Rightarrow> False) (snd (d_world d')) =
        [Completed 1 (Err (Server \<lparr>kind = WouldBlock, detail = ''server throttled the request.''\<rparr>)), Completed 0 (Ok 10)]
    | _ \<Rightarrow> False)"
  (is "?safe \<and> ?run")
proof
  show ?safe
    using limited_calls_are_served[OF hosted_connected[of "{throttle_error}"] hosted_queues(1) net_client_laws hosted_queues(2) net_server_laws hosted_laws two_calls_ok,
        of "\<lambda>n. Some" sample_config "(two_calls, [])" "sample_dispatch (two_calls, [])"
          "CallerTask 20 # map ServingTask [PollRequests 9, PollRequests 9, PollHandler 0, PollRequests 9] @ [CallerTask 20]" server_config_default 1]
    by (simp add: hosted_view_def hosted_start_def sample_dispatch_new net_client_def sample_dispatch_def
        acts_apart_def elsewhere_apart_def)
  show ?run by code_simp
qed

end
