(* ===== verification/Pubsub.thy ===== *)
theory Pubsub
  imports Prelude
begin

text \<open>
  \<^verbatim>\<open>tarpc/examples/pubsub.rs\<close>: a publisher that keeps, behind two locks, the topics of each subscriber
  (\<^verbatim>\<open>clients\<close>) and the subscribers of each topic (\<^verbatim>\<open>subscriptions\<close>).  The subscription manager, one task
  per subscriber that cleans up after it, and the requests to publish run concurrently; a step of the
  model is what a task does while it holds a lock.  A \<^verbatim>\<open>HashMap\<close> is a map, or an association list where its
  values are enumerated; the client handle of a subscriber is the number of its connection.
\<close>

section \<open>The subscriber\<close>

record 'a subscriber_state =
  local_addr :: 'a
  sub_topics :: "string list"

text \<open>\<^verbatim>\<open>Subscriber::topics\<close> and \<^verbatim>\<open>Subscriber::receive\<close>, which only logs what it receives.\<close>

definition subscriber_topics :: "'a subscriber_state \<Rightarrow> string list" where
  "subscriber_topics s = sub_topics s"

definition subscriber_receive :: "'a subscriber_state \<Rightarrow> string \<Rightarrow> string \<Rightarrow> ('a \<times> string \<times> string) list \<Rightarrow> ('a \<times> string \<times> string) list" where
  "subscriber_receive s topic msg log = log @ [(local_addr s, topic, msg)]"

text \<open>\<^verbatim>\<open>Subscriber::connect\<close>: it succeeds once the first request was executed.  \<open>first\<close> is what the stream of
  requests yields first, and \<open>execute\<close> runs the request against the subscriber.\<close>

datatype ('a, 'e) connect_error = ConnectFailed 'e | NeverInitialized 'a

definition subscriber_connect ::
  "('t, 'e) result \<Rightarrow> ('t \<Rightarrow> ('a, 'e) result) \<Rightarrow> ('t \<Rightarrow> ('r, 'e) result option) \<Rightarrow> ('r \<Rightarrow> 'a subscriber_state \<Rightarrow> 'w \<Rightarrow> 'w) \<Rightarrow>
   string list \<Rightarrow> 'w \<Rightarrow> ('a subscriber_state, ('a, 'e) connect_error) result \<times> 'w" where
  "subscriber_connect connected addr_of first execute topics w =
     (case connected of
        Err e \<Rightarrow> (Err (ConnectFailed e), w)
      | Ok publisher \<Rightarrow>
          (case addr_of publisher of
             Err e \<Rightarrow> (Err (ConnectFailed e), w)
           | Ok addr \<Rightarrow>
               let subscriber = \<lparr>local_addr = addr, sub_topics = topics\<rparr> in
               (case first publisher of
                  None \<Rightarrow> (Err (NeverInitialized addr), w)
                | Some (Err e) \<Rightarrow> (Err (ConnectFailed e), w)
                | Some (Ok init_topics) \<Rightarrow> (Ok subscriber, execute init_topics subscriber w))))"

section \<open>The maps\<close>

type_synonym 'a subscriptions = "string \<rightharpoonup> ('a \<times> nat) list"

text \<open>\<^verbatim>\<open>subscriptions.entry(topic).or_default()\<close>, and the loop that inserts into it for each topic.\<close>

definition topic_entry :: "'a subscriptions \<Rightarrow> string \<Rightarrow> ('a \<times> nat) list" where
  "topic_entry subs topic = (case subs topic of None \<Rightarrow> [] | Some m \<Rightarrow> m)"

fun subscribe_topics :: "'a \<Rightarrow> nat \<Rightarrow> string list \<Rightarrow> 'a subscriptions \<Rightarrow> 'a subscriptions" where
  "subscribe_topics addr client [] subs = subs"
| "subscribe_topics addr client (topic # topics) subs =
     subscribe_topics addr client topics (subs(topic \<mapsto> AList.update addr client (topic_entry subs topic)))"

text \<open>The loop of \<^verbatim>\<open>start_subscriber_gc\<close>.  \<open>False\<close>: \<^verbatim>\<open>subscriptions.get_mut(&topic).unwrap()\<close> panics.\<close>

fun unsubscribe_topics :: "'a \<Rightarrow> string list \<Rightarrow> 'a subscriptions \<Rightarrow> bool \<times> 'a subscriptions" where
  "unsubscribe_topics addr [] subs = (True, subs)"
| "unsubscribe_topics addr (topic # topics) subs =
     (case subs topic of
        None \<Rightarrow> (False, subs)
      | Some subscribers \<Rightarrow>
          let subscribers = AList.delete addr subscribers in
          unsubscribe_topics addr topics
            (if subscribers = [] then subs(topic := None) else subs(topic \<mapsto> subscribers)))"

section \<open>The publisher\<close>

text \<open>What the subscription manager is doing: waiting for a connection, for the topics of a new
  subscriber, or for the lock of the subscriptions.\<close>

datatype 'a manager = Listening | Asking 'a nat | Populating 'a nat "string list" | Stopped

text \<open>What the task that cleans up after a subscriber is doing: it waits for the initialisation to be over, or for the
  lock of the clients, or it holds that lock and has removed these topics.\<close>

datatype gc_stage = Initializing | Initialized | Unsubscribing "string list"

record 'a gc_task =
  gc_addr :: 'a
  gc_stage :: gc_stage

datatype pubsub_task = ManagerTask | GcTask nat | PublishTask

record 'a pubsub =
  ps_clients :: "'a \<rightharpoonup> string list"
  ps_clients_lock :: "nat option"
  ps_clients_poisoned :: bool
  ps_subscriptions :: "'a subscriptions"
  ps_subscriptions_poisoned :: bool
  ps_manager :: "'a manager"
  ps_gcs :: "nat \<rightharpoonup> 'a gc_task"
  ps_connections :: nat
  ps_published :: "(nat \<times> string \<times> string) list"
  ps_panicked :: "pubsub_task list"

definition pubsub_new :: "'a pubsub" where
  "pubsub_new = \<lparr>ps_clients = Map.empty, ps_clients_lock = None, ps_clients_poisoned = False,
     ps_subscriptions = Map.empty, ps_subscriptions_poisoned = False,
     ps_manager = Listening, ps_gcs = Map.empty, ps_connections = 0, ps_published = [], ps_panicked = []\<rparr>"

text \<open>\<^verbatim>\<open>start_subscription_manager\<close>: a connection is accepted and its clean-up task started; \<^verbatim>\<open>ready_tx\<close> is used when the
  subscription is initialised, and dropped when the manager panics.\<close>

definition accept_subscriber :: "('a, unit) result \<Rightarrow> 'a pubsub \<Rightarrow> 'a pubsub option" where
  "accept_subscriber peer_addr st =
     (case ps_manager st of
        Listening \<Rightarrow>
          (case peer_addr of
             Err _ \<Rightarrow> Some (st\<lparr>ps_manager := Stopped, ps_panicked := ManagerTask # ps_panicked st\<rparr>)
           | Ok addr \<Rightarrow>
               Some (st\<lparr>ps_manager := Asking addr (ps_connections st),
                        ps_gcs := (ps_gcs st)(ps_connections st \<mapsto> \<lparr>gc_addr = addr, gc_stage = Initializing\<rparr>),
                        ps_connections := Suc (ps_connections st)\<rparr>))
      | _ \<Rightarrow> None)"

definition stop_listening :: "'a pubsub \<Rightarrow> 'a pubsub option" where
  "stop_listening st = (case ps_manager st of Listening \<Rightarrow> Some (st\<lparr>ps_manager := Stopped\<rparr>) | _ \<Rightarrow> None)"

definition signal_ready :: "nat \<Rightarrow> 'a pubsub \<Rightarrow> 'a pubsub" where
  "signal_ready k st = st\<lparr>ps_gcs := (ps_gcs st)(k := map_option (\<lambda>g. g\<lparr>gc_stage := Initialized\<rparr>) (ps_gcs st k))\<rparr>"

text \<open>\<^verbatim>\<open>initialize_subscription\<close>: the answer to \<^verbatim>\<open>topics\<close> arrives (\<^term>\<open>None\<close>: the call failed), and the topics are stored
  under the lock of the clients; then the subscriptions are updated under theirs.\<close>

definition initialize_clients :: "string list option \<Rightarrow> 'a pubsub \<Rightarrow> 'a pubsub option" where
  "initialize_clients reply st =
     (case ps_manager st of
        Asking addr k \<Rightarrow>
          (case reply of
             None \<Rightarrow> Some (signal_ready k (st\<lparr>ps_manager := Listening\<rparr>))
           | Some topics \<Rightarrow>
               if ps_clients_lock st \<noteq> None then None
               else if ps_clients_poisoned st
               then Some (signal_ready k (st\<lparr>ps_manager := Stopped, ps_panicked := ManagerTask # ps_panicked st\<rparr>))
               else Some (st\<lparr>ps_clients := (ps_clients st)(addr \<mapsto> topics), ps_manager := Populating addr k topics\<rparr>))
      | _ \<Rightarrow> None)"

definition initialize_subscriptions :: "'a pubsub \<Rightarrow> 'a pubsub option" where
  "initialize_subscriptions st =
     (case ps_manager st of
        Populating addr k topics \<Rightarrow>
          if ps_subscriptions_poisoned st
          then Some (signal_ready k (st\<lparr>ps_manager := Stopped, ps_panicked := ManagerTask # ps_panicked st\<rparr>))
          else Some (signal_ready k (st\<lparr>ps_subscriptions := subscribe_topics addr k topics (ps_subscriptions st),
                                        ps_manager := Listening\<rparr>))
      | _ \<Rightarrow> None)"

text \<open>\<^verbatim>\<open>start_subscriber_gc\<close>, after the dispatch task has ended and the initialisation is over.  The guard of the clients
  is a temporary of the \<^verbatim>\<open>if let\<close> and lives until the end of its body; a panic in the body poisons
  both locks.\<close>

definition gc_clients :: "nat \<Rightarrow> 'a pubsub \<Rightarrow> 'a pubsub option" where
  "gc_clients k st =
     (case ps_gcs st k of
        Some g \<Rightarrow>
          if gc_stage g \<noteq> Initialized \<or> ps_clients_lock st \<noteq> None then None
          else if ps_clients_poisoned st
          then Some (st\<lparr>ps_gcs := (ps_gcs st)(k := None), ps_panicked := GcTask k # ps_panicked st\<rparr>)
          else (case ps_clients st (gc_addr g) of
                  None \<Rightarrow> Some (st\<lparr>ps_gcs := (ps_gcs st)(k := None)\<rparr>)
                | Some topics \<Rightarrow>
                    Some (st\<lparr>ps_clients := (ps_clients st)(gc_addr g := None), ps_clients_lock := Some k,
                             ps_gcs := (ps_gcs st)(k \<mapsto> g\<lparr>gc_stage := Unsubscribing topics\<rparr>)\<rparr>))
      | None \<Rightarrow> None)"

definition gc_subscriptions :: "nat \<Rightarrow> 'a pubsub \<Rightarrow> 'a pubsub option" where
  "gc_subscriptions k st =
     (case ps_gcs st k of
        Some g \<Rightarrow>
          (case gc_stage g of
             Unsubscribing topics \<Rightarrow>
               let st = st\<lparr>ps_gcs := (ps_gcs st)(k := None), ps_clients_lock := None\<rparr> in
               if ps_subscriptions_poisoned st
               then Some (st\<lparr>ps_clients_poisoned := True, ps_panicked := GcTask k # ps_panicked st\<rparr>)
               else (case unsubscribe_topics (gc_addr g) topics (ps_subscriptions st) of
                       (True, subs) \<Rightarrow> Some (st\<lparr>ps_subscriptions := subs\<rparr>)
                     | (False, subs) \<Rightarrow>
                         Some (st\<lparr>ps_subscriptions := subs, ps_subscriptions_poisoned := True,
                                  ps_clients_poisoned := True, ps_panicked := GcTask k # ps_panicked st\<rparr>))
           | _ \<Rightarrow> None)
      | None \<Rightarrow> None)"

text \<open>\<^verbatim>\<open>Publisher::publish\<close>: a \<^verbatim>\<open>receive\<close> request to each subscriber of the topic.\<close>

definition publish :: "string \<Rightarrow> string \<Rightarrow> 'a pubsub \<Rightarrow> 'a pubsub" where
  "publish topic msg st =
     (if ps_subscriptions_poisoned st then st\<lparr>ps_panicked := PublishTask # ps_panicked st\<rparr>
      else (case ps_subscriptions st topic of
              None \<Rightarrow> st
            | Some subscribers \<Rightarrow>
                st\<lparr>ps_published := ps_published st @ map (\<lambda>(addr, client). (client, topic, msg)) subscribers\<rparr>))"

datatype 'a pubsub_act =
    Accept "('a, unit) result"
  | StopListening
  | TopicsReply "string list option"
  | Populate
  | GcClients nat
  | GcSubscriptions nat
  | Publish string string

text \<open>\<^term>\<open>None\<close>: the task cannot take the step now.\<close>

fun pubsub_step :: "'a pubsub_act \<Rightarrow> 'a pubsub \<Rightarrow> 'a pubsub option" where
  "pubsub_step (Accept peer_addr) st = accept_subscriber peer_addr st"
| "pubsub_step StopListening st = stop_listening st"
| "pubsub_step (TopicsReply reply) st = initialize_clients reply st"
| "pubsub_step Populate st = initialize_subscriptions st"
| "pubsub_step (GcClients k) st = gc_clients k st"
| "pubsub_step (GcSubscriptions k) st = gc_subscriptions k st"
| "pubsub_step (Publish topic msg) st = Some (publish topic msg st)"

fun pubsub_run :: "'a pubsub_act list \<Rightarrow> 'a pubsub \<Rightarrow> 'a pubsub option" where
  "pubsub_run [] st = Some st"
| "pubsub_run (act # acts) st = Option.bind (pubsub_step act st) (pubsub_run acts)"

section \<open>Lookups\<close>

definition subscriber_of :: "'a subscriptions \<Rightarrow> string \<Rightarrow> 'a \<Rightarrow> nat option" where
  "subscriber_of subs topic addr = Option.bind (subs topic) (\<lambda>m. map_of m addr)"

text \<open>No topic without subscribers is kept, and no topic lists a subscriber twice.\<close>

definition subs_ok :: "'a subscriptions \<Rightarrow> bool" where
  "subs_ok subs \<longleftrightarrow> (\<forall>topic m. subs topic = Some m \<longrightarrow> m \<noteq> [] \<and> distinct (map fst m))"

lemma subscribe_topics_result:
  "subs_ok subs \<Longrightarrow> subs_ok (subscribe_topics addr client topics subs) \<and>
   (\<forall>t a. subscriber_of (subscribe_topics addr client topics subs) t a =
      (if a = addr \<and> t \<in> set topics then Some client else subscriber_of subs t a))"
proof (induction topics arbitrary: subs)
  case (Cons topic topics)
  define subs' where "subs' = subs(topic \<mapsto> AList.update addr client (topic_entry subs topic))"
  have "AList.update addr client m \<noteq> []" for m by (cases m) auto
  then have ok: "subs_ok subs'"
    using Cons.prems by (auto simp: subs'_def subs_ok_def topic_entry_def distinct_update split: option.splits)
  have "subscriber_of subs' t a = (if a = addr \<and> t = topic then Some client else subscriber_of subs t a)" for t a
    by (auto simp: subs'_def subscriber_of_def topic_entry_def update_conv' split: option.splits)
  with Cons.IH[OF ok] show ?case by (simp flip: subs'_def)
qed simp

lemma unsubscribe_topics_result:
  assumes "subs_ok subs" "distinct topics" "\<forall>t \<in> set topics. subscriber_of subs t addr \<noteq> None"
  shows "\<exists>subs'. unsubscribe_topics addr topics subs = (True, subs') \<and> subs_ok subs' \<and>
    (\<forall>t a. subscriber_of subs' t a = (if a = addr \<and> t \<in> set topics then None else subscriber_of subs t a))"
  using assms
proof (induction topics arbitrary: subs)
  case (Cons topic topics)
  have "subscriber_of subs topic addr \<noteq> None" using Cons.prems(3) by simp
  then obtain m where m: "subs topic = Some m" by (cases "subs topic") (simp_all add: subscriber_of_def)
  let ?m = "AList.delete addr m"
  let ?subs = "if ?m = [] then subs(topic := None) else subs(topic \<mapsto> ?m)"
  have "distinct (map fst ?m)" using Cons.prems(1) m by (auto simp: subs_ok_def distinct_delete)
  then have ok: "subs_ok ?subs" using Cons.prems(1) by (auto simp: subs_ok_def)
  have del: "map_of ?m a = (if a = addr then None else map_of m a)" for a by (simp add: delete_conv')
  have sub: "subscriber_of ?subs t a = (if a = addr \<and> t = topic then None else subscriber_of subs t a)" for t a
    using m del[of a] by (cases "?m = []") (auto simp: subscriber_of_def)
  then have "\<forall>t \<in> set topics. subscriber_of ?subs t addr \<noteq> None" using Cons.prems(2,3) by auto
  from Cons.IH[OF ok _ this] Cons.prems(2) sub m show ?case by (auto simp: Let_def)
qed simp

text \<open>Whether the loop gets to its end: a topic that the subscriber shares is found however often it is named, and any
  other topic is found once.\<close>

definition shared_topic :: "'a subscriptions \<Rightarrow> 'a \<Rightarrow> string \<Rightarrow> bool" where
  "shared_topic subs addr topic \<longleftrightarrow> (\<exists>a. a \<noteq> addr \<and> subscriber_of subs topic a \<noteq> None)"

lemma topic_found_iff:
  assumes "subs_ok subs"
  shows "subs topic \<noteq> None \<longleftrightarrow> shared_topic subs addr topic \<or> subscriber_of subs topic addr \<noteq> None"
proof (cases "subs topic")
  case (Some m)
  then obtain a k rest where "m = (a, k) # rest" using assms by (cases m) (auto simp: subs_ok_def)
  with Some show ?thesis by (cases "a = addr") (auto simp: shared_topic_def subscriber_of_def)
qed (simp add: shared_topic_def subscriber_of_def)

lemma unsubscribe_topics_complete:
  assumes "subs_ok subs"
  shows "fst (unsubscribe_topics addr topics subs) \<longleftrightarrow>
    (\<forall>t\<in>set topics. shared_topic subs addr t \<or> subscriber_of subs t addr \<noteq> None \<and> count_list topics t = 1)"
  using assms
proof (induction topics arbitrary: subs)
  case (Cons topic topics)
  show ?case
  proof (cases "subs topic")
    case None
    with topic_found_iff[OF Cons.prems, of topic addr] show ?thesis by simp
  next
    case (Some m)
    let ?m = "AList.delete addr m"
    define subs' where "subs' = (if ?m = [] then subs(topic := None) else subs(topic \<mapsto> ?m))"
    have "distinct (map fst ?m)" using Cons.prems Some by (auto simp: subs_ok_def distinct_delete)
    then have ok: "subs_ok subs'" using Cons.prems by (auto simp: subs'_def subs_ok_def)
    have del: "map_of ?m a = (if a = addr then None else map_of m a)" for a by (simp add: delete_conv')
    have sub: "subscriber_of subs' t a = (if a = addr \<and> t = topic then None else subscriber_of subs t a)" for t a
      using Some del[of a] by (cases "?m = []") (auto simp: subs'_def subscriber_of_def)
    have shared: "shared_topic subs' addr t = shared_topic subs addr t" for t by (auto simp: shared_topic_def sub)
    have found: "shared_topic subs addr topic \<or> subscriber_of subs topic addr \<noteq> None"
      using topic_found_iff[OF Cons.prems, of topic addr] Some by simp
    have "fst (unsubscribe_topics addr (topic # topics) subs) = fst (unsubscribe_topics addr topics subs')"
      using Some by (simp add: subs'_def Let_def)
    also have "\<dots> \<longleftrightarrow> (\<forall>t\<in>set topics. shared_topic subs addr t \<or>
        t \<noteq> topic \<and> subscriber_of subs t addr \<noteq> None \<and> count_list topics t = 1)"
      unfolding Cons.IH[OF ok] shared by (auto simp: sub)
    also have "\<dots> \<longleftrightarrow> (\<forall>t\<in>set (topic # topics). shared_topic subs addr t \<or>
        subscriber_of subs t addr \<noteq> None \<and> count_list (topic # topics) t = 1)"
      using found by (auto simp: count_list_0_iff)
    finally show ?thesis .
  qed
qed simp

section \<open>The invariant\<close>

text \<open>The topics a subscriber is subscribed to: those stored for it, from the moment the subscriptions are updated until
  its clean-up is over.\<close>

fun kept_topics :: "('a \<rightharpoonup> string list) \<Rightarrow> 'a \<Rightarrow> gc_stage \<Rightarrow> string set" where
  "kept_topics clients addr (Unsubscribing topics) = set topics"
| "kept_topics clients addr _ = (case clients addr of None \<Rightarrow> {} | Some topics \<Rightarrow> set topics)"

definition subscribed :: "'a pubsub \<Rightarrow> nat \<Rightarrow> string \<Rightarrow> bool" where
  "subscribed st k topic \<longleftrightarrow> (\<exists>g. ps_gcs st k = Some g \<and> (\<forall>addr topics. ps_manager st \<noteq> Populating addr k topics) \<and>
     topic \<in> kept_topics (ps_clients st) (gc_addr g) (gc_stage g))"

lemma kept_topics_update:
  "addr' \<noteq> addr \<Longrightarrow> kept_topics (clients(addr := x)) addr' stage = kept_topics clients addr' stage"
  by (cases stage) simp_all

definition connected_at :: "'a pubsub \<Rightarrow> nat \<Rightarrow> 'a \<Rightarrow> bool" where
  "connected_at st k addr \<longleftrightarrow> (\<exists>g. ps_gcs st k = Some g \<and> gc_addr g = addr)"

definition consistent :: "'a pubsub \<Rightarrow> bool" where
  "consistent st \<longleftrightarrow> (\<forall>topic addr k.
     subscriber_of (ps_subscriptions st) topic addr = Some k \<longleftrightarrow> connected_at st k addr \<and> subscribed st k topic)"

definition unpoisoned :: "'a pubsub \<Rightarrow> bool" where
  "unpoisoned st \<longleftrightarrow> \<not> ps_clients_poisoned st \<and> \<not> ps_subscriptions_poisoned st \<and> ps_panicked st = []"

definition tasks_ok :: "'a pubsub \<Rightarrow> bool" where
  "tasks_ok st \<longleftrightarrow>
     (\<forall>k g. ps_gcs st k = Some g \<longrightarrow> k < ps_connections st \<and>
        (\<forall>k' g'. ps_gcs st k' = Some g' \<longrightarrow> gc_addr g' = gc_addr g \<longrightarrow> k' = k) \<and>
        (\<forall>topics. gc_stage g = Unsubscribing topics \<longrightarrow> distinct topics \<and> ps_clients st (gc_addr g) = None)) \<and>
     (\<forall>addr topics. ps_clients st addr = Some topics \<longrightarrow> distinct topics \<and> (\<exists>k. connected_at st k addr))"

fun manager_ok :: "'a pubsub \<Rightarrow> 'a manager \<Rightarrow> bool" where
  "manager_ok st (Asking addr k) \<longleftrightarrow> ps_gcs st k = Some \<lparr>gc_addr = addr, gc_stage = Initializing\<rparr> \<and> ps_clients st addr = None"
| "manager_ok st (Populating addr k topics) \<longleftrightarrow>
     ps_gcs st k = Some \<lparr>gc_addr = addr, gc_stage = Initializing\<rparr> \<and> ps_clients st addr = Some topics"
| "manager_ok st _ = True"

definition pubsub_inv :: "'a pubsub \<Rightarrow> bool" where
  "pubsub_inv st \<longleftrightarrow> unpoisoned st \<and> subs_ok (ps_subscriptions st) \<and> tasks_ok st \<and> manager_ok st (ps_manager st) \<and> consistent st"

text \<open>What the tasks rely on: \<^verbatim>\<open>peer_addr\<close> succeeds, no address is used again before the clean-up of its last user is
  over, and no subscriber names a topic twice.\<close>

fun well_behaved :: "'a pubsub \<Rightarrow> 'a pubsub_act \<Rightarrow> bool" where
  "well_behaved st (Accept (Ok addr)) \<longleftrightarrow> (\<forall>k. \<not> connected_at st k addr)"
| "well_behaved st (Accept (Err _)) \<longleftrightarrow> False"
| "well_behaved st (TopicsReply (Some topics)) \<longleftrightarrow> distinct topics"
| "well_behaved st _ \<longleftrightarrow> True"

inductive pubsub_reach :: "'a pubsub \<Rightarrow> bool" where
  reach_new: "pubsub_reach pubsub_new"
| reach_step: "pubsub_reach st \<Longrightarrow> well_behaved st act \<Longrightarrow> pubsub_step act st = Some st' \<Longrightarrow> pubsub_reach st'"

lemmas pubsub_inv_defs = pubsub_inv_def unpoisoned_def tasks_ok_def consistent_def connected_at_def

lemma tasks_okD:
  assumes "tasks_ok st"
  shows "ps_gcs st k = Some g \<Longrightarrow> k < ps_connections st"
    "ps_gcs st k = Some g \<Longrightarrow> ps_gcs st k' = Some g' \<Longrightarrow> gc_addr g' = gc_addr g \<Longrightarrow> k' = k"
    "ps_gcs st k = Some g \<Longrightarrow> gc_stage g = Unsubscribing topics \<Longrightarrow> distinct topics \<and> ps_clients st (gc_addr g) = None"
    "ps_clients st addr = Some topics' \<Longrightarrow> distinct topics' \<and> (\<exists>k. connected_at st k addr)"
  using assms unfolding tasks_ok_def by blast+

lemma pubsub_new_inv: "pubsub_inv pubsub_new"
  by (simp add: pubsub_inv_defs pubsub_new_def subs_ok_def subscriber_of_def)

lemma accept_subscriber_inv:
  assumes inv: "pubsub_inv st" and new: "\<forall>k. \<not> connected_at st k addr" and step: "accept_subscriber (Ok addr) st = Some st'"
  shows "pubsub_inv st'"
proof -
  let ?n = "ps_connections st"
  have l: "ps_manager st = Listening" and st': "st' = st\<lparr>ps_manager := Asking addr ?n,
      ps_gcs := (ps_gcs st)(?n \<mapsto> \<lparr>gc_addr = addr, gc_stage = Initializing\<rparr>), ps_connections := Suc ?n\<rparr>"
    using step by (auto simp: accept_subscriber_def split: manager.splits)
  have t: "tasks_ok st" and c: "consistent st" using inv by (simp_all add: pubsub_inv_def)
  have old: "ps_gcs st ?n = None" using t by (auto simp: tasks_ok_def) (metis less_irrefl option.exhaust)
  have none: "ps_clients st addr = None" using t new by (auto simp: tasks_ok_def) (metis option.exhaust)
  have at: "connected_at st' k a \<longleftrightarrow> (if k = ?n then a = addr else connected_at st k a)" for k a
    by (auto simp: st' connected_at_def)
  have "tasks_ok st'"
    unfolding tasks_ok_def
  proof (intro conjI allI impI)
    fix k g assume k: "ps_gcs st' k = Some g"
    then have k': "k = ?n \<and> g = \<lparr>gc_addr = addr, gc_stage = Initializing\<rparr> \<or> k \<noteq> ?n \<and> ps_gcs st k = Some g"
      by (auto simp: st' split: if_splits)
    with t show "k < ps_connections st'" by (auto simp: st' tasks_ok_def less_Suc_eq)
    show "k'' = k" if "ps_gcs st' k'' = Some g'" "gc_addr g' = gc_addr g" for k'' g'
      using k' that tasks_okD(2)[OF t, of k g k'' g'] new[unfolded connected_at_def] old
      by (simp add: st' split: if_splits) fastforce+
    show "distinct topics" "ps_clients st' (gc_addr g) = None" if "gc_stage g = Unsubscribing topics" for topics
      using k' that t unfolding tasks_ok_def by (auto simp: st')
  next
    fix a topics assume "ps_clients st' a = Some topics"
    then have "ps_clients st a = Some topics" by (simp add: st')
    from tasks_okD(4)[OF t this] obtain k where "distinct topics" "connected_at st k a" by blast
    moreover from this have "k \<noteq> ?n" using old by (auto simp: connected_at_def)
    ultimately show "distinct topics" "\<exists>k. connected_at st' k a" by (auto simp: at)
  qed
  moreover have sub: "subscribed st' k topic \<longleftrightarrow> subscribed st k topic" "\<not> subscribed st ?n topic" for k topic
    using l none old by (auto simp: st' subscribed_def)
  have "consistent st'"
    unfolding consistent_def
  proof (intro allI)
    fix topic a k
    have "subscriber_of (ps_subscriptions st) topic a = Some k \<longleftrightarrow> connected_at st k a \<and> subscribed st k topic"
      using c unfolding consistent_def by blast
    with sub(2) show "subscriber_of (ps_subscriptions st') topic a = Some k \<longleftrightarrow> connected_at st' k a \<and> subscribed st' k topic"
      unfolding at sub(1) by (cases "k = ?n") (simp_all add: st')
  qed
  moreover have "manager_ok st' (ps_manager st')" using none by (simp add: st')
  ultimately show ?thesis using inv by (simp add: pubsub_inv_def) (simp add: st' unpoisoned_def)
qed

lemma signal_ready_simps [simp]:
  "ps_manager (signal_ready k st) = ps_manager st" "ps_clients (signal_ready k st) = ps_clients st"
  "ps_subscriptions (signal_ready k st) = ps_subscriptions st" "ps_connections (signal_ready k st) = ps_connections st"
  "unpoisoned (signal_ready k st) = unpoisoned st" "connected_at (signal_ready k st) k' addr = connected_at st k' addr"
  by (auto simp: signal_ready_def unpoisoned_def connected_at_def)

lemma signal_ready_tasks:
  "ps_gcs st k = Some \<lparr>gc_addr = addr, gc_stage = Initializing\<rparr> \<Longrightarrow> tasks_ok st \<Longrightarrow> tasks_ok (signal_ready k st)"
  "ps_gcs st k = Some \<lparr>gc_addr = addr, gc_stage = Initializing\<rparr> \<Longrightarrow>
   subscribed (signal_ready k st) k' topic = subscribed st k' topic"
  unfolding tasks_ok_def signal_ready_simps
  by (auto simp: signal_ready_def subscribed_def split: if_splits)

text \<open>The end of an initialisation; \<open>subs\<close> are the subscriptions it leaves.\<close>

lemma finish_init_inv:
  assumes inv: "pubsub_inv st" and init: "ps_gcs st k = Some \<lparr>gc_addr = addr, gc_stage = Initializing\<rparr>"
    and subs: "subs_ok subs"
      "\<And>t a k'. subscriber_of subs t a = Some k' \<longleftrightarrow>
        connected_at st k' a \<and> subscribed (st\<lparr>ps_manager := Listening\<rparr>) k' t"
  shows "pubsub_inv (signal_ready k (st\<lparr>ps_subscriptions := subs, ps_manager := Listening\<rparr>))"
proof -
  let ?st = "st\<lparr>ps_subscriptions := subs, ps_manager := Listening\<rparr>"
  have "tasks_ok ?st" using inv by (simp add: pubsub_inv_defs)
  moreover have "connected_at ?st k' a = connected_at st k' a"
    "subscribed ?st k' t = subscribed (st\<lparr>ps_manager := Listening\<rparr>) k' t" for k' a t
    by (simp_all add: connected_at_def subscribed_def)
  ultimately show ?thesis
    using inv subs signal_ready_tasks[of ?st k addr] init
    by (simp add: pubsub_inv_def consistent_def) (simp add: unpoisoned_def)
qed

lemma initialize_clients_inv:
  assumes inv: "pubsub_inv st" and ts: "\<And>topics. reply = Some topics \<Longrightarrow> distinct topics"
    and step: "initialize_clients reply st = Some st'"
  shows "pubsub_inv st'"
proof -
  obtain addr k where m: "ps_manager st = Asking addr k" using step by (auto simp: initialize_clients_def split: manager.splits)
  have g: "ps_gcs st k = Some \<lparr>gc_addr = addr, gc_stage = Initializing\<rparr>" "ps_clients st addr = None"
    and t: "tasks_ok st" and c: "consistent st" using inv m by (simp_all add: pubsub_inv_def)
  show ?thesis
  proof (cases reply)
    case None
    have "subscribed (st\<lparr>ps_manager := Listening\<rparr>) k' t = subscribed st k' t" for k' t
      by (simp add: subscribed_def m)
    then have "pubsub_inv (signal_ready k (st\<lparr>ps_subscriptions := ps_subscriptions st, ps_manager := Listening\<rparr>))"
      using finish_init_inv[OF inv g(1), of "ps_subscriptions st"] inv by (simp add: pubsub_inv_def consistent_def)
    moreover have "st' = signal_ready k (st\<lparr>ps_subscriptions := ps_subscriptions st, ps_manager := Listening\<rparr>)"
      using None m step by (simp add: initialize_clients_def)
    ultimately show ?thesis by simp
  next
    case (Some topics)
    then have st': "st' = st\<lparr>ps_clients := (ps_clients st)(addr \<mapsto> topics), ps_manager := Populating addr k topics\<rparr>"
      using step m inv by (auto simp: initialize_clients_def pubsub_inv_def unpoisoned_def split: if_splits)
    have at: "connected_at st' = connected_at st" by (simp add: st' connected_at_def fun_eq_iff)
    have own: "ps_gcs st k' = Some g' \<Longrightarrow> gc_addr g' = addr \<Longrightarrow> k' = k" for k' g'
      using tasks_okD(2)[OF t g(1), of k' g'] by simp
    have "tasks_ok st'"
      unfolding tasks_ok_def at
    proof (intro conjI allI impI)
      fix k' g' assume k': "ps_gcs st' k' = Some g'"
      then show "k' < ps_connections st'" using tasks_okD(1)[OF t] by (simp add: st')
      show "k'' = k'" if "ps_gcs st' k'' = Some g''" "gc_addr g'' = gc_addr g'" for k'' g''
        using tasks_okD(2)[OF t, of k' g' k'' g''] k' that by (simp add: st')
      show "distinct topics'" "ps_clients st' (gc_addr g') = None" if "gc_stage g' = Unsubscribing topics'" for topics'
      proof -
        have "gc_addr g' \<noteq> addr" using k' that own[of k' g'] g by (cases g') (auto simp: st')
        then show "distinct topics'" "ps_clients st' (gc_addr g') = None"
          using k' that tasks_okD(3)[OF t, of k' g' topics'] by (auto simp: st')
      qed
    next
      fix a topics' assume "ps_clients st' a = Some topics'"
      moreover have "connected_at st k addr" using g(1) by (simp add: connected_at_def)
      ultimately show "distinct topics'" "\<exists>k. connected_at st k a"
        using tasks_okD(4)[OF t, of a topics'] ts[OF Some] by (auto simp: st' split: if_splits)
    qed
    moreover have sub: "subscribed st' k' t = subscribed st k' t" for k' t
    proof (cases "k' = k")
      case False
      with own[of k'] have "gc_addr g' \<noteq> addr" if "ps_gcs st k' = Some g'" for g' using that by blast
      with False m show ?thesis by (auto simp: st' subscribed_def kept_topics_update)
    qed (use g m in \<open>simp add: st' subscribed_def\<close>)
    have "consistent st'" using c unfolding consistent_def at sub by (simp add: st')
    ultimately show ?thesis using inv g by (simp add: pubsub_inv_def) (simp add: st' unpoisoned_def)
  qed
qed

lemma initialize_subscriptions_inv:
  assumes inv: "pubsub_inv st" and step: "initialize_subscriptions st = Some st'"
  shows "pubsub_inv st'"
proof -
  obtain addr k topics where m: "ps_manager st = Populating addr k topics"
    using step by (auto simp: initialize_subscriptions_def split: manager.splits)
  have g: "ps_gcs st k = Some \<lparr>gc_addr = addr, gc_stage = Initializing\<rparr>" "ps_clients st addr = Some topics"
    and t: "tasks_ok st" and c: "consistent st" and ok: "subs_ok (ps_subscriptions st)"
    using inv m by (simp_all add: pubsub_inv_def)
  have own: "connected_at st k' addr \<longleftrightarrow> k' = k" for k'
    using t g(1) unfolding tasks_ok_def connected_at_def by (metis gc_task.select_convs(1))
  have other: "subscribed (st\<lparr>ps_manager := Listening\<rparr>) k' t' = subscribed st k' t'" if "k' \<noteq> k" for k' t'
    using that by (simp add: subscribed_def m)
  have new: "subscribed (st\<lparr>ps_manager := Listening\<rparr>) k t' \<longleftrightarrow> t' \<in> set topics" "\<not> subscribed st k t'"
    "connected_at st k a \<longleftrightarrow> a = addr" for t' a
    using g m by (auto simp: subscribed_def connected_at_def)
  note subs = subscribe_topics_result[OF ok, of addr k topics]
  have "pubsub_inv (signal_ready k (st\<lparr>ps_subscriptions := subscribe_topics addr k topics (ps_subscriptions st), ps_manager := Listening\<rparr>))"
  proof (rule finish_init_inv[OF inv g(1)])
    fix t' a k'
    have "subscriber_of (ps_subscriptions st) t' a = Some k' \<longleftrightarrow> connected_at st k' a \<and> subscribed st k' t'"
      using c unfolding consistent_def by blast
    with subs own other[of k' t'] new show "subscriber_of (subscribe_topics addr k topics (ps_subscriptions st)) t' a = Some k' \<longleftrightarrow>
        connected_at st k' a \<and> subscribed (st\<lparr>ps_manager := Listening\<rparr>) k' t'"
      by (cases "k' = k") auto
  qed (use subs in simp)
  moreover have "\<not> ps_subscriptions_poisoned st" using inv by (simp add: pubsub_inv_def unpoisoned_def)
  ultimately show ?thesis using step m by (auto simp: initialize_subscriptions_def)
qed

lemma tasks_ok_shrink:
  assumes t: "tasks_ok st" and conn: "ps_connections st' = ps_connections st"
    and gcs: "\<And>k g. ps_gcs st' k = Some g \<Longrightarrow> \<exists>g0. ps_gcs st k = Some g0 \<and> gc_addr g0 = gc_addr g"
    and unsub: "\<And>k g topics. ps_gcs st' k = Some g \<Longrightarrow> gc_stage g = Unsubscribing topics \<Longrightarrow>
      distinct topics \<and> ps_clients st' (gc_addr g) = None"
    and clients: "\<And>addr topics. ps_clients st' addr = Some topics \<Longrightarrow>
      ps_clients st addr = Some topics \<and> (\<forall>k. connected_at st k addr \<longrightarrow> connected_at st' k addr)"
  shows "tasks_ok st'"
  unfolding tasks_ok_def
proof (intro conjI allI impI)
  fix k g assume k: "ps_gcs st' k = Some g"
  then obtain g0 where g0: "ps_gcs st k = Some g0" "gc_addr g0 = gc_addr g" using gcs by blast
  with tasks_okD(1)[OF t] conn show "k < ps_connections st'" by simp
  show "k' = k" if k': "ps_gcs st' k' = Some g'" "gc_addr g' = gc_addr g" for k' g'
  proof -
    obtain g1 where "ps_gcs st k' = Some g1" "gc_addr g1 = gc_addr g'" using gcs k' by blast
    with tasks_okD(2)[OF t g0(1)] g0(2) k'(2) show ?thesis by simp
  qed
  show "distinct topics" "ps_clients st' (gc_addr g) = None" if "gc_stage g = Unsubscribing topics" for topics
    using unsub[OF k that] by simp_all
next
  fix a topics assume "ps_clients st' a = Some topics"
  with clients tasks_okD(4)[OF t] show "distinct topics" "\<exists>k. connected_at st' k a" by blast+
qed

lemma gc_clients_inv:
  assumes inv: "pubsub_inv st" and step: "gc_clients k st = Some st'"
  shows "pubsub_inv st'"
proof -
  obtain g where g: "ps_gcs st k = Some g" "gc_stage g = Initialized" and free: "\<not> ps_clients_poisoned st"
    using step inv by (auto simp: gc_clients_def pubsub_inv_def unpoisoned_def split: option.splits if_splits)
  have t: "tasks_ok st" and c: "consistent st" and ok: "subs_ok (ps_subscriptions st)" "unpoisoned st"
    and m: "manager_ok st (ps_manager st)" using inv by (simp_all add: pubsub_inv_def)
  have not_init: "ps_manager st \<noteq> Populating addr k topics" "ps_manager st \<noteq> Asking addr k" for addr topics
    using m g by auto
  have own: "ps_gcs st k' = Some g' \<Longrightarrow> gc_addr g' = gc_addr g \<Longrightarrow> k' = k" for k' g'
    using tasks_okD(2)[OF t g(1)] by blast
  show ?thesis
  proof (cases "ps_clients st (gc_addr g)")
    case None
    then have st': "st' = st\<lparr>ps_gcs := (ps_gcs st)(k := None)\<rparr>" using step g free by (simp add: gc_clients_def split: if_splits)
    have at: "connected_at st' k' a \<longleftrightarrow> k' \<noteq> k \<and> connected_at st k' a" for k' a by (simp add: st' connected_at_def)
    have "tasks_ok st'"
    proof (rule tasks_ok_shrink[OF t])
      fix a topics assume "ps_clients st' a = Some topics"
      with None g show "ps_clients st a = Some topics \<and> (\<forall>k. connected_at st k a \<longrightarrow> connected_at st' k a)"
        by (auto simp: at) (auto simp: st' connected_at_def)
    qed (use tasks_okD(3)[OF t] in \<open>auto simp: st' split: if_splits\<close>)
    moreover have "subscribed st' k' t' \<longleftrightarrow> k' \<noteq> k \<and> subscribed st k' t'" "\<not> subscribed st k t'" for k' t'
      using None g not_init by (auto simp: st' subscribed_def)
    then have "consistent st'" using c unfolding consistent_def at by (auto simp: st')
    moreover have "manager_ok st' (ps_manager st')"
      using m not_init by (cases "ps_manager st") (auto simp: st')
    ultimately show ?thesis using ok by (simp add: pubsub_inv_def) (simp add: st' unpoisoned_def)
  next
    case (Some topics)
    then have st': "st' = st\<lparr>ps_clients := (ps_clients st)(gc_addr g := None), ps_clients_lock := Some k,
        ps_gcs := (ps_gcs st)(k \<mapsto> g\<lparr>gc_stage := Unsubscribing topics\<rparr>)\<rparr>"
      using step g free by (simp add: gc_clients_def split: if_splits)
    have at: "connected_at st' k' a \<longleftrightarrow> connected_at st k' a" for k' a using g by (auto simp: st' connected_at_def)
    have "tasks_ok st'"
    proof (rule tasks_ok_shrink[OF t])
      fix k' g' topics' assume k': "ps_gcs st' k' = Some g'" "gc_stage g' = Unsubscribing topics'"
      with tasks_okD(3)[OF t, of k' g' topics'] tasks_okD(4)[OF t Some]
      show "distinct topics' \<and> ps_clients st' (gc_addr g') = None" by (auto simp: st' split: if_splits)
    next
      fix a topics' assume "ps_clients st' a = Some topics'"
      then show "ps_clients st a = Some topics' \<and> (\<forall>k. connected_at st k a \<longrightarrow> connected_at st' k a)"
        unfolding at by (simp add: st' split: if_splits)
    qed (use g in \<open>auto simp: st' split: if_splits\<close>)
    moreover have sub: "subscribed st' k' t' = subscribed st k' t'" for k' t'
    proof (cases "k' = k")
      case False
      with own[of k'] have "gc_addr g' \<noteq> gc_addr g" if "ps_gcs st k' = Some g'" for g' using that by blast
      with False show ?thesis by (auto simp: st' subscribed_def kept_topics_update)
    qed (use Some g not_init in \<open>simp add: st' subscribed_def\<close>)
    have "consistent st'" using c unfolding consistent_def at sub by (simp add: st')
    moreover have "manager_ok st' (ps_manager st')"
      using m not_init own by (cases "ps_manager st") (auto simp: st')
    ultimately show ?thesis using ok by (simp add: pubsub_inv_def) (simp add: st' unpoisoned_def)
  qed
qed

lemma gc_subscriptions_inv:
  assumes inv: "pubsub_inv st" and step: "gc_subscriptions k st = Some st'"
  shows "pubsub_inv st'"
proof -
  obtain g topics where g: "ps_gcs st k = Some g" "gc_stage g = Unsubscribing topics"
    using step by (auto simp: gc_subscriptions_def split: option.splits gc_stage.splits)
  have t: "tasks_ok st" and c: "consistent st" and ok: "subs_ok (ps_subscriptions st)" "unpoisoned st"
    and m: "manager_ok st (ps_manager st)" using inv by (simp_all add: pubsub_inv_def)
  have not_init: "ps_manager st \<noteq> Populating addr k ts" "ps_manager st \<noteq> Asking addr k" for addr ts
    using m g by auto
  have own: "connected_at st k a \<longleftrightarrow> a = gc_addr g" "subscribed st k t' \<longleftrightarrow> t' \<in> set topics" for a t'
    using g not_init by (auto simp: connected_at_def subscribed_def)
  then have subs: "subscriber_of (ps_subscriptions st) t' (gc_addr g) = Some k" if "t' \<in> set topics" for t'
    using c that unfolding consistent_def by blast
  have "distinct topics" using tasks_okD(3)[OF t g] by simp
  with unsubscribe_topics_result[OF ok(1), of topics "gc_addr g"] subs obtain subs' where
    u: "unsubscribe_topics (gc_addr g) topics (ps_subscriptions st) = (True, subs')" "subs_ok subs'"
    "\<forall>t' a. subscriber_of subs' t' a =
      (if a = gc_addr g \<and> t' \<in> set topics then None else subscriber_of (ps_subscriptions st) t' a)" by auto
  have st': "st' = st\<lparr>ps_gcs := (ps_gcs st)(k := None), ps_clients_lock := None, ps_subscriptions := subs'\<rparr>"
    using step g u(1) ok(2) by (simp add: gc_subscriptions_def Let_def unpoisoned_def)
  have at: "connected_at st' k' a \<longleftrightarrow> k' \<noteq> k \<and> connected_at st k' a" for k' a by (simp add: st' connected_at_def)
  have "tasks_ok st'"
  proof (rule tasks_ok_shrink[OF t])
    fix a ts assume "ps_clients st' a = Some ts"
    then have "ps_clients st a = Some ts" by (simp add: st')
    with tasks_okD(3)[OF t g] show "ps_clients st a = Some ts \<and> (\<forall>k. connected_at st k a \<longrightarrow> connected_at st' k a)"
      by (auto simp: at own)
  qed (use tasks_okD(3)[OF t] in \<open>auto simp: st' split: if_splits\<close>)
  moreover have sub: "subscribed st' k' t' \<longleftrightarrow> k' \<noteq> k \<and> subscribed st k' t'" for k' t'
    by (simp add: st' subscribed_def)
  have "consistent st'"
    unfolding consistent_def
  proof (intro allI)
    fix t' a k'
    have "subscriber_of (ps_subscriptions st) t' a = Some k' \<longleftrightarrow> connected_at st k' a \<and> subscribed st k' t'"
      using c unfolding consistent_def by blast
    with u(3) subs[of t'] own show "subscriber_of (ps_subscriptions st') t' a = Some k' \<longleftrightarrow> connected_at st' k' a \<and> subscribed st' k' t'"
      unfolding at sub by (cases "k' = k") (auto simp: st')
  qed
  moreover have "manager_ok st' (ps_manager st')"
    using m not_init by (cases "ps_manager st") (auto simp: st')
  ultimately show ?thesis using ok(2) u(2) by (simp add: pubsub_inv_def) (simp add: st' unpoisoned_def)
qed

lemma publish_keeps: "pubsub_inv st \<Longrightarrow> pubsub_inv (publish topic msg st)"
proof -
  assume inv: "pubsub_inv st"
  then obtain log where "publish topic msg st = st\<lparr>ps_published := log\<rparr>"
    by (cases "ps_subscriptions st topic") (auto simp: publish_def pubsub_inv_def unpoisoned_def intro: that[of "ps_published st"])
  moreover have "manager_ok (st\<lparr>ps_published := log\<rparr>) mgr = manager_ok st mgr" for mgr by (cases mgr) simp_all
  ultimately show ?thesis using inv by (simp add: pubsub_inv_defs subscribed_def)
qed

lemma pubsub_step_inv:
  assumes "pubsub_inv st" "well_behaved st act" "pubsub_step act st = Some st'"
  shows "pubsub_inv st'"
proof (cases act)
  case (Accept r)
  with assms accept_subscriber_inv show ?thesis by (cases r) auto
next
  case (TopicsReply reply)
  with assms initialize_clients_inv[OF assms(1), of reply st'] show ?thesis by (cases reply) auto
next
  case StopListening
  with assms show ?thesis
    by (auto simp: stop_listening_def pubsub_inv_defs subscribed_def split: manager.splits)
qed (use assms in \<open>auto intro: initialize_subscriptions_inv gc_clients_inv gc_subscriptions_inv publish_keeps\<close>)

lemma pubsub_reach_inv: "pubsub_reach st \<Longrightarrow> pubsub_inv st"
  by (induction rule: pubsub_reach.induct) (blast intro: pubsub_new_inv pubsub_step_inv)+

section \<open>Properties\<close>

lemma publish_result:
  assumes "pubsub_inv st"
  shows "\<exists>ks. ps_published (publish topic msg st) = ps_published st @ map (\<lambda>k. (k, topic, msg)) ks \<and> distinct ks \<and>
    set ks = {k. subscribed st k topic}"
proof -
  let ?m = "topic_entry (ps_subscriptions st) topic"
  have c: "consistent st" and t: "tasks_ok st" and ok: "subs_ok (ps_subscriptions st)" and "unpoisoned st"
    using assms by (simp_all add: pubsub_inv_def)
  then have pub: "ps_published (publish topic msg st) = ps_published st @ map (\<lambda>k. (k, topic, msg)) (map snd ?m)"
    by (simp add: publish_def topic_entry_def unpoisoned_def case_prod_beta split: option.splits)
  have sub: "subscriber_of (ps_subscriptions st) topic addr = map_of ?m addr" for addr
    by (simp add: subscriber_of_def topic_entry_def split: option.splits)
  have keys: "distinct (map fst ?m)"
    using ok by (auto simp: subs_ok_def topic_entry_def split: option.splits)
  have mem: "(addr, k) \<in> set ?m \<longleftrightarrow> connected_at st k addr \<and> subscribed st k topic" for addr k
    using c sub[of addr] map_of_eq_Some_iff[OF keys, of addr k] unfolding consistent_def by metis
  have "inj_on snd (set ?m)"
    by (auto simp: inj_on_def mem connected_at_def)
  then have "distinct (map snd ?m)" using keys by (simp add: distinct_map)
  moreover have "\<exists>addr. connected_at st k addr" if "subscribed st k topic" for k
    using that by (auto simp: subscribed_def connected_at_def)
  then have "k \<in> snd ` set ?m \<longleftrightarrow> subscribed st k topic" for k
    by (auto simp: mem) (use mem image_iff in fastforce)
  then have "set (map snd ?m) = {k. subscribed st k topic}" by auto
  ultimately show ?thesis using pub by blast
qed

text \<open>C18: Provided that no subscriber names a topic twice, that no address is used again before the clean-up after its
  last user, and that \<^verbatim>\<open>peer_addr\<close> succeeds, none of which the code checks: the publisher's two maps agree at every
  moment, in whatever order its tasks take their steps.  The subscribers of a topic are the connections whose stored
  topics contain it, from the end of the initialisation of each to the end of its clean-up; no task panics and neither
  lock is poisoned, so that \<^verbatim>\<open>get_mut(&topic).unwrap()\<close> never fails.\<close>

theorem pubsub_consistent:
  assumes "pubsub_reach st"
  shows "ps_panicked st = [] \<and> \<not> ps_clients_poisoned st \<and> \<not> ps_subscriptions_poisoned st \<and>
    (\<forall>topic addr k. subscriber_of (ps_subscriptions st) topic addr = Some k \<longleftrightarrow> connected_at st k addr \<and> subscribed st k topic)"
  using pubsub_reach_inv[OF assms] by (simp add: pubsub_inv_def unpoisoned_def consistent_def)

text \<open>Two subscribers with a topic in common; the first one goes away while a third one arrives.\<close>

definition sample_acts :: "nat pubsub_act list" where
  "sample_acts = [Accept (Ok 10), TopicsReply (Some [''a'', ''b'']), Populate, Accept (Ok 11), TopicsReply (Some [''b'']), Populate,
     GcClients 0, Accept (Ok 12), Publish ''b'' ''x'', GcSubscriptions 0, Publish ''b'' ''y'']"

fun behaved_run :: "'a pubsub_act list \<Rightarrow> 'a pubsub \<Rightarrow> bool" where
  "behaved_run [] st = True"
| "behaved_run (act # acts) st \<longleftrightarrow> well_behaved st act \<and>
     (case pubsub_step act st of None \<Rightarrow> False | Some st' \<Rightarrow> behaved_run acts st')"

lemma behaved_run_reach:
  "behaved_run acts st \<Longrightarrow> pubsub_reach st \<Longrightarrow> \<exists>st'. pubsub_run acts st = Some st' \<and> pubsub_reach st'"
  by (induction acts arbitrary: st) (auto split: option.splits intro: reach_step)

lemmas pubsub_step_defs = accept_subscriber_def initialize_clients_def initialize_subscriptions_def signal_ready_def
  gc_clients_def gc_subscriptions_def publish_def pubsub_new_def topic_entry_def

lemma sample_acts_reach: "\<exists>st. pubsub_run sample_acts pubsub_new = Some st \<and> pubsub_reach st"
  by (rule behaved_run_reach[OF _ reach_new]) (auto simp: sample_acts_def pubsub_step_defs connected_at_def split: if_splits)

theorem pubsub_consistent_witness:
  "\<exists>st. pubsub_run sample_acts pubsub_new = Some st \<and> ps_panicked st = [] \<and>
     ps_published st = [(0, ''b'', ''x''), (1, ''b'', ''x''), (1, ''b'', ''y'')]"
proof -
  obtain st where st: "pubsub_run sample_acts pubsub_new = Some st" "pubsub_reach st" using sample_acts_reach by blast
  have "ps_published st = [(0, ''b'', ''x''), (1, ''b'', ''x''), (1, ''b'', ''y'')]"
    using st(1) by (auto simp: sample_acts_def pubsub_step_defs)
  with st pubsub_consistent[OF st(2)] show ?thesis by blast
qed

text \<open>C28: Under the same provisos (distinct topics, no address used again before the clean-up after its last user,
  \<^verbatim>\<open>peer_addr\<close> succeeds), \<^verbatim>\<open>publish\<close> sends the message to exactly the subscribers of its topic, once to each.\<close>

theorem publish_reaches_subscribers:
  assumes "pubsub_reach st"
  shows "\<exists>ks. ps_published (publish topic msg st) = ps_published st @ map (\<lambda>k. (k, topic, msg)) ks \<and> distinct ks \<and>
    set ks = {k. subscribed st k topic}"
  by (rule publish_result[OF pubsub_reach_inv[OF assms]])

text \<open>Two subscribers, the topic ''b'' in common.\<close>

definition two_subscribers :: "nat pubsub_act list" where
  "two_subscribers = [Accept (Ok 10), TopicsReply (Some [''a'', ''b'']), Populate, Accept (Ok 11), TopicsReply (Some [''b'']), Populate]"

lemma two_subscribers_reach: "\<exists>st. pubsub_run two_subscribers pubsub_new = Some st \<and> pubsub_reach st"
  by (rule behaved_run_reach[OF _ reach_new])
     (auto simp: two_subscribers_def pubsub_step_defs connected_at_def split: if_splits)

theorem publish_reaches_subscribers_witness:
  "\<exists>st ks. pubsub_run two_subscribers pubsub_new = Some st \<and>
     ps_published (publish ''b'' ''x'' st) = map (\<lambda>k. (k, ''b'', ''x'')) ks \<and> distinct ks \<and> set ks = {0, 1}"
proof -
  obtain st where st: "pubsub_run two_subscribers pubsub_new = Some st" "pubsub_reach st"
    using two_subscribers_reach by blast
  have "ps_published st = []" "{k. subscribed st k ''b''} = {0, 1}"
    using st(1) by (auto simp: two_subscribers_def pubsub_step_defs subscribed_def split: if_splits)
  with publish_reaches_subscribers[OF st(2), of "''b''" "''x''"] st(1) show ?thesis by auto
qed

lemma asking_new_subscriber:
  assumes "pubsub_inv st" "ps_manager st = Asking addr k"
  shows "shared_topic (ps_subscriptions st) addr t \<longleftrightarrow> (\<exists>k'. subscribed st k' t)"
proof -
  have t: "tasks_ok st" and c: "consistent st" and gc: "ps_gcs st k = Some \<lparr>gc_addr = addr, gc_stage = Initializing\<rparr>"
    and none: "ps_clients st addr = None"
    using assms by (simp_all add: pubsub_inv_def)
  have "a \<noteq> addr" if k': "connected_at st k' a" "subscribed st k' t" for k' a
  proof
    assume "a = addr"
    with k'(1) tasks_okD(2)[OF t gc] have "k' = k" by (auto simp: connected_at_def)
    with k'(2) gc none show False by (simp add: subscribed_def)
  qed
  moreover have "\<exists>a. connected_at st k' a" if "subscribed st k' t" for k'
    using that by (auto simp: subscribed_def connected_at_def)
  moreover have "subscriber_of (ps_subscriptions st) t a \<noteq> None \<longleftrightarrow> (\<exists>k'. connected_at st k' a \<and> subscribed st k' t)" for a
    using c unfolding consistent_def by (metis not_None_eq)
  ultimately show ?thesis unfolding shared_topic_def by blast
qed

text \<open>C29: When a repeated topic brings the publisher down.  From any state in which a new subscriber is asked for its
  topics, let it answer, be subscribed, and disconnect.  Its clean-up panics exactly if it has named a topic twice or
  more that no other subscriber has: the first removal drops the topic and the next fails to find it.  Both locks are
  then poisoned, and every request to publish panics and sends nothing.  A repeated topic that another subscriber
  shares does no harm.\<close>

theorem repeated_topic_poisons:
  assumes "pubsub_reach st" "ps_manager st = Asking addr k"
    and "pubsub_run [TopicsReply (Some topics), Populate, GcClients k, GcSubscriptions k] st = Some st'"
  defines "fatal \<equiv> \<exists>t. 1 < count_list topics t \<and> (\<forall>k'. \<not> subscribed st k' t)"
  shows "ps_panicked st' = (if fatal then [GcTask k] else []) \<and>
    ps_clients_poisoned st' = fatal \<and> ps_subscriptions_poisoned st' = fatal \<and>
    (fatal \<longrightarrow> (\<forall>topic msg. publish topic msg st' = st'\<lparr>ps_panicked := [PublishTask, GcTask k]\<rparr>))"
proof -
  have inv: "pubsub_inv st" by (rule pubsub_reach_inv[OF assms(1)])
  have gc: "ps_gcs st k = Some \<lparr>gc_addr = addr, gc_stage = Initializing\<rparr>" and ok: "subs_ok (ps_subscriptions st)"
    and fine: "\<not> ps_clients_poisoned st" "\<not> ps_subscriptions_poisoned st" "ps_panicked st = []"
    using inv assms(2) by (simp_all add: pubsub_inv_def unpoisoned_def)
  have lock: "ps_clients_lock st = None"
    using assms(2,3) fine by (auto simp: initialize_clients_def split: if_splits)
  let ?subs = "subscribe_topics addr k topics (ps_subscriptions st)"
  have shared: "shared_topic ?subs addr t \<longleftrightarrow> (\<exists>k'. subscribed st k' t)" for t
    using subscribe_topics_result[OF ok, of addr k topics] asking_new_subscriber[OF inv assms(2), of t]
    by (auto simp: shared_topic_def)
  have "fst (unsubscribe_topics addr topics ?subs) \<longleftrightarrow>
      (\<forall>t\<in>set topics. (\<exists>k'. subscribed st k' t) \<or> count_list topics t = 1)"
    using subscribe_topics_result[OF ok, of addr k topics] unsubscribe_topics_complete[of ?subs addr topics] shared by auto
  also have "\<dots> \<longleftrightarrow> \<not> fatal"
  proof -
    have "t \<in> set topics \<and> count_list topics t \<noteq> 1 \<longleftrightarrow> 1 < count_list topics t" for t
      using count_list_0_iff[of topics t] by (cases "count_list topics t") auto
    then show ?thesis unfolding fatal_def by blast
  qed
  finally have complete: "fst (unsubscribe_topics addr topics ?subs) \<longleftrightarrow> \<not> fatal" .
  obtain subs' where u: "unsubscribe_topics addr topics ?subs = (\<not> fatal, subs')"
    using complete by (cases "unsubscribe_topics addr topics ?subs") auto
  show ?thesis
    using assms(2,3) gc fine lock u
    by (cases fatal) (auto simp: pubsub_step_defs Let_def)
qed

text \<open>A second subscriber names ''c'' twice, which nobody else has; with ''b'', which the first one has, all is well.\<close>

theorem repeated_topic_poisons_witness:
  "\<exists>st bad good. pubsub_run [Accept (Ok (10 :: nat)), TopicsReply (Some [''b'']), Populate, Accept (Ok 11)] pubsub_new = Some st \<and>
     pubsub_run [TopicsReply (Some [''c'', ''b'', ''c'']), Populate, GcClients 1, GcSubscriptions 1] st = Some bad \<and>
     ps_panicked bad = [GcTask 1] \<and> publish ''b'' ''x'' bad = bad\<lparr>ps_panicked := [PublishTask, GcTask 1]\<rparr> \<and>
     pubsub_run [TopicsReply (Some [''b'', ''b'']), Populate, GcClients 1, GcSubscriptions 1] st = Some good \<and>
     ps_panicked good = []"
proof -
  let ?acts = "[Accept (Ok (10 :: nat)), TopicsReply (Some [''b'']), Populate, Accept (Ok 11)]"
  have "\<exists>st. pubsub_run ?acts pubsub_new = Some st \<and> pubsub_reach st"
    by (rule behaved_run_reach[OF _ reach_new]) (auto simp: pubsub_step_defs connected_at_def split: if_splits)
  then obtain st where st: "pubsub_run ?acts pubsub_new = Some st" "pubsub_reach st" by blast
  have asking: "ps_manager st = Asking 11 1" using st(1) by (auto simp: pubsub_step_defs)
  obtain bad good where
    bad: "pubsub_run [TopicsReply (Some [''c'', ''b'', ''c'']), Populate, GcClients 1, GcSubscriptions 1] st = Some bad" and
    good: "pubsub_run [TopicsReply (Some [''b'', ''b'']), Populate, GcClients 1, GcSubscriptions 1] st = Some good"
    using st(1) by (auto simp: pubsub_step_defs Let_def)
  have "subscribed st 0 ''b''" "\<not> subscribed st k' ''c''" for k'
    using st(1) by (auto simp: pubsub_step_defs subscribed_def split: if_splits)
  then have "\<exists>t. 1 < count_list [''c'', ''b'', ''c''] t \<and> (\<forall>k'. \<not> subscribed st k' t)"
    "\<nexists>t. 1 < count_list [''b'', ''b''] t \<and> (\<forall>k'. \<not> subscribed st k' t)"
    by (auto intro: exI[of _ "''c''"] split: if_splits)
  with repeated_topic_poisons[OF st(2) asking bad] repeated_topic_poisons[OF st(2) asking good] st(1) bad good
  show ?thesis by auto
qed

text \<open>Without the second proviso: the clean-up after the first user of an address takes the subscription of the second.\<close>

lemma reused_address_loses:
  "\<exists>st. pubsub_run [Accept (Ok addr), TopicsReply (Some [topic]), Populate, Accept (Ok addr), TopicsReply (Some [topic]), Populate,
        GcClients 0, GcSubscriptions 0, Publish topic msg] pubsub_new = Some st \<and>
     connected_at st 1 addr \<and> ps_published st = []"
  by (simp add: pubsub_step_defs Let_def connected_at_def)

end
