(* ===== verification/Registry.thy ===== *)
theory Registry
  imports Protocol
begin

text \<open>
  \<^verbatim>\<open>tarpc/examples/registry.rs\<close>: several services behind one listener.  A connection starts with a handshake, in
  which the client names a service until the server has one of that name, and then runs that service.
  Strings are the lists of their bytes.  The framed stream, \<^verbatim>\<open>bincode\<close> and the runner of a service are parameters
  (\<open>handshake_env\<close>), each operation run until it is done.
\<close>

section \<open>Lists of services\<close>

text \<open>\<^verbatim>\<open>MultiService\<close> and \<^verbatim>\<open>NilService\<close>; the services of a list have one type \<open>'s\<close> here.\<close>

datatype 's service_list = NilService | MultiService string 's "'s service_list"

primrec append_service :: "'s service_list \<Rightarrow> string \<Rightarrow> 's \<Rightarrow> 's service_list" where
  "append_service NilService service_name service = MultiService service_name service NilService"
| "append_service (MultiService head_name head other_services) service_name service =
     MultiService head_name head (append_service other_services service_name service)"

primrec concat_services :: "'s service_list \<Rightarrow> 's service_list \<Rightarrow> 's service_list" where
  "concat_services NilService registry = registry"
| "concat_services (MultiService head_name head other_services) registry =
     MultiService head_name head (concat_services other_services registry)"

primrec for_each_service :: "'s service_list \<Rightarrow> (string \<Rightarrow> 'st \<Rightarrow> 'st) \<Rightarrow> 'st \<Rightarrow> 'st" where
  "for_each_service NilService f st = st"
| "for_each_service (MultiService service_name service other_services) f st =
     for_each_service other_services f (f service_name st)"

definition multi_service_new :: "string \<Rightarrow> 's \<Rightarrow> 's service_list" where
  "multi_service_new service_name service = MultiService service_name service NilService"

text \<open>\<^verbatim>\<open>push_back\<close> is defined on lists of one service.\<close>

fun push_back :: "'s service_list \<Rightarrow> string \<Rightarrow> 's \<Rightarrow> 's service_list option" where
  "push_back (MultiService head_name head NilService) service_name service =
     Some (MultiService head_name head (MultiService service_name service NilService))"
| "push_back _ _ _ = None"

record 's service_entry =
  se_name :: string
  se_service :: 's

definition service_entry_new :: "string \<Rightarrow> 's \<Rightarrow> 's service_entry" where
  "service_entry_new name service = \<lparr>se_name = name, se_service = service\<rparr>"

text \<open>\<^verbatim>\<open>ServiceTuple::register\<close>, as the macro \<^verbatim>\<open>with_services_impl\<close> defines it for tuples of one service and of more.  The
  empty tuple has no such method, and tuples of more than 21 services neither.\<close>

fun register_services :: "'s service_entry list \<Rightarrow> 's service_list \<Rightarrow> 's service_list" where
  "register_services [] registry = registry"
| "register_services [s] registry = append_service registry (se_name s) (se_service s)"
| "register_services (s # services) registry =
     register_services services (append_service registry (se_name s) (se_service s))"

definition list_with_services :: "'s service_list \<Rightarrow> 's service_entry list \<Rightarrow> 's service_list" where
  "list_with_services self services = register_services services self"

definition registry_with_services :: "'s service_entry list \<Rightarrow> 's service_list" where
  "registry_with_services services = register_services services NilService"

text \<open>\<^verbatim>\<open>ServiceNames::collect\<close> pushes each name; \<^verbatim>\<open>list_services\<close> answers with them.\<close>

definition service_names_collect :: "'s service_list \<Rightarrow> string list" where
  "service_names_collect registry = for_each_service registry (\<lambda>name names. names @ [name]) []"

definition list_services :: "string list \<Rightarrow> string list" where
  "list_services names = names"

section \<open>The handshake of the server\<close>

datatype 'x stream_error = StreamError 'x | IoErrorNew error_kind string

record service_not_found =
  service_name :: string

datatype ('r, 'enc, 'x) handshake_error =
    HandshakeUpgrade service_not_found 'r
  | EncodeResponse 'enc
  | HandshakeIo "'x stream_error"

record ('w, 's, 'r, 'enc, 'x) handshake_env =
  he_send :: "'w \<Rightarrow> string \<Rightarrow> (unit, 'x) result \<times> 'w"
  he_next :: "'w \<Rightarrow> (string, 'x) result option \<times> 'w"
  he_encode :: "(unit, service_not_found) result \<Rightarrow> (string, 'enc) result"
  he_run :: "'r \<Rightarrow> 's \<Rightarrow> 'w \<Rightarrow> 'w"

definition send_response ::
  "('w, 's, 'r, 'enc, 'x) handshake_env \<Rightarrow> (unit, service_not_found) result \<Rightarrow> 'w \<Rightarrow>
   (unit, ('r, 'enc, 'x) handshake_error) result \<times> 'w" where
  "send_response env r w =
     (case he_encode env r of
        Err e \<Rightarrow> (Err (EncodeResponse e), w)
      | Ok resp \<Rightarrow> (let (res, w) = he_send env w resp in (map_err (HandshakeIo \<circ> StreamError) res, w)))"

fun upgrade ::
  "('w, 's, 'r, 'enc, 'x) handshake_env \<Rightarrow> 's service_list \<Rightarrow> string \<Rightarrow> 'r \<Rightarrow> 'w \<Rightarrow>
   (unit, ('r, 'enc, 'x) handshake_error) result \<times> 'w" where
  "upgrade env NilService name runner w =
     (let not_found = \<lparr>service_name = name\<rparr>; (r, w) = send_response env (Err not_found) w
      in case r of Err e \<Rightarrow> (Err e, w) | Ok _ \<Rightarrow> (Err (HandshakeUpgrade not_found runner), w))"
| "upgrade env (MultiService head_name service other_services) name run_fn w =
     (if name = head_name
      then (let (r, w) = send_response env (Ok ()) w
            in case r of Err e \<Rightarrow> (Err e, w) | Ok _ \<Rightarrow> (Ok (), he_run env run_fn service w))
      else upgrade env other_services name run_fn w)"

text \<open>A turn of the loop of \<^verbatim>\<open>MultiService::negotiate\<close>.\<close>

definition negotiate_turn ::
  "('w, 's, 'r, 'enc, 'x) handshake_env \<Rightarrow> 's service_list \<Rightarrow> 'r \<times> 'w \<Rightarrow>
   ((unit, ('r, 'enc, 'x) handshake_error) result control \<times> 'r \<times> 'w) outcome" where
  "negotiate_turn env with_discovery = (\<lambda>(runner, w).
     let (frame, w) = he_next env w in
     case frame of
       None \<Rightarrow> Return (Break (Err (HandshakeIo (IoErrorNew BrokenPipe ''''))), runner, w)
     | Some (Err e) \<Rightarrow> Return (Break (Err (HandshakeIo (StreamError e))), runner, w)
     | Some (Ok name) \<Rightarrow>
         (let (r, w) = upgrade env with_discovery name runner w in
          case r of
            Err (HandshakeUpgrade not_found runner) \<Rightarrow> Return (Continue, runner, w)
          | Err e \<Rightarrow> Return (Break (Err e), runner, w)
          | Ok _ \<Rightarrow> Return (Break (Ok ()), runner, w)))"

text \<open>\<open>serve_discovery\<close> makes a service of the names, \<^verbatim>\<open>names.serve()\<close>.\<close>

definition server_negotiate ::
  "nat \<Rightarrow> ('w, 's, 'r, 'enc, 'x) handshake_env \<Rightarrow> (string list \<Rightarrow> 's) \<Rightarrow> 's service_list \<Rightarrow> string \<Rightarrow> 'r \<Rightarrow> 'w \<Rightarrow>
   ((unit, ('r, 'enc, 'x) handshake_error) result \<times> 'r \<times> 'w) outcome" where
  "server_negotiate n env serve_discovery self discovery runner w =
     (let names = service_names_collect self;
          with_discovery = append_service self discovery (serve_discovery names)
      in loop n (negotiate_turn env with_discovery) (runner, w))"

text \<open>\<^verbatim>\<open>FramedJsonRunner::run\<close>: each request of the channel is executed, until the stream ends or fails.\<close>

fun framed_json_run ::
  "nat \<Rightarrow> ('w \<Rightarrow> ('rq, 'x) result option \<times> 'w) \<Rightarrow> ('rq \<Rightarrow> 's \<Rightarrow> 'w \<Rightarrow> 'w) \<Rightarrow> 's \<Rightarrow> 'w \<Rightarrow> 'w outcome" where
  "framed_json_run 0 next_request execute serve w = OutOfFuel"
| "framed_json_run (Suc n) next_request execute serve w =
     (let (r, w) = next_request w in
      case r of
        Some (Ok request) \<Rightarrow> framed_json_run n next_request execute serve (execute request serve w)
      | _ \<Rightarrow> Return w)"

section \<open>The handshake of the client\<close>

datatype ('dec, 'x) negotiate_error =
    Disconnect
  | DecodeResponse 'dec
  | NegotiateIo "'x stream_error"
  | NegotiateServiceNotFound service_not_found

definition client_negotiate ::
  "('w \<Rightarrow> string \<Rightarrow> (unit, 'x) result \<times> 'w) \<Rightarrow> ('w \<Rightarrow> (string, 'x) result option \<times> 'w) \<Rightarrow>
   (string \<Rightarrow> ((unit, service_not_found) result, 'dec) result) \<Rightarrow> string \<Rightarrow> 'w \<Rightarrow> (unit, ('dec, 'x) negotiate_error) result \<times> 'w" where
  "client_negotiate send_frame next_frame decode name w =
     (case send_frame w name of
        (Err e, w) \<Rightarrow> (Err (NegotiateIo (StreamError e)), w)
      | (Ok _, w) \<Rightarrow>
          (case next_frame w of
             (None, w) \<Rightarrow> (Err (NegotiateIo (IoErrorNew BrokenPipe '''')), w)
           | (Some (Err e), w) \<Rightarrow> (Err (NegotiateIo (StreamError e)), w)
           | (Some (Ok resp), w) \<Rightarrow>
               (case decode resp of
                  Err e \<Rightarrow> (Err (DecodeResponse e), w)
                | Ok (Err not_found) \<Rightarrow> (Err (NegotiateServiceNotFound not_found), w)
                | Ok (Ok _) \<Rightarrow> (Ok (), w))))"

section \<open>A list of services is a list of pairs\<close>

primrec services :: "'s service_list \<Rightarrow> (string \<times> 's) list" where
  "services NilService = []"
| "services (MultiService name service other_services) = (name, service) # services other_services"

lemma services_append [simp]: "services (append_service l name s) = services l @ [(name, s)]"
  by (induction l) simp_all

lemma services_concat [simp]: "services (concat_services l l') = services l @ services l'"
  by (induction l) simp_all

lemma services_register: "services (register_services ss l) = services l @ map (\<lambda>s. (se_name s, se_service s)) ss"
  by (induction ss l rule: register_services.induct) simp_all

lemma for_each_fold: "for_each_service l f st = fold f (map fst (services l)) st"
  by (induction l arbitrary: st) simp_all

lemma service_names_collect_eq: "service_names_collect l = map fst (services l)"
proof -
  have "fold (\<lambda>name names. names @ [name]) xs ys = ys @ xs" for xs ys :: "string list"
    by (induction xs arbitrary: ys) simp_all
  then show ?thesis by (simp add: service_names_collect_def for_each_fold)
qed

text \<open>The answer to a name, and what follows it.\<close>

definition upgrade_spec ::
  "('w, 's, 'r, 'enc, 'x) handshake_env \<Rightarrow> 's option \<Rightarrow> string \<Rightarrow> 'r \<Rightarrow> 'w \<Rightarrow>
   (unit, ('r, 'enc, 'x) handshake_error) result \<times> 'w" where
  "upgrade_spec env found name runner w =
     (case found of
        Some s \<Rightarrow>
          (case send_response env (Ok ()) w of
             (Err e, w) \<Rightarrow> (Err e, w)
           | (Ok _, w) \<Rightarrow> (Ok (), he_run env runner s w))
      | None \<Rightarrow>
          (case send_response env (Err \<lparr>service_name = name\<rparr>) w of
             (Err e, w) \<Rightarrow> (Err e, w)
           | (Ok _, w) \<Rightarrow> (Err (HandshakeUpgrade \<lparr>service_name = name\<rparr> runner), w)))"

lemma upgrade_eq: "upgrade env l name runner w = upgrade_spec env (map_of (services l) name) name runner w"
  by (induction l) (auto simp: upgrade_spec_def Let_def split: prod.splits result.splits)

section \<open>A connection\<close>

text \<open>The documented behaviour of the framed stream while the peer is there: \<open>inbox\<close> are the frames that arrive before
  the peer closes its end, \<open>outbox\<close> what was sent.\<close>

definition connection_laws ::
  "('w, 's, 'r, 'enc, 'x) handshake_env \<Rightarrow> ('w \<Rightarrow> string list) \<Rightarrow> ('w \<Rightarrow> string list) \<Rightarrow>
   ((unit, service_not_found) result \<Rightarrow> string) \<Rightarrow> bool" where
  "connection_laws env inbox outbox enc \<longleftrightarrow>
     (\<forall>w. inbox w = [] \<longrightarrow> fst (he_next env w) = None \<and> outbox (snd (he_next env w)) = outbox w) \<and>
     (\<forall>w b bs. inbox w = b # bs \<longrightarrow> fst (he_next env w) = Some (Ok b) \<and> inbox (snd (he_next env w)) = bs \<and>
        outbox (snd (he_next env w)) = outbox w) \<and>
     (\<forall>w b. fst (he_send env w b) = Ok () \<and> inbox (snd (he_send env w b)) = inbox w \<and>
        outbox (snd (he_send env w b)) = outbox w @ [b]) \<and>
     (\<forall>r. he_encode env r = Ok (enc r))"

abbreviation nack :: "((unit, service_not_found) result \<Rightarrow> string) \<Rightarrow> string \<Rightarrow> string" where
  "nack enc name \<equiv> enc (Err \<lparr>service_name = name\<rparr>)"

lemma connection_send:
  assumes "connection_laws env inbox outbox enc"
  obtains w' where "send_response env r w = (Ok (), w')" "inbox w' = inbox w" "outbox w' = outbox w @ [enc r]"
proof -
  have "fst (he_send env w (enc r)) = Ok ()" "he_encode env r = Ok (enc r)"
    "inbox (snd (he_send env w (enc r))) = inbox w" "outbox (snd (he_send env w (enc r))) = outbox w @ [enc r]"
    using assms unfolding connection_laws_def by blast+
  then show thesis using that[of "snd (he_send env w (enc r))"] by (cases "he_send env w (enc r)") (simp add: send_response_def)
qed

lemma connection_next:
  assumes "connection_laws env inbox outbox enc" "inbox w = b # bs"
  obtains w' where "he_next env w = (Some (Ok b), w')" "inbox w' = bs" "outbox w' = outbox w"
proof -
  have "fst (he_next env w) = Some (Ok b)" "inbox (snd (he_next env w)) = bs" "outbox (snd (he_next env w)) = outbox w"
    using assms unfolding connection_laws_def by blast+
  then show thesis using that[of "snd (he_next env w)"] by (cases "he_next env w") simp
qed

lemma negotiate_nacks:
  assumes laws: "connection_laws env inbox outbox enc"
  shows "inbox w = unknown @ rest \<Longrightarrow> set unknown \<inter> fst ` set (services l) = {} \<Longrightarrow>
    \<exists>w'. inbox w' = rest \<and> outbox w' = outbox w @ map (nack enc) unknown \<and>
      loop (length unknown + n) (negotiate_turn env l) (runner, w) = loop n (negotiate_turn env l) (runner, w')"
proof (induction unknown arbitrary: w)
  case (Cons name unknown)
  then obtain w1 where n: "he_next env w = (Some (Ok name), w1)" "inbox w1 = unknown @ rest" "outbox w1 = outbox w"
    using connection_next[OF laws, of w name "unknown @ rest"] by auto
  obtain w2 where s: "send_response env (Err \<lparr>service_name = name\<rparr>) w1 = (Ok (), w2)"
    "inbox w2 = inbox w1" "outbox w2 = outbox w1 @ [nack enc name]"
    using connection_send[OF laws] by blast
  have "map_of (services l) name = None" using Cons.prems(2) by (auto simp: map_of_eq_None_iff)
  then have "negotiate_turn env l (runner, w) = Return (Continue, runner, w2)"
    using n(1) s(1) by (simp add: negotiate_turn_def upgrade_eq upgrade_spec_def)
  moreover obtain w' where "inbox w' = rest" "outbox w' = outbox w2 @ map (nack enc) unknown"
    "loop (length unknown + n) (negotiate_turn env l) (runner, w2) = loop n (negotiate_turn env l) (runner, w')"
    using Cons.IH[of w2] Cons.prems(2) n(2) s(2) by auto
  ultimately show ?case using n s by auto
qed auto

lemma negotiate_disconnected:
  assumes laws: "connection_laws env inbox outbox enc" and frames: "inbox w = unknown"
    and unknown: "set unknown \<inter> insert discovery (fst ` set (services self)) = {}" and n: "length unknown < n"
  shows "\<exists>w'. server_negotiate n env serve_discovery self discovery runner w =
      Return (Err (HandshakeIo (IoErrorNew BrokenPipe '''')), runner, w') \<and> outbox w' = outbox w @ map (nack enc) unknown"
proof -
  let ?l = "append_service self discovery (serve_discovery (service_names_collect self))"
  obtain m where m: "n = length unknown + Suc m" using n less_iff_Suc_add by auto
  obtain w1 where w1: "inbox w1 = []" "outbox w1 = outbox w @ map (nack enc) unknown"
    "loop n (negotiate_turn env ?l) (runner, w) = loop (Suc m) (negotiate_turn env ?l) (runner, w1)"
    using negotiate_nacks[OF laws, of w unknown "[]" ?l "Suc m" runner] frames unknown m by (auto simp: image_Un)
  have "fst (he_next env w1) = None" "outbox (snd (he_next env w1)) = outbox w1"
    using laws w1(1) unfolding connection_laws_def by blast+
  with w1(2,3) show ?thesis
    by (cases "he_next env w1") (simp add: server_negotiate_def negotiate_turn_def)
qed

section \<open>Properties\<close>

text \<open>A registry serves, for a name, the service registered first under that name, whichever way the registry was
  built up; it answers every other name that it was not found.  \<open>upgrade_spec\<close> is the specification.\<close>

theorem upgrade_first_registered:
  "upgrade env (list_with_services (registry_with_services ss) ss') name runner w =
   upgrade_spec env (map_of (map (\<lambda>s. (se_name s, se_service s)) (ss @ ss')) name) name runner w"
  by (simp add: upgrade_eq list_with_services_def registry_with_services_def services_register)

text \<open>\<^verbatim>\<open>ServiceDiscovery::list_services\<close> lists the names of the registered services, in the order of their registration, and
  not its own; and a service that is registered under the name of the discovery service hides it.\<close>

theorem discovery_lists_services:
  "list_services (service_names_collect (list_with_services (registry_with_services ss) ss')) = map se_name (ss @ ss') \<and>
   map_of (services (append_service self discovery s)) name =
     (case map_of (services self) name of Some s' \<Rightarrow> Some s' | None \<Rightarrow> if name = discovery then Some s else None)"
  by (auto simp: list_services_def service_names_collect_eq list_with_services_def registry_with_services_def services_register
      comp_def map_add_def split: option.splits)

text \<open>C19: \<^verbatim>\<open>MultiService::negotiate\<close> returns: it nacks every name that is neither registered nor that of the discovery
  service, acknowledges the first name that is, and runs that service on the rest of the connection, on a link on
  which every send succeeds.  One turn of the loop per name is enough.\<close>

theorem negotiate_serves:
  assumes laws: "connection_laws env inbox outbox enc" and frames: "inbox w = unknown @ name # rest"
    and unknown: "set unknown \<inter> insert discovery (fst ` set (services self)) = {}" and n: "length unknown < n"
    and found: "map_of (services self @ [(discovery, serve_discovery (map fst (services self)))]) name = Some s"
  shows "\<exists>w'. server_negotiate n env serve_discovery self discovery runner w = Return (Ok (), runner, he_run env runner s w') \<and>
    inbox w' = rest \<and> outbox w' = outbox w @ map (nack enc) unknown @ [enc (Ok ())]"
proof -
  let ?l = "append_service self discovery (serve_discovery (service_names_collect self))"
  obtain m where m: "n = length unknown + Suc m" using n less_iff_Suc_add by auto
  obtain w1 where w1: "inbox w1 = name # rest" "outbox w1 = outbox w @ map (nack enc) unknown"
    "loop n (negotiate_turn env ?l) (runner, w) = loop (Suc m) (negotiate_turn env ?l) (runner, w1)"
    using negotiate_nacks[OF laws, of w unknown "name # rest" ?l "Suc m" runner] frames unknown m by (auto simp: image_Un)
  obtain w2 where w2: "he_next env w1 = (Some (Ok name), w2)" "inbox w2 = rest" "outbox w2 = outbox w1"
    using connection_next[OF laws w1(1)] by blast
  obtain w3 where w3: "send_response env (Ok ()) w2 = (Ok (), w3)" "inbox w3 = inbox w2" "outbox w3 = outbox w2 @ [enc (Ok ())]"
    using connection_send[OF laws] by blast
  have "map_of (services ?l) name = Some s" using found by (simp add: service_names_collect_eq)
  with w2(1) w3(1) have "negotiate_turn env ?l (runner, w1) = Return (Break (Ok ()), runner, he_run env runner s w3)"
    by (simp add: negotiate_turn_def upgrade_eq upgrade_spec_def)
  with w1 w2 w3 show ?thesis by (intro exI[of _ w3]) (simp add: server_negotiate_def)
qed

text \<open>A connection with two lists of frames; the runner notes the service that it runs.\<close>

type_synonym sample_connection = "string list \<times> string list \<times> string list"

fun sample_encode :: "(unit, service_not_found) result \<Rightarrow> string" where
  "sample_encode (Ok _) = ''Y''"
| "sample_encode (Err e) = CHR ''N'' # service_name e"

definition sample_decode :: "string \<Rightarrow> ((unit, service_not_found) result, unit) result" where
  "sample_decode b = (if b = ''Y'' then Ok (Ok ()) else if b = [] then Err () else Ok (Err \<lparr>service_name = tl b\<rparr>))"

definition sample_handshake :: "(sample_connection, string, unit, unit, unit) handshake_env" where
  "sample_handshake =
     \<lparr>he_send = (\<lambda>(i, out, run) b. (Ok (), i, out @ [b], run)),
      he_next = (\<lambda>(i, out, run). case i of [] \<Rightarrow> (None, i, out, run) | b # bs \<Rightarrow> (Some (Ok b), bs, out, run)),
      he_encode = (\<lambda>r. Ok (sample_encode r)),
      he_run = (\<lambda>_ s (i, out, run). (i, out, run @ [s]))\<rparr>"

lemma sample_connection_laws: "connection_laws sample_handshake fst (fst \<circ> snd) sample_encode"
  by (auto simp: connection_laws_def sample_handshake_def split: list.splits)

definition sample_registry :: "string service_list" where
  "sample_registry = registry_with_services [service_entry_new ''Hello'' ''h'', service_entry_new ''Add'' ''a'']"

theorem negotiate_serves_witness:
  "\<exists>w'. server_negotiate 3 sample_handshake concat sample_registry ''discovery'' () ([''Goodness me'', ''Add'', ''request''], [], []) =
      Return (Ok (), (), he_run sample_handshake () ''a'' w') \<and>
    fst w' = [''request''] \<and> fst (snd w') = [''NGoodness me'', ''Y'']"
proof -
  have "map_of (services sample_registry @ [(''discovery'', concat (map fst (services sample_registry)))]) ''Add'' = Some ''a''"
    "set [''Goodness me''] \<inter> insert ''discovery'' (fst ` set (services sample_registry)) = {}"
    by (simp_all add: sample_registry_def registry_with_services_def service_entry_new_def)
  from negotiate_serves[where serve_discovery = concat, OF sample_connection_laws _ this(2) _ this(1),
      of "([''Goodness me'', ''Add'', ''request''], [], [])" "[''request'']" 3 "()"]
  show ?thesis by simp
qed

text \<open>C27: The two ends of a handshake agree.  The server answers a name with one frame before it runs a service; a client
  that reads this frame is told that the service is there exactly when the server runs it, and otherwise which
  name was not found.\<close>

theorem handshake_agrees:
  assumes laws: "connection_laws env inbox outbox enc" and decode: "\<And>r. decode (enc r) = Ok r"
  shows "\<exists>frame w'. outbox w' = outbox w @ [frame] \<and> inbox w' = inbox w \<and>
    upgrade env self name runner w =
      (case map_of (services self) name of
         Some s \<Rightarrow> (Ok (), he_run env runner s w')
       | None \<Rightarrow> (Err (HandshakeUpgrade \<lparr>service_name = name\<rparr> runner), w')) \<and>
    (\<forall>send_frame next_frame cw cw1 cw2. send_frame cw name = (Ok (), cw1) \<longrightarrow> next_frame cw1 = (Some (Ok frame), cw2) \<longrightarrow>
       client_negotiate send_frame next_frame decode name cw =
         (case map_of (services self) name of
            Some s \<Rightarrow> Ok ()
          | None \<Rightarrow> Err (NegotiateServiceNotFound \<lparr>service_name = name\<rparr>), cw2))"
proof -
  let ?r = "if map_of (services self) name = None then Err \<lparr>service_name = name\<rparr> else Ok ()"
  obtain w' where w': "send_response env ?r w = (Ok (), w')" "inbox w' = inbox w" "outbox w' = outbox w @ [enc ?r]"
    using connection_send[OF laws] by blast
  show ?thesis
    by (rule exI[of _ "enc ?r"], rule exI[of _ w'])
      (use w' decode in \<open>cases "map_of (services self) name"; simp add: upgrade_eq upgrade_spec_def client_negotiate_def\<close>)
qed

theorem handshake_agrees_witness:
  "\<exists>frame w'. (fst \<circ> snd) w' = [] @ [frame] \<and>
    upgrade sample_handshake sample_registry ''Nope'' () ([], [], []) = (Err (HandshakeUpgrade \<lparr>service_name = ''Nope''\<rparr> ()), w') \<and>
    client_negotiate (\<lambda>w b. (Ok (), w)) (\<lambda>w. (Some (Ok frame), w)) sample_decode ''Nope'' () =
      (Err (NegotiateServiceNotFound \<lparr>service_name = ''Nope''\<rparr>) :: (unit, (unit, unit) negotiate_error) result, ())"
proof -
  have dec: "sample_decode (sample_encode r) = Ok r" for r by (cases r) (auto simp: sample_decode_def)
  let ?w = "([], [], []) :: sample_connection"
  have none: "map_of (services sample_registry) ''Nope'' = None"
    by (simp add: sample_registry_def registry_with_services_def service_entry_new_def)
  have "\<exists>frame w'. (fst \<circ> snd) w' = (fst \<circ> snd) ?w @ [frame] \<and> fst w' = fst ?w \<and>
    upgrade sample_handshake sample_registry ''Nope'' () ?w = (Err (HandshakeUpgrade \<lparr>service_name = ''Nope''\<rparr> ()), w') \<and>
    (\<forall>send_frame next_frame (cw :: unit) cw1 cw2. send_frame cw ''Nope'' = (Ok (), cw1) \<longrightarrow> next_frame cw1 = (Some (Ok frame), cw2) \<longrightarrow>
       client_negotiate send_frame next_frame sample_decode ''Nope'' cw =
         (Err (NegotiateServiceNotFound \<lparr>service_name = ''Nope''\<rparr>) :: (unit, (unit, unit) negotiate_error) result, cw2))"
    by (rule handshake_agrees[OF sample_connection_laws dec, of "?w" sample_registry "''Nope''" "()", unfolded none option.case])
  then show ?thesis
  proof (elim exE conjE, goal_cases)
    case (1 frame w')
    from 1(1,3) 1(4)[rule_format, of "\<lambda>w b. (Ok (), w)" "()" "()" "\<lambda>w. (Some (Ok frame), w)" "()"] show ?case
      by (intro exI[of _ frame] exI[of _ w']) simp
  qed
qed

end
