(* ===== verification/Compression.thy ===== *)
theory Compression
  imports Protocol
begin

text \<open>
  \<^verbatim>\<open>tarpc/examples/compression.rs\<close>: messages that are compressed before they are sent.  \<^verbatim>\<open>bincode\<close> and \<^verbatim>\<open>flate2\<close> are
  parameters (\<open>compression_env\<close>), with what is relied on of them in \<open>compression_laws\<close>; the combinators of \<^verbatim>\<open>futures\<close> that put
  the two functions around a transport are not modelled.
\<close>

datatype compression_algorithm = Deflate

datatype ('t, 'b) compressed_message = Uncompressed 't | Compressed compression_algorithm 'b

text \<open>\<^verbatim>\<open>encode_to_vec\<close> and \<^verbatim>\<open>decode_from_slice\<close> of \<^verbatim>\<open>bincode\<close>; \<^verbatim>\<open>DeflateEncoder::write_all\<close> into a new encoder, its \<^verbatim>\<open>finish\<close>, and
  \<^verbatim>\<open>DeflateDecoder::read_to_end\<close>.\<close>

record ('t, 'b, 'enc, 'x, 'io) compression_env =
  cp_encode_to_vec :: "'t \<Rightarrow> ('b, 'x) result"
  cp_decode_from_slice :: "'b \<Rightarrow> ('t \<times> nat, 'x) result"
  cp_write_all :: "'b \<Rightarrow> ('enc, 'io) result"
  cp_finish :: "'enc \<Rightarrow> ('b, 'io) result"
  cp_read_to_end :: "'b \<Rightarrow> ('b, 'io) result"

text \<open>\<^verbatim>\<open>io::Error::other\<close> of an error, an error of an I/O operation, or one of its own.\<close>

datatype ('x, 'io) compression_error = CompressionOther 'x | CompressionIo 'io | Unsupported error_kind compression_algorithm

definition compression_serialize ::
  "('t, 'b, 'enc, 'x, 'io) compression_env \<Rightarrow> 't \<Rightarrow> ('b, ('x, 'io) compression_error) result" where
  "compression_serialize env t = map_err CompressionOther (cp_encode_to_vec env t)"

definition compression_deserialize ::
  "('t, 'b, 'enc, 'x, 'io) compression_env \<Rightarrow> 'b \<Rightarrow> ('t, ('x, 'io) compression_error) result" where
  "compression_deserialize env msg =
     (case map_err CompressionOther (cp_decode_from_slice env msg) of Err e \<Rightarrow> Err e | Ok (d, _) \<Rightarrow> Ok d)"

definition compress ::
  "('t, 'b, 'enc, 'x, 'io) compression_env \<Rightarrow> 't \<Rightarrow> (('t, 'b) compressed_message, ('x, 'io) compression_error) result outcome" where
  "compress env msg =
     (case compression_serialize env msg of
        Err e \<Rightarrow> Return (Err e)
      | Ok bytes \<Rightarrow>
          (case cp_write_all env bytes of
             Err _ \<Rightarrow> Panic
           | Ok encoder \<Rightarrow>
               (case cp_finish env encoder of
                  Err e \<Rightarrow> Return (Err (CompressionIo e))
                | Ok compressed \<Rightarrow> Return (Ok (Compressed Deflate compressed)))))"

fun decompress ::
  "('t, 'b, 'enc, 'x, 'io) compression_env \<Rightarrow> ('t, 'b) compressed_message \<Rightarrow> ('t, ('x, 'io) compression_error) result" where
  "decompress env (Compressed algorithm payload) =
     (if algorithm \<noteq> Deflate then Err (Unsupported InvalidData algorithm)
      else (case cp_read_to_end env payload of
              Err e \<Rightarrow> Err (CompressionIo e)
            | Ok payload \<Rightarrow> compression_deserialize env payload))"
| "decompress env (Uncompressed msg) = Ok msg"

text \<open>Writing to a vector does not fail; decompressing gives back what was compressed, and decoding what was encoded.\<close>

definition compression_laws :: "('t, 'b, 'enc, 'x, 'io) compression_env \<Rightarrow> bool" where
  "compression_laws env \<longleftrightarrow>
     (\<forall>b. \<exists>enc c. cp_write_all env b = Ok enc \<and> cp_finish env enc = Ok c \<and> cp_read_to_end env c = Ok b) \<and>
     (\<forall>t b. cp_encode_to_vec env t = Ok b \<longrightarrow> (\<exists>n. cp_decode_from_slice env b = Ok (t, n)))"

text \<open>What \<^verbatim>\<open>compress\<close> makes of a message, \<^verbatim>\<open>decompress\<close> turns back into it, and \<^verbatim>\<open>compress\<close> fails only if the message cannot be
  encoded; it does not panic.\<close>

theorem compress_decompress:
  assumes "compression_laws env"
  shows "yields (compress env msg) (\<lambda>r. case r of
      Ok m \<Rightarrow> decompress env m = Ok msg
    | Err e \<Rightarrow> \<exists>x. e = CompressionOther x \<and> cp_encode_to_vec env msg = Err x)"
proof (cases "cp_encode_to_vec env msg")
  case (Ok b)
  obtain enc c where "cp_write_all env b = Ok enc" "cp_finish env enc = Ok c" "cp_read_to_end env c = Ok b"
    using assms unfolding compression_laws_def by blast
  moreover obtain n where "cp_decode_from_slice env b = Ok (msg, n)"
    using assms Ok unfolding compression_laws_def by blast
  ultimately show ?thesis
    using Ok by (simp add: compress_def compression_serialize_def compression_deserialize_def yields_def)
qed (simp add: compress_def compression_serialize_def yields_def)

theorem compress_decompress_witness:
  "yields (compress \<lparr>cp_encode_to_vec = (\<lambda>t. Ok [t]), cp_decode_from_slice = (\<lambda>b. Ok (hd b, 1)), cp_write_all = (\<lambda>b. Ok b),
       cp_finish = (\<lambda>b. Ok (0 # b)), cp_read_to_end = (\<lambda>b. Ok (tl b))\<rparr> (5 :: nat)) (\<lambda>r. case r of
      Ok m \<Rightarrow> m = Compressed Deflate [0, 5]
    | Err (e :: (unit, unit) compression_error) \<Rightarrow> False)"
proof -
  let ?env = "\<lparr>cp_encode_to_vec = (\<lambda>t. Ok [t]), cp_decode_from_slice = (\<lambda>b. Ok (hd b, 1)), cp_write_all = (\<lambda>b. Ok b),
       cp_finish = (\<lambda>b. Ok (0 # b)), cp_read_to_end = (\<lambda>b. Ok (tl b))\<rparr> :: (nat, nat list, nat list, unit, unit) compression_env"
  have "compression_laws ?env" by (auto simp: compression_laws_def)
  from compress_decompress[OF this, of 5] show ?thesis
    by (auto simp: yields_def compress_def compression_serialize_def)
qed

end
