(* ===== verification/Tracing_Example.thy ===== *)
theory Tracing_Example
  imports Stubs
begin

text \<open>
  \<^verbatim>\<open>tarpc/examples/tracing.rs\<close>: a service that doubles numbers through a service that adds them.  The adding service refuses every
  second request, by a hook; the doubling service reaches it through a stub that retries, over a round robin of
  several connections.  A connection is a stub; what is relied on is that it answers what the server
  behind it answers (\<open>reaches\<close>).
\<close>

section \<open>The services\<close>

type_synonym i32 = "32 word"

text \<open>The request and response types of \<^verbatim>\<open>Add\<close> and of \<^verbatim>\<open>Double\<close>, which have one variant each.\<close>

datatype add_request = AddRequest i32 i32

datatype add_response = AddResponse i32

datatype double_request = DoubleRequest i32

datatype double_response = DoubleResponse "(i32, string) result"

text \<open>\<^verbatim>\<open>AddServer\<close>.  A sum that overflows wraps around, and panics in a build that checks for it; the property below
  excludes it.\<close>

definition add_server :: "(bool, add_request, add_response) serve_fn" where
  "add_server = (\<lambda>ctx req w. case req of AddRequest x y \<Rightarrow> (Ok (AddResponse (x + y)), w))"

text \<open>The hook: the world is the flag \<^verbatim>\<open>something_bad_happened\<close>, which \<^verbatim>\<open>fetch_xor(true)\<close> flips.\<close>

definition gamma_ray :: "(bool, unit, add_request) before_request" where
  "gamma_ray = (\<lambda>h ctx req bad.
     (if bad then Err (server_error_new NotFound ''Gamma Ray!'') else Ok (), h, ctx, \<not> bad))"

definition hooked_add_server :: "(bool, add_request, add_response) serve_fn" where
  "hooked_add_server = before_serving gamma_ray (before_then before_new ()) add_server"

section \<open>The stub\<close>

definition tracing_should_retry :: "('resp, 'e rpc_error) result \<Rightarrow> 32 word \<Rightarrow> bool" where
  "tracing_should_retry resp attempts = (case resp of Err _ \<Rightarrow> attempts < 3 | Ok _ \<Rightarrow> False)"

text \<open>The round robin as a stub: its counter is part of the world.\<close>

definition round_robin_stub ::
  "('stub \<Rightarrow> ('w, 'req, 'resp, 'e) stub) \<Rightarrow> ('w \<times> 'stub cycle, 'req, 'resp, 'e) panicking_stub" where
  "round_robin_stub call = (\<lambda>ctx request (w, stubs).
     obind (round_robin_call call stubs ctx request w) (\<lambda>((r, w), stubs). Return (r, w, stubs)))"

definition make_stub ::
  "nat \<Rightarrow> bool \<Rightarrow> ('stub \<Rightarrow> ('w, 'req, 'resp, 'e) stub) \<Rightarrow> ('w \<times> 'stub cycle, 'req, 'resp, 'e) panicking_stub" where
  "make_stub n overflow_checks call = retry_call n overflow_checks tracing_should_retry (round_robin_stub call)"

text \<open>\<^verbatim>\<open>AddClient::add\<close>, as the macro generates it, and \<^verbatim>\<open>DoubleServer\<close>; \<open>to_string\<close> prints an error, and \<open>now\<close> is the context that
  \<^verbatim>\<open>context::current\<close> returns.\<close>

definition add_client ::
  "('w, add_request, add_response, 'e) panicking_stub \<Rightarrow> rpc_context \<Rightarrow> i32 \<Rightarrow> i32 \<Rightarrow> 'w \<Rightarrow> ((i32, 'e rpc_error) result \<times> 'w) outcome" where
  "add_client stub ctx x y w =
     obind (stub ctx (AddRequest x y) w) (\<lambda>(resp, w).
       Return (case resp of Ok (AddResponse msg) \<Rightarrow> Ok msg | Err e \<Rightarrow> Err e, w))"

definition double_server ::
  "('e rpc_error \<Rightarrow> string) \<Rightarrow> ('w, add_request, add_response, 'e) panicking_stub \<Rightarrow> rpc_context \<Rightarrow> rpc_context \<Rightarrow> double_request \<Rightarrow> 'w \<Rightarrow>
   ((double_response, server_error) result \<times> 'w) outcome" where
  "double_server to_string stub now ctx req w =
     (case req of DoubleRequest x \<Rightarrow>
        obind (add_client stub now x x w) (\<lambda>(r, w). Return (Ok (DoubleResponse (map_err to_string r)), w)))"

text \<open>The calls of \<^verbatim>\<open>main\<close>, one after the other, with the context of each call on the doubling server.\<close>

fun double_calls ::
  "('e rpc_error \<Rightarrow> string) \<Rightarrow> ('w, add_request, add_response, 'e) panicking_stub \<Rightarrow> rpc_context \<Rightarrow> (rpc_context \<times> i32) list \<Rightarrow> 'w \<Rightarrow>
   ((double_response, server_error) result list \<times> 'w) outcome" where
  "double_calls to_string stub ctx [] w = Return ([], w)"
| "double_calls to_string stub ctx ((now, x) # calls) w =
     obind (double_server to_string stub now ctx (DoubleRequest x) w) (\<lambda>(r, w).
     obind (double_calls to_string stub ctx calls w) (\<lambda>(rs, w). Return (r # rs, w)))"

section \<open>One attempt\<close>

definition reaches ::
  "('stub \<Rightarrow> ('w, 'req, 'resp, 'e) stub) \<Rightarrow> ('w, 'req, 'resp) serve_fn \<Rightarrow> bool" where
  "reaches call srv \<longleftrightarrow> (\<forall>b. call b = serve_call srv)"

lemma hooked_add_server_flips:
  "hooked_add_server ctx (AddRequest x y) bad =
   (if bad then Err (server_error_new NotFound ''Gamma Ray!'') else Ok (AddResponse (x + y)), \<not> bad)"
  by (simp add: hooked_add_server_def hook_then_serve_def before_new_def gamma_ray_def add_server_def)

abbreviation turned :: "'stub cycle \<Rightarrow> nat \<Rightarrow> 'stub cycle" where
  "turned stubs k \<equiv> stubs\<lparr>cy_next := cy_next stubs + of_nat k\<rparr>"

lemma one_attempt:
  assumes "reaches call hooked_add_server" "cy_elements stubs \<noteq> []"
  shows "round_robin_stub call ctx (AddRequest x y) (bad, stubs) =
    Return (if bad then Err (Server (server_error_new NotFound ''Gamma Ray!'')) else Ok (AddResponse (x + y)), \<not> bad, turned stubs 1)"
  using assms
  by (simp add: round_robin_stub_def round_robin_call_def cycle_next_result reaches_def serve_call_def hooked_add_server_flips)

text \<open>A request is answered at the first attempt, or at the second if the flag is set.  The flag is set afterwards.\<close>

lemma make_stub_answers:
  assumes "reaches call hooked_add_server" "cy_elements stubs \<noteq> []" "1 < n"
  shows "make_stub n overflow_checks call ctx (AddRequest x y) (bad, stubs) =
    Return (Ok (AddResponse (x + y)), True, turned stubs (if bad then 2 else 1))"
proof (cases bad)
  case False
  show ?thesis
    unfolding make_stub_def
    by (rule retry_call_first[where k = 0]) (use assms False in \<open>auto simp: one_attempt tracing_should_retry_def\<close>)
next
  case True
  show ?thesis
    unfolding make_stub_def
    by (rule retry_call_first[where k = 1]) (use assms True in \<open>auto simp: one_attempt tracing_should_retry_def\<close>)
qed

lemma double_server_answers:
  assumes "reaches call hooked_add_server" "cy_elements stubs \<noteq> []" "1 < n"
  shows "double_server to_string (make_stub n overflow_checks call) now ctx (DoubleRequest x) (bad, stubs) =
    Return (Ok (DoubleResponse (Ok (x + x))), True, turned stubs (if bad then 2 else 1))"
  by (simp add: double_server_def add_client_def make_stub_answers[OF assms])

lemma double_calls_answer:
  assumes "reaches call hooked_add_server" "1 < n"
  shows "cy_elements stubs \<noteq> [] \<Longrightarrow>
    double_calls to_string (make_stub n overflow_checks call) ctx calls (bad, stubs) =
    Return (map (\<lambda>(_, x). Ok (DoubleResponse (Ok (x + x)))) calls, bad \<or> calls \<noteq> [],
            turned stubs (2 * length calls - (if bad then 0 else 1)))"
proof (induction calls arbitrary: bad stubs)
  case (Cons c calls)
  obtain now x where c: "c = (now, x)" by (cases c)
  let ?k = "if bad then 2 else 1 :: nat"
  have "double_calls to_string (make_stub n overflow_checks call) ctx calls (True, turned stubs ?k) =
    Return (map (\<lambda>(_, x). Ok (DoubleResponse (Ok (x + x)))) calls, True, turned stubs (?k + 2 * length calls))"
    using Cons.IH[of "turned stubs ?k" True] Cons.prems by (simp add: add.assoc)
  then show ?case
    using double_server_answers[OF assms(1) Cons.prems assms(2), of to_string overflow_checks now ctx x bad] c
    by (cases bad) simp_all
qed simp

lemma sint_double:
  fixes x :: i32
  assumes "- (2 ^ 31) \<le> 2 * sint x" "2 * sint x < 2 ^ 31"
  shows "sint (x + x) = 2 * sint x"
  using assms by (simp add: sint_word_ariths signed_take_bit_int_eq_self)

section \<open>Property\<close>

text \<open>C34: Although the adding service refuses every second request, every call to the doubling service is answered, and with the
  double of its argument: the stub tries a refused request again, on the next connection, and never needs
  the third attempt that it would make.  From the second call on every call takes exactly two attempts.  The connections
  answer what the server answers, and the doubles fit into an \<^verbatim>\<open>i32\<close>.\<close>

theorem double_calls_double:
  assumes "reaches call hooked_add_server" "cy_elements stubs \<noteq> []" "1 < n"
    and "\<forall>(now, x) \<in> set calls. - (2 ^ 31) \<le> 2 * sint x \<and> 2 * sint x < 2 ^ 31"
  shows "\<exists>ys. double_calls to_string (make_stub n overflow_checks call) ctx calls (bad, stubs) =
      Return (map (\<lambda>y. Ok (DoubleResponse (Ok y))) ys, bad \<or> calls \<noteq> [],
              stubs\<lparr>cy_next := cy_next stubs + of_nat (2 * length calls - (if bad then 0 else 1))\<rparr>) \<and>
    map sint ys = map (\<lambda>(now, x). 2 * sint x) calls"
proof (intro exI conjI)
  let ?ys = "map (\<lambda>(now, x). x + x) calls"
  show "double_calls to_string (make_stub n overflow_checks call) ctx calls (bad, stubs) =
      Return (map (\<lambda>y. Ok (DoubleResponse (Ok y))) ?ys, bad \<or> calls \<noteq> [],
              stubs\<lparr>cy_next := cy_next stubs + of_nat (2 * length calls - (if bad then 0 else 1))\<rparr>)"
    using double_calls_answer[OF assms(1,3,2)] by (simp add: comp_def case_prod_beta)
  show "map sint ?ys = map (\<lambda>(now, x). 2 * sint x) calls"
    using assms(4) sint_double by (auto simp: case_prod_beta)
qed

text \<open>The five calls of \<^verbatim>\<open>main\<close>, over two connections.\<close>

definition two_connections :: "nat cycle" where
  "two_connections = cycle_new [1, 2]"

theorem double_calls_double_witness:
  "\<forall>ctx. \<exists>ys. double_calls (\<lambda>_. ''error'') (make_stub 3 True (\<lambda>_. serve_call hooked_add_server :: (bool, add_request, add_response, nat) stub))
       ctx (replicate 5 (ctx, 1)) (False, two_connections) =
     Return (map (\<lambda>y. Ok (DoubleResponse (Ok y))) ys, True, two_connections\<lparr>cy_next := 9\<rparr>) \<and> map sint ys = [2, 2, 2, 2, 2]"
proof
  fix ctx
  show "\<exists>ys. double_calls (\<lambda>_. ''error'') (make_stub 3 True (\<lambda>_. serve_call hooked_add_server :: (bool, add_request, add_response, nat) stub))
       ctx (replicate 5 (ctx, 1)) (False, two_connections) =
     Return (map (\<lambda>y. Ok (DoubleResponse (Ok y))) ys, True, two_connections\<lparr>cy_next := 9\<rparr>) \<and> map sint ys = [2, 2, 2, 2, 2]"
    using double_calls_double[of "\<lambda>_. serve_call hooked_add_server" two_connections 3 "replicate 5 (ctx, 1)" "\<lambda>_. ''error''" True ctx False]
    by (simp add: reaches_def two_connections_def cycle_new_def numeral_eq_Suc)
qed

end
