(* ===== verification/Fake_Channel.thy ===== *)
theory Fake_Channel
  imports Max_Requests
begin

text \<open>
  \<^verbatim>\<open>tarpc/src/server/testing.rs\<close>: the channel that the unit tests of the limits use.  It hands out the requests that
  were pushed into it, and keeps what is sent.  The two ends of its cancellation channel, which nothing uses,
  are left out.
\<close>

section \<open>State and operations\<close>

record ('q, 'req, 'resp, 'e) fake_channel =
  fk_stream :: "('req tracked_request, 'e) result list"
  fk_sink :: "'resp response list"
  fk_config :: server_config
  fk_in_flight_requests :: "'q server_in_flight"

definition fake_default :: "'q delay_queue \<Rightarrow> ('q, 'req, 'resp, 'e) fake_channel" where
  "fake_default dq = \<lparr>fk_stream = [], fk_sink = [], fk_config = server_config_default, fk_in_flight_requests = server_in_flight_default dq\<rparr>"

definition fake_poll_next ::
  "('q, 'req, 'resp, 'e) fake_channel \<Rightarrow> ('req tracked_request, 'e) result option poll \<times> ('q, 'req, 'resp, 'e) fake_channel" where
  "fake_poll_next c =
     (case fk_stream c of
        [] \<Rightarrow> (Ready None, c)
      | r # rs \<Rightarrow> (Ready (Some r), c\<lparr>fk_stream := rs\<rparr>))"

text \<open>The sink of a \<^verbatim>\<open>VecDeque\<close> is always ready and takes everything.\<close>

definition fake_start_send ::
  "'q delay_queue \<Rightarrow> ('q, 'req, 'resp, 'e) fake_channel \<Rightarrow> 'resp response \<Rightarrow>
   ((unit, 'e) result \<times> ('q, 'req, 'resp, 'e) fake_channel) outcome" where
  "fake_start_send dq c response =
     obind (srv_remove_request dq (fk_in_flight_requests c) (request_id response)) (\<lambda>(_, f).
       Return (Ok (), c\<lparr>fk_in_flight_requests := f, fk_sink := fk_sink c @ [response]\<rparr>))"

definition fake_channel_ops ::
  "'q delay_queue \<Rightarrow> (('q, 'req, 'resp, 'e) fake_channel, 'req, 'resp, 'e) channel" where
  "fake_channel_ops dq =
     \<lparr>ch_config = fk_config,
      ch_in_flight_requests = (\<lambda>c. server_len (fk_in_flight_requests c)),
      ch_poll_next = (\<lambda>c. Return (fake_poll_next c)),
      ch_poll_ready = (\<lambda>c. (Ready (Ok ()), c)),
      ch_start_send = fake_start_send dq,
      ch_poll_flush = (\<lambda>c. (Ready (Ok ()), c)),
      ch_poll_close = (\<lambda>c. (Ready (Ok ()), c))\<rparr>"

text \<open>\<open>h\<close> is the abort handle that is made for the request, \<open>now\<close> the clock.\<close>

definition push_req ::
  "abort_handle \<Rightarrow> instant \<Rightarrow> ('q, 'req, 'resp, 'e) fake_channel \<Rightarrow> u64 \<Rightarrow> 'req \<Rightarrow> ('q, 'req, 'resp, 'e) fake_channel" where
  "push_req h now c i m =
     c\<lparr>fk_stream := fk_stream c @
         [Ok \<lparr>tk_request = \<lparr>request_context = \<lparr>deadline = now, trace_context = trace_context_default\<rparr>, id = i, message = m\<rparr>,
              tk_abort_registration = h, tk_span = 0, tk_response_guard = \<lparr>rg_request_id = i, rg_cancel = False\<rparr>\<rparr>]\<rparr>"

definition is_done :: "'a option poll \<Rightarrow> bool" where
  "is_done p \<longleftrightarrow> (case p of Ready None \<Rightarrow> True | _ \<Rightarrow> False)"

section \<open>A full limit refuses everything\<close>

text \<open>A request whose id is not tracked is refused without a change to what is tracked.\<close>

lemma fake_start_send_untracked:
  assumes "request_id response \<notin> server_ids (fk_in_flight_requests c)"
  shows "fake_start_send dq c response = Return (Ok (), c\<lparr>fk_sink := fk_sink c @ [response]\<rparr>)"
proof -
  have "map_of (srv_request_data (fk_in_flight_requests c)) (request_id response) = None"
    using assms by (simp add: server_ids_def map_of_eq_None_keys)
  then show ?thesis by (simp add: fake_start_send_def srv_remove_request_def)
qed

lemma full_turn:
  assumes "mr_max_in_flight_requests m \<le> server_len (fk_in_flight_requests (mr_inner m))"
  shows "max_requests_turn (fake_channel_ops dq) m =
    (case fk_stream (mr_inner m) of
       [] \<Rightarrow> Return (Break (Ready None), m)
     | Err e # rs \<Rightarrow> Return (Break (Ready (Some (Err e))), m\<lparr>mr_inner := (mr_inner m)\<lparr>fk_stream := rs\<rparr>\<rparr>)
     | Ok t # rs \<Rightarrow> obind (fake_start_send dq ((mr_inner m)\<lparr>fk_stream := rs\<rparr>) (throttle_response t)) (\<lambda>(res, s).
         case res of Err e \<Rightarrow> Return (Break (Ready (Some (Err e))), m\<lparr>mr_inner := s\<rparr>) | Ok _ \<Rightarrow> Return (Continue, m\<lparr>mr_inner := s\<rparr>)))"
  using assms
  by (auto simp: max_requests_turn_def fake_channel_ops_def fake_poll_next_def split: list.splits result.splits)

lemma full_limit_refuses:
  assumes "mr_max_in_flight_requests m \<le> server_len (fk_in_flight_requests (mr_inner m))"
    and "fk_stream (mr_inner m) = map Ok ts" "\<And>t. t \<in> set ts \<Longrightarrow> id (tk_request t) \<notin> server_ids (fk_in_flight_requests (mr_inner m))"
    and "length ts < n"
  shows "max_requests_poll_next n (fake_channel_ops dq) m =
    Return (Ready None, m\<lparr>mr_inner := (mr_inner m)\<lparr>fk_stream := [], fk_sink := fk_sink (mr_inner m) @ map throttle_response ts\<rparr>\<rparr>)"
  using assms
proof (induction ts arbitrary: m n)
  case Nil
  then obtain n' where n: "n = Suc n'" by (cases n) auto
  from Nil have "m\<lparr>mr_inner := (mr_inner m)\<lparr>fk_stream := [], fk_sink := fk_sink (mr_inner m)\<rparr>\<rparr> = m" by simp
  with Nil n show ?case by (simp add: max_requests_poll_next_def full_turn)
next
  case (Cons t ts)
  then obtain n' where n: "n = Suc n'" by (cases n) auto
  let ?c = "(mr_inner m)\<lparr>fk_stream := map Ok ts\<rparr>"
  let ?m = "m\<lparr>mr_inner := ?c\<lparr>fk_sink := fk_sink (mr_inner m) @ [throttle_response t]\<rparr>\<rparr>"
  have sent: "fake_start_send dq ?c (throttle_response t) = Return (Ok (), ?c\<lparr>fk_sink := fk_sink (mr_inner m) @ [throttle_response t]\<rparr>)"
    using Cons.prems(3)[of t] fake_start_send_untracked[of "throttle_response t" ?c dq] by (simp add: throttle_response_def)
  have "max_requests_poll_next n' (fake_channel_ops dq) ?m =
      Return (Ready None, ?m\<lparr>mr_inner := (mr_inner ?m)\<lparr>fk_stream := [], fk_sink := fk_sink (mr_inner ?m) @ map throttle_response ts\<rparr>\<rparr>)"
    by (rule Cons.IH) (use Cons.prems n in auto)
  with sent Cons.prems(1,2) n show ?case by (simp add: max_requests_poll_next_def full_turn)
qed

end
