(* ===== verification/Test_Support.thy ===== *)
theory Test_Support
  imports Runtime "HOL-Library.Code_Target_Nat"
begin

text \<open>
  What the unit tests of the crate share.  A test is an outcome: it panics where an assertion fails, or where the code
  under test does.  Instants are counted in nanoseconds, so numbers are evaluated in binary.
\<close>

text \<open>The fuel of a loop: more turns than any test needs.\<close>

abbreviation turns :: nat where
  "turns \<equiv> 9"

text \<open>The receiving end of a queue whose senders may all be gone.\<close>

fun queue_poll :: "bool \<Rightarrow> 'a list \<Rightarrow> 'a option poll" where
  "queue_poll open [] = (if open then Pending else Ready None)"
| "queue_poll open (x # xs) = Ready (Some x)"

text \<open>\<^verbatim>\<open>assert!\<close>, \<^verbatim>\<open>unwrap\<close> and the patterns of \<^verbatim>\<open>assert_matches!\<close>.\<close>

definition assert :: "bool \<Rightarrow> unit outcome" where
  "assert b = (if b then Return () else Panic)"

definition unwrap :: "(('a, 'e) result \<times> 's) outcome \<Rightarrow> ('a \<times> 's) outcome" where
  "unwrap m = obind m (\<lambda>(r, s). case r of Ok a \<Rightarrow> Return (a, s) | Err _ \<Rightarrow> Panic)"

fun is_pending :: "'a poll \<Rightarrow> bool" where
  "is_pending Pending = True"
| "is_pending (Ready _) = False"

fun is_item :: "('a, 'e) result option poll \<Rightarrow> bool" where
  "is_item (Ready (Some (Ok _))) = True"
| "is_item _ = False"

definition take_item :: "('a, 'e) result option poll \<Rightarrow> 'a outcome" where
  "take_item p = (case p of Ready (Some (Ok r)) \<Rightarrow> Return r | _ \<Rightarrow> Panic)"

end
