(* ===== verification/Client_Tests.thy ===== *)
theory Client_Tests
  imports Test_Support Client_Call Memory_Transport
begin

text \<open>
  The unit tests of \<^verbatim>\<open>client.rs\<close>, run on the definitions that model the code they test.
\<close>

section \<open>A desk\<close>

text \<open>The world of a test: the queue to the dispatch task with its one slot, the permits that were reserved on it, whether its
  sender and its receiver are there and whether the receiver was closed, the canceled ids, the two directions of the transport,
  and the one-shot channels: what was sent on them, and which receivers are closed.  \<open>dk_next_request_id\<close> is the counter of
  the channel.\<close>

record 'e desk =
  dk_pending :: "string dispatch_request list"
  dk_permits :: nat
  dk_sender :: bool
  dk_receiver :: bool
  dk_pending_closed :: bool
  dk_canceled :: "u64 list"
  dk_out :: "string client_message list"
  dk_in :: "string response list"
  dk_answers :: "(oneshot \<times> (string, 'e rpc_error) result) list"
  dk_closed :: "oneshot list"
  dk_next_request_id :: u64

definition desk_new :: "'e desk" where
  "desk_new = \<lparr>dk_pending = [], dk_permits = 0, dk_sender = True, dk_receiver = True, dk_pending_closed = False, dk_canceled = [],
     dk_out = [], dk_in = [], dk_answers = [], dk_closed = [], dk_next_request_id = 0\<rparr>"

text \<open>A queue is at its end when its sender is gone, or when it was closed and no permit is outstanding.\<close>

definition desk_env ::
  "('e desk, string client_message, string response, 'e) transport \<Rightarrow> ('e desk, ref_queue, string, string, 'e) client_env" where
  "desk_env transport =
     \<lparr>ce_transport = transport,
      ce_pending_poll_recv = (\<lambda>w.
        (queue_poll (dk_sender w \<and> \<not> (dk_pending_closed w \<and> dk_permits w = 0)) (dk_pending w), w\<lparr>dk_pending := tl (dk_pending w)\<rparr>)),
      ce_pending_close = (\<lambda>w. w\<lparr>dk_pending_closed := True\<rparr>),
      ce_canceled_poll_recv = (\<lambda>w. (queue_poll (dk_sender w) (dk_canceled w), w\<lparr>dk_canceled := tl (dk_canceled w)\<rparr>)),
      ce_is_closed = (\<lambda>w os. os \<in> set (dk_closed w)),
      ce_send = (\<lambda>w os r. if os \<in> set (dk_closed w) then w else w\<lparr>dk_answers := (os, r) # dk_answers w\<rparr>),
      ce_now = (\<lambda>w. 0),
      ce_delay_queue = ref_delay_queue,
      ce_error_type = 0\<rparr>"

definition desk_call_env :: "('e desk, string, string, 'e) call_env" where
  "desk_call_env =
     \<lparr>cl_current_span = (\<lambda>w. 0), cl_active_span = (\<lambda>w sp. None), cl_random_span_id = (\<lambda>w. (5, w)),
      cl_oneshot = (\<lambda>w. (0, w)),
      cl_send_poll = (\<lambda>dr w.
        if \<not> dk_receiver w then (Ready (Err dr), w)
        else if length (dk_pending w) + dk_permits w < 1 then (Ready (Ok ()), w\<lparr>dk_pending := dk_pending w @ [dr]\<rparr>)
        else (Pending, w)),
      cl_response_poll = (\<lambda>os w. (case map_of (dk_answers w) os of Some r \<Rightarrow> Ready (Some r) | None \<Rightarrow> Pending, w)),
      cl_close = (\<lambda>w os. w\<lparr>dk_closed := os # dk_closed w\<rparr>),
      cl_cancellation =
        \<lparr>un_send = (\<lambda>w i. (Ok (), w\<lparr>dk_canceled := dk_canceled w @ [i]\<rparr>)),
         un_poll_recv = (\<lambda>w. (queue_poll (dk_sender w) (dk_canceled w), w\<lparr>dk_canceled := tl (dk_canceled w)\<rparr>))\<rparr>\<rparr>"

type_synonym 'e desk_state = "('e desk, ref_queue, 'e) dispatch"

definition desk_dispatch :: "'e desk_state" where
  "desk_dispatch = \<lparr>d_world = desk_new, d_in_flight = client_in_flight_default ref_delay_queue, d_config = client_config_default,
     d_terminal_error = None\<rparr>"

definition at_desk :: "('e desk \<Rightarrow> 'e desk) \<Rightarrow> 'e desk_state \<Rightarrow> 'e desk_state" where
  "at_desk g d = d\<lparr>d_world := g (d_world d)\<rparr>"

abbreviation drop_channel :: "'e desk_state \<Rightarrow> 'e desk_state" where
  "drop_channel \<equiv> at_desk (\<lambda>w. w\<lparr>dk_sender := False\<rparr>)"

text \<open>The caller's guard acts on the same world.\<close>

definition drop_guard :: "call_guard \<Rightarrow> 'e desk_state \<Rightarrow> 'e desk_state" where
  "drop_guard g = at_desk (\<lambda>w. cs_world (call_guard_drop desk_call_env g \<lparr>cs_world = w, cs_next_request_id = dk_next_request_id w\<rparr>))"

definition await_response :: "call_guard \<Rightarrow> 'e desk_state \<Rightarrow> (string, 'e rpc_error) result outcome" where
  "await_response g d =
     (case call_await desk_call_env g \<lparr>cs_world = d_world d, cs_next_request_id = 0\<rparr> of
        (Inl r, _) \<Rightarrow> Return r
      | (Inr _, _) \<Rightarrow> Panic)"

text \<open>\<^verbatim>\<open>transport::channel::unbounded\<close>, the client's end of it; the server's end stays open in every test.\<close>

definition desk_transport :: "(string memory_error desk, string client_message, string response, string memory_error) transport" where
  "desk_transport = unbounded_channel
     \<lparr>us_send = (\<lambda>w m. (Ok (), w\<lparr>dk_out := dk_out w @ [m]\<rparr>)), us_is_closed = (\<lambda>w. False)\<rparr>
     (\<lambda>w. (queue_poll True (dk_in w), w\<lparr>dk_in := tl (dk_in w)\<rparr>))"

abbreviation memory :: "(string memory_error desk, ref_queue, string, string, string memory_error) client_env" where
  "memory \<equiv> desk_env desk_transport"

definition send_from_server :: "string response \<Rightarrow> 'e desk_state \<Rightarrow> 'e desk_state" where
  "send_from_server r = at_desk (\<lambda>w. w\<lparr>dk_in := dk_in w @ [r]\<rparr>)"

section \<open>A transport that always errs\<close>

datatype transport_error = TransportRead | TransportReady | TransportWrite | TransportFlush | TransportClose

definition always_error_transport :: "transport_error \<Rightarrow> ('w, 'out, 'inn, transport_error) transport" where
  "always_error_transport cause =
     \<lparr>tr_poll_next = (\<lambda>w. (if cause = TransportRead then Ready (Some (Err cause)) else Pending, w)),
      tr_poll_ready = (\<lambda>w. (case cause of
          TransportReady \<Rightarrow> Ready (Err cause)
        | TransportFlush \<Rightarrow> Pending
        | _ \<Rightarrow> Ready (Ok ()), w)),
      tr_start_send = (\<lambda>w m. (if cause = TransportWrite then Err cause else Ok (), w)),
      tr_poll_flush = (\<lambda>w. (Ready (if cause = TransportFlush then Err cause else Ok ()), w)),
      tr_poll_close = (\<lambda>w. (Ready (if cause = TransportClose then Err cause else Ok ()), w))\<rparr>"

definition erring :: "transport_error \<Rightarrow> (transport_error desk, ref_queue, string, string, transport_error) client_env" where
  "erring cause = desk_env (always_error_transport cause)"

section \<open>Requests by hand\<close>

text \<open>The request and its guard, with the next id of the channel; the one-shot channel is \<open>os\<close>.\<close>

definition make_request :: "string \<Rightarrow> oneshot \<Rightarrow> 'e desk \<Rightarrow> (string dispatch_request \<times> call_guard \<times> 'e desk) outcome" where
  "make_request request os w =
     obind (context_current 0 None None) (\<lambda>ctx.
       let i = dk_next_request_id w
       in Return (\<lparr>dr_ctx = ctx, dr_span = 0, dr_request_id = i, dr_request = request, dr_response_completion = os\<rparr>,
                  \<lparr>cg_response = os, cg_request_id = i, cg_cancel = True\<rparr>, w\<lparr>dk_next_request_id := i + 1\<rparr>))"

definition send_request :: "'e desk_state \<Rightarrow> string \<Rightarrow> oneshot \<Rightarrow> (call_guard \<times> 'e desk_state) outcome" where
  "send_request d request os =
     obind (make_request request os (d_world d)) (\<lambda>(dr, g, w).
       case cl_send_poll desk_call_env dr w of
         (Ready (Ok _), w) \<Rightarrow> Return (g, d\<lparr>d_world := w\<rparr>)
       | _ \<Rightarrow> Panic)"

definition reserve_for_send :: "'e desk_state \<Rightarrow> 'e desk_state" where
  "reserve_for_send = at_desk (\<lambda>w. w\<lparr>dk_permits := dk_permits w + 1\<rparr>)"

definition permit_send :: "'e desk_state \<Rightarrow> string \<Rightarrow> oneshot \<Rightarrow> (call_guard \<times> 'e desk_state) outcome" where
  "permit_send d request os =
     obind (make_request request os (d_world d)) (\<lambda>(dr, g, w).
       Return (g, d\<lparr>d_world := w\<lparr>dk_permits := dk_permits w - 1, dk_pending := dk_pending w @ [dr]\<rparr>\<rparr>))"

text \<open>\<^verbatim>\<open>PollTest::ready\<close>.\<close>

fun poll_ready :: "('a, 'e) result option poll \<Rightarrow> 'a option outcome" where
  "poll_ready (Ready (Some (Ok t))) = Return (Some t)"
| "poll_ready (Ready None) = Return None"
| "poll_ready (Ready (Some (Err e))) = Panic"
| "poll_ready Pending = Panic"

section \<open>Tests\<close>

definition test_response_completes_request_future :: "unit outcome" where
  "test_response_completes_request_future =
     obind (context_current 0 None None) (\<lambda>ctx.
     obind (unwrap (insert_request ref_delay_queue 0 (client_in_flight_default ref_delay_queue) 0 ctx 0 0)) (\<lambda>(_, f).
     let d = send_from_server \<lparr>request_id = 0, response_message = Ok ''Resp''\<rparr> (desk_dispatch\<lparr>d_in_flight := f\<rparr>)
     in obind (dispatch_poll turns memory d) (\<lambda>(p, d).
        obind (assert (is_pending p)) (\<lambda>_.
        assert (map_of (dk_answers (d_world d)) 0 = Some (Ok ''Resp''))))))"

abbreviation guard_3 :: call_guard where
  "guard_3 \<equiv> \<lparr>cg_response = 0, cg_request_id = 3, cg_cancel = True\<rparr>"

definition test_dispatch_response_cancels_on_drop :: "unit outcome" where
  "test_dispatch_response_cancels_on_drop =
     (let d = drop_guard guard_3 (desk_dispatch :: transport_error desk_state)
      in assert (fst (canceled_poll_recv (cl_cancellation desk_call_env) (d_world d)) = Ready (Some 3)))"

definition test_dispatch_response_doesnt_cancel_after_complete :: "unit outcome" where
  "test_dispatch_response_doesnt_cancel_after_complete =
     (let w = ce_send (erring TransportRead) desk_new 0 (Ok ''well done'')
      in case call_await desk_call_env guard_3 \<lparr>cs_world = w, cs_next_request_id = 0\<rparr> of
           (Inl (Ok _), s) \<Rightarrow>
             assert (fst (canceled_poll_recv (cl_cancellation desk_call_env) ((cs_world s)\<lparr>dk_sender := False\<rparr>)) = Ready None)
         | _ \<Rightarrow> Panic)"

definition test_stage_request :: "unit outcome" where
  "test_stage_request =
     obind (send_request desk_dispatch ''hi'' 0) (\<lambda>(_, d).
     obind (poll_next_request turns memory d) (\<lambda>(p, d).
     obind (poll_ready p) (\<lambda>req.
     obind (case req of Some req \<Rightarrow> Return req | None \<Rightarrow> Panic) (\<lambda>req.
     assert (dr_request_id req = 0 \<and> dr_request req = ''hi'')))))"

definition test_stage_request_channel_dropped_doesnt_panic :: "unit outcome" where
  "test_stage_request_channel_dropped_doesnt_panic =
     obind (send_request desk_dispatch ''hi'' 0) (\<lambda>(g, d).
     obind (dispatch_poll turns memory (drop_channel (drop_guard g d))) (\<lambda>(p, d).
     obind (assert (\<not> is_pending p)) (\<lambda>_.
     obind (dispatch_poll turns memory (send_from_server \<lparr>request_id = 0, response_message = Ok ''hello''\<rparr> d)) (\<lambda>(p, d).
     assert (p = Ready (Ok ()))))))"

definition test_response_future_dropped_is_canceled_before_sending :: "unit outcome" where
  "test_response_future_dropped_is_canceled_before_sending =
     obind (send_request desk_dispatch ''hi'' 0) (\<lambda>(g, d).
     obind (poll_next_request turns memory (drop_channel (drop_guard g d))) (\<lambda>(p, d).
     obind (poll_ready p) (\<lambda>req.
     assert (req = None))))"

definition test_response_future_dropped_is_canceled_after_sending :: "unit outcome" where
  "test_response_future_dropped_is_canceled_after_sending =
     obind (send_request desk_dispatch ''hi'' 0) (\<lambda>(g, d).
     obind (client_pump_write turns memory d) (\<lambda>(p, d).
     obind (poll_ready p) (\<lambda>wrote.
     obind (assert (wrote \<noteq> None \<and> \<not> client_is_empty (d_in_flight d))) (\<lambda>_.
     obind (poll_next_cancellation turns memory (drop_guard g d)) (\<lambda>(p, d).
     assert (is_item p \<and> client_is_empty (d_in_flight d)))))))"

definition test_stage_request_response_closed_skipped :: "unit outcome" where
  "test_stage_request_response_closed_skipped =
     obind (send_request desk_dispatch ''hi'' 0) (\<lambda>(g, d).
     obind (poll_next_request turns memory (at_desk (\<lambda>w. cl_close desk_call_env w (cg_response g)) d)) (\<lambda>(p, d).
     assert (is_pending p)))"

definition test_permit_before_transport_error :: "unit outcome" where
  "test_permit_before_transport_error =
     obind (dispatch_poll turns (erring TransportFlush) (reserve_for_send desk_dispatch)) (\<lambda>(p, d).
     obind (assert (is_pending p)) (\<lambda>_.
     obind (permit_send d ''hi'' 0) (\<lambda>(g, d).
     obind (dispatch_poll turns (erring TransportFlush) d) (\<lambda>(p, d).
     obind (assert (p = Ready (Err (ErrFlush TransportFlush)))) (\<lambda>_.
     obind (await_response g d) (\<lambda>r.
     assert (case r of Err (Channel _) \<Rightarrow> True | _ \<Rightarrow> False)))))))"

definition test_shutdown :: "unit outcome" where
  "test_shutdown =
     obind (context_current 0 None None) (\<lambda>ctx.
     case call_poll desk_call_env (Unstarted ctx ''hi'')
            \<lparr>cs_world = (desk_new\<lparr>dk_receiver := False\<rparr> :: transport_error desk), cs_next_request_id = 0\<rparr> of
       (Inl r, _) \<Rightarrow> assert (r = Err Shutdown)
     | (Inr _, _) \<Rightarrow> Panic)"

definition test_transport_error_write :: "unit outcome" where
  "test_transport_error_write =
     obind (send_request desk_dispatch ''hi'' 0) (\<lambda>(g, d).
     obind (dispatch_poll turns (erring TransportWrite) d) (\<lambda>(p, d).
     obind (assert (is_pending p)) (\<lambda>_.
     obind (await_response g d) (\<lambda>r.
     assert (r = Err (Send TransportWrite))))))"

definition test_transport_error_read :: "unit outcome" where
  "test_transport_error_read =
     obind (send_request desk_dispatch ''hi'' 0) (\<lambda>(g, d).
     obind (client_pump_write turns (erring TransportRead) d) (\<lambda>(p, d).
     obind (assert (p = Ready (Some (Ok ())))) (\<lambda>_.
     obind (dispatch_poll turns (erring TransportRead) d) (\<lambda>(p, d).
     obind (assert (p = Ready (Err (ErrRead TransportRead)))) (\<lambda>_.
     obind (await_response g d) (\<lambda>r.
     assert (case r of Err (Channel _) \<Rightarrow> True | _ \<Rightarrow> False)))))))"

text \<open>The channel of the next two tests is bound to \<^verbatim>\<open>_\<close>, and so dropped at once.\<close>

definition test_transport_error_ready :: "unit outcome" where
  "test_transport_error_ready =
     obind (dispatch_poll turns (erring TransportReady) (drop_channel desk_dispatch)) (\<lambda>(p, d).
     assert (p = Ready (Err (ErrReady TransportReady))))"

definition test_transport_error_flush :: "unit outcome" where
  "test_transport_error_flush =
     obind (dispatch_poll turns (erring TransportFlush) (drop_channel desk_dispatch)) (\<lambda>(p, d).
     assert (p = Ready (Err (ErrFlush TransportFlush))))"

definition test_transport_error_close :: "unit outcome" where
  "test_transport_error_close =
     obind (dispatch_poll turns (erring TransportClose) (drop_channel desk_dispatch)) (\<lambda>(p, d).
     assert (p = Ready (Err (ErrClose TransportClose))))"

section \<open>The tests pass\<close>

definition dispatch_tests :: "(string \<times> unit outcome) list" where
  "dispatch_tests =
     [(''response_completes_request_future'', test_response_completes_request_future),
      (''dispatch_response_cancels_on_drop'', test_dispatch_response_cancels_on_drop),
      (''dispatch_response_doesnt_cancel_after_complete'', test_dispatch_response_doesnt_cancel_after_complete),
      (''stage_request'', test_stage_request),
      (''stage_request_channel_dropped_doesnt_panic'', test_stage_request_channel_dropped_doesnt_panic),
      (''stage_request_response_future_dropped_is_canceled_before_sending'',
       test_response_future_dropped_is_canceled_before_sending),
      (''stage_request_response_future_dropped_is_canceled_after_sending'',
       test_response_future_dropped_is_canceled_after_sending),
      (''stage_request_response_closed_skipped'', test_stage_request_response_closed_skipped)]"

definition transport_error_tests :: "(string \<times> unit outcome) list" where
  "transport_error_tests =
     [(''test_permit_before_transport_error'', test_permit_before_transport_error),
      (''test_shutdown'', test_shutdown),
      (''test_transport_error_write'', test_transport_error_write),
      (''test_transport_error_read'', test_transport_error_read),
      (''test_transport_error_ready'', test_transport_error_ready),
      (''test_transport_error_flush'', test_transport_error_flush),
      (''test_transport_error_close'', test_transport_error_close)]"

lemma dispatch_tests_pass: "list_all (\<lambda>(_, t). t = Return ()) dispatch_tests"
  by code_simp

lemma transport_error_tests_pass: "list_all (\<lambda>(_, t). t = Return ()) transport_error_tests"
  by code_simp

end
