(* ===== verification/Server_Tests.thy ===== *)
theory Server_Tests
  imports Test_Support Fake_Channel Execute Memory_Transport Request_Hooks
begin

text \<open>
  The unit tests of the server, \<^verbatim>\<open>mod tests\<close> of \<^verbatim>\<open>server.rs\<close>, \<^verbatim>\<open>server/in_flight_requests.rs\<close> and
  \<^verbatim>\<open>server/limits/requests_per_channel.rs\<close>, run on the definitions that model the code they test.
\<close>

section \<open>A bench\<close>

text \<open>The world of a test: two in-memory channels, with a capacity when they are bounded, the cancellation channel, the
  channel of pending responses, abort handles, and a clock that is advanced by hand.\<close>

record bench =
  bn_up :: "unit client_message list"
  bn_peer :: bool
  bn_down :: "unit response list"
  bn_canceled :: "u64 list"
  bn_responses :: "unit response list"
  bn_handles :: nat
  bn_aborted :: "abort_handle list"
  bn_now :: instant

definition bench_new :: bench where
  "bench_new = \<lparr>bn_up = [], bn_peer = True, bn_down = [], bn_canceled = [], bn_responses = [], bn_handles = 0, bn_aborted = [], bn_now = 0\<rparr>"

definition bench_recv :: "(bench, unit client_message) receiver" where
  "bench_recv w = (queue_poll (bn_peer w) (bn_up w), w\<lparr>bn_up := tl (bn_up w)\<rparr>)"

definition bench_unbounded :: "(bench, unit response, unit client_message, string memory_error) transport" where
  "bench_unbounded = unbounded_channel
     \<lparr>us_send = (\<lambda>w r. if bn_peer w then (Ok (), w\<lparr>bn_down := bn_down w @ [r]\<rparr>) else (Err r, w)), us_is_closed = (\<lambda>w. \<not> bn_peer w)\<rparr>
     bench_recv"

text \<open>A bounded channel of \<^verbatim>\<open>futures\<close> has a slot for each sender beside its buffer; a full one is neither ready nor flushed.\<close>

definition bench_bounded :: "nat \<Rightarrow> (bench, unit response, unit client_message, string memory_error) transport" where
  "bench_bounded capacity = bounded_channel
     \<lparr>bs_poll_ready = (\<lambda>w. (if length (bn_down w) \<le> capacity then Ready (Ok ()) else Pending, w)),
      bs_start_send = (\<lambda>w r. (Ok (), w\<lparr>bn_down := bn_down w @ [r]\<rparr>)),
      bs_poll_flush = (\<lambda>w. (if length (bn_down w) \<le> capacity then Ready (Ok ()) else Pending, w)),
      bs_poll_close = (\<lambda>w. (Ready (Ok ()), w))\<rparr>
     bench_recv"

definition bench_abort :: "bench abort_ops" where
  "bench_abort = \<lparr>ab_new_pair = (\<lambda>w. (bn_handles w, w\<lparr>bn_handles := Suc (bn_handles w)\<rparr>)),
                  ab_abort = (\<lambda>w h. w\<lparr>bn_aborted := h # bn_aborted w\<rparr>)\<rparr>"

definition bench_env ::
  "(bench, unit response, unit client_message, string memory_error) transport \<Rightarrow> (bench, ref_queue, unit, unit, string memory_error) server_env" where
  "bench_env transport =
     \<lparr>se_transport = transport,
      se_canceled_poll_recv = (\<lambda>w. (queue_poll True (bn_canceled w), w\<lparr>bn_canceled := tl (bn_canceled w)\<rparr>)),
      se_abort = bench_abort,
      se_now = bn_now,
      se_new_span = (\<lambda>w c. (0, w)),
      se_active_span = (\<lambda>w sp. None),
      se_random_span_id = (\<lambda>w. (9, w)),
      se_delay_queue = ref_delay_queue\<rparr>"

abbreviation bench_server :: "(bench, ref_queue, unit, unit, string memory_error) server_env" where
  "bench_server \<equiv> bench_env bench_unbounded"

definition bench_poll_recv :: "bench \<Rightarrow> unit response option poll \<times> bench" where
  "bench_poll_recv w = (queue_poll True (bn_responses w), w\<lparr>bn_responses := tl (bn_responses w)\<rparr>)"

definition bench_cancel :: "bench \<Rightarrow> u64 \<Rightarrow> bench" where
  "bench_cancel w i = w\<lparr>bn_canceled := bn_canceled w @ [i]\<rparr>"

definition bench_exec :: "(bench, unit, unit) exec_env" where
  "bench_exec =
     \<lparr>ex_serve = (\<lambda>c m w. (Ready (Ok ()), w)),
      ex_send_poll = (\<lambda>r w. (Ready True, w\<lparr>bn_responses := bn_responses w @ [r]\<rparr>)),
      ex_cancel = bench_cancel,
      ex_is_aborted = (\<lambda>w h. h \<in> set (bn_aborted w)),
      ex_abortable = (\<lambda>body h pw.
        if h \<in> set (bn_aborted (snd pw)) then (Ready (Err Aborted), pw)
        else case body pw of (Ready u, pw') \<Rightarrow> (Ready (Ok u), pw') | (Pending, pw') \<Rightarrow> (Pending, pw'))\<rparr>"

type_synonym bench_channel = "(bench, ref_queue) base_channel"

definition test_channel :: bench_channel where
  "test_channel = base_channel_new ref_delay_queue server_config_default bench_new"

definition bench_request :: "bench \<Rightarrow> u64 \<Rightarrow> unit request outcome" where
  "bench_request w i = obind (context_current (bn_now w) None None) (\<lambda>ctx. Return \<lparr>request_context = ctx, id = i, message = ()\<rparr>)"

definition start :: "(bench, ref_queue, unit, unit, string memory_error) server_env \<Rightarrow> bench_channel \<Rightarrow> u64 \<Rightarrow>
    ((unit tracked_request, server_already_exists_error) result \<times> bench_channel) outcome" where
  "start env b i = obind (bench_request (b_world b) i) (base_start_request env b)"

definition at_world :: "(bench \<Rightarrow> bench) \<Rightarrow> bench_channel \<Rightarrow> bench_channel" where
  "at_world g b = b\<lparr>b_world := g (b_world b)\<rparr>"

definition advance :: "nat \<Rightarrow> bench_channel \<Rightarrow> bench_channel" where
  "advance secs = at_world (\<lambda>w. w\<lparr>bn_now := bn_now w + secs * nanos_per_sec\<rparr>)"

definition fake_request :: "bench_channel \<Rightarrow> bench_channel outcome" where
  "fake_request b = obind (bench_request (b_world b) 0) (\<lambda>r. Return (at_world (\<lambda>w. w\<lparr>bn_up := bn_up w @ [Request r]\<rparr>) b))"

abbreviation was_aborted :: "bench_channel \<Rightarrow> unit tracked_request \<Rightarrow> bool" where
  "was_aborted b t \<equiv> tk_abort_registration t \<in> set (bn_aborted (b_world b))"

abbreviation in_flight :: "bench_channel \<Rightarrow> nat" where
  "in_flight b \<equiv> server_len (b_in_flight b)"

section \<open>Tests of the base channel\<close>

definition test_duplicate_request_returns_error :: "unit outcome" where
  "test_duplicate_request_returns_error =
     obind (unwrap (start bench_server test_channel 0)) (\<lambda>(_, b).
     obind (start bench_server b 0) (\<lambda>(r, b).
     assert (r = Err ServerAlreadyExistsError)))"

definition test_poll_next_aborts_multiple_requests :: "unit outcome" where
  "test_poll_next_aborts_multiple_requests =
     obind (unwrap (start bench_server test_channel 0)) (\<lambda>(req0, b).
     obind (unwrap (start bench_server b 1)) (\<lambda>(req1, b).
     obind (base_poll_next turns bench_server (advance 1000 b)) (\<lambda>(p, b).
     obind (assert (is_pending p)) (\<lambda>_.
     assert (was_aborted b req0 \<and> was_aborted b req1)))))"

definition test_poll_next_aborts_canceled_request :: "unit outcome" where
  "test_poll_next_aborts_canceled_request =
     obind (unwrap (start bench_server test_channel 0)) (\<lambda>(req, b).
     obind (base_poll_next turns bench_server
       (at_world (\<lambda>w. w\<lparr>bn_up := bn_up w @ [Cancel trace_context_default 0]\<rparr>) b)) (\<lambda>(p, b).
     obind (assert (is_pending p)) (\<lambda>_.
     assert (was_aborted b req))))"

definition test_closed_transport_and_in_flight_request_returns_pending :: "unit outcome" where
  "test_closed_transport_and_in_flight_request_returns_pending =
     obind (unwrap (start bench_server test_channel 0)) (\<lambda>(_, b).
     obind (base_poll_next turns bench_server (at_world (\<lambda>w. w\<lparr>bn_peer := False\<rparr>) b)) (\<lambda>(p, b).
     assert (is_pending p)))"

definition test_closed_transport_and_no_in_flight_requests_returns_closed :: "unit outcome" where
  "test_closed_transport_and_no_in_flight_requests_returns_closed =
     obind (base_poll_next turns bench_server (at_world (\<lambda>w. w\<lparr>bn_peer := False\<rparr>) test_channel)) (\<lambda>(p, b).
     assert (is_done p))"

definition test_poll_next_yields_request :: "unit outcome" where
  "test_poll_next_yields_request =
     obind (fake_request test_channel) (\<lambda>b.
     obind (base_poll_next turns bench_server b) (\<lambda>(p, b).
     assert (is_item p)))"

definition test_poll_next_aborts_request_and_yields_request :: "unit outcome" where
  "test_poll_next_aborts_request_and_yields_request =
     obind (unwrap (start bench_server test_channel 0)) (\<lambda>(req, b).
     obind (fake_request (advance 1000 b)) (\<lambda>b.
     obind (base_poll_next turns bench_server b) (\<lambda>(p, b).
     obind (assert (is_item p)) (\<lambda>_.
     assert (was_aborted b req)))))"

definition test_start_send_removes_in_flight_request :: "unit outcome" where
  "test_start_send_removes_in_flight_request =
     obind (unwrap (start bench_server test_channel 0)) (\<lambda>(_, b).
     obind (assert (in_flight b = 1)) (\<lambda>_.
     obind (unwrap (base_start_send bench_server b \<lparr>request_id = 0, response_message = Ok ()\<rparr>)) (\<lambda>(_, b).
     assert (in_flight b = 0))))"

section \<open>Tests of the stream of requests\<close>

definition requests_next :: "bench_channel \<Rightarrow> ((unit in_flight_request, string memory_error channel_error) result option poll \<times> bench_channel) outcome" where
  "requests_next = requests_poll_next turns (base_channel_ops turns bench_server) (base_recv bench_poll_recv) (base_cancel bench_cancel)"

definition test_in_flight_request_drop_cancels_request :: "unit outcome" where
  "test_in_flight_request_drop_cancels_request =
     obind (fake_request test_channel) (\<lambda>b.
     obind (requests_next b) (\<lambda>(p, b).
     obind (take_item p) (\<lambda>request.
     obind (base_poll_next turns bench_server (response_guard_drop (base_cancel bench_cancel) (if_response_guard request) b)) (\<lambda>(p, b).
     obind (assert (is_pending p)) (\<lambda>_.
     assert (in_flight b = 0))))))"

definition test_successful_execute_doesnt_cancel_request :: "unit outcome" where
  "test_successful_execute_doesnt_cancel_request =
     obind (fake_request test_channel) (\<lambda>b.
     obind (requests_next b) (\<lambda>(p, b).
     obind (take_item p) (\<lambda>request.
     let (finished, w) = execution_life bench_exec [\<lambda>w. w] (execution_start request) (b_world b)
     in obind (assert finished) (\<lambda>_.
        assert (is_pending (fst (se_canceled_poll_recv bench_server w)))))))"

definition test_bounded_requests ::
  "nat \<Rightarrow> (bench, ref_queue, unit, unit, string memory_error) server_env \<times> bench_channel" where
  "test_bounded_requests capacity =
     (bench_env (bench_bounded capacity), base_channel_new ref_delay_queue \<lparr>pending_response_buffer = capacity + 1\<rparr> bench_new)"

text \<open>A response that was written to the transport, and one that waits to be written.\<close>

definition write_response ::
  "(bench, ref_queue, unit, unit, string memory_error) server_env \<Rightarrow> bench_channel \<Rightarrow> bench_channel outcome" where
  "write_response env b =
     obind (unwrap (start env b 0)) (\<lambda>(_, b).
     obind (unwrap (base_start_send env b \<lparr>request_id = 0, response_message = Ok ()\<rparr>)) (\<lambda>(_, b).
     Return b))"

definition respond_later :: "bench_channel \<Rightarrow> bench_channel" where
  "respond_later = at_world (\<lambda>w. w\<lparr>bn_responses := bn_responses w @ [\<lparr>request_id = 1, response_message = Ok ()\<rparr>]\<rparr>)"

definition test_poll_next_response_returns_pending_when_buffer_full :: "unit outcome" where
  "test_poll_next_response_returns_pending_when_buffer_full =
     (let (env, b) = test_bounded_requests 0
      in obind (write_response env b) (\<lambda>b.
         obind (unwrap (start env (respond_later b) 1)) (\<lambda>(_, b).
         obind (poll_next_response turns (base_channel_ops turns env) (base_recv bench_poll_recv) b) (\<lambda>(p, b).
         assert (is_pending p)))))"

definition test_pump_write_returns_pending_when_buffer_full :: "unit outcome" where
  "test_pump_write_returns_pending_when_buffer_full =
     (let (env, b) = test_bounded_requests 0
      in obind (write_response env b) (\<lambda>b.
         obind (unwrap (start env b 1)) (\<lambda>(_, b).
         obind (requests_pump_write turns (base_channel_ops turns env) (base_recv bench_poll_recv) True (respond_later b)) (\<lambda>(p, b).
         obind (assert (is_pending p)) (\<lambda>_.
         assert (case bench_poll_recv (b_world b) of (Ready (Some _), _) \<Rightarrow> True | _ \<Rightarrow> False))))))"

definition test_requests_pump_read :: "unit outcome" where
  "test_requests_pump_read =
     obind (fake_request test_channel) (\<lambda>b.
     obind (requests_pump_read (base_channel_ops turns bench_server) b) (\<lambda>(p, b).
     obind (assert (is_item p)) (\<lambda>_.
     assert (in_flight b = 1))))"

section \<open>Tests of hooks\<close>

definition test_serve :: "unit outcome" where
  "test_serve =
     obind (context_current 0 None None) (\<lambda>ctx.
     assert (fst (serve (\<lambda>ctx (i :: nat) w. (Ok i, w)) ctx 7 ()) = Ok 7))"

definition test_serve_before_mutates_context :: "unit outcome" where
  "test_serve_before_mutates_context =
     obind (context_current 0 None None) (\<lambda>ctx.
     let some_time = 37 * nanos_per_sec; some_other_time = 83 * nanos_per_sec;
         srv = serve (\<lambda>ctx (i :: nat) seen. (Ok i, deadline ctx = some_time));
         set_deadline = (\<lambda>d ctx req w. (Ok (), d, ctx\<lparr>deadline := d\<rparr>, w));
         (r, seen) = hook_then_serve set_deadline srv some_time (ctx\<lparr>deadline := some_other_time\<rparr>) 7 False
     in assert (seen \<and> (case r of Ok _ \<Rightarrow> True | Err _ \<Rightarrow> False)))"

definition test_serve_before_error_aborts_request :: "unit outcome" where
  "test_serve_before_error_aborts_request =
     obind (context_current 0 None None) (\<lambda>ctx.
     let srv = serve (\<lambda>ctx (i :: nat) called. (Ok i, True));
         hook = (\<lambda>h ctx req w. (Err \<lparr>kind = Other, detail = ''oops''\<rparr>, h, ctx, w));
         (r, called) = hook_then_serve hook srv () ctx 7 False
     in assert (\<not> called \<and> (case r of Ok _ \<Rightarrow> False | Err _ \<Rightarrow> True)))"

text \<open>The hook of the next test keeps the time at which a request started, and tells how long it took.\<close>

definition test_serve_before_and_after :: "unit outcome" where
  "test_serve_before_and_after =
     obind (context_current 0 None None) (\<lambda>ctx.
     let srv = serve (\<lambda>ctx (i :: nat) w. (Ok i, w));
         before = (\<lambda>started ctx req (now, told). (Ok (), now, ctx, (now, told)));
         after = (\<lambda>started ctx resp (now, told). (started, ctx, resp, (now, told @ [now - started])));
         (r, _) = hook_then_serve_then_hook before after srv (0 :: instant) ctx 7 (0 :: instant, [])
     in assert (case r of Ok _ \<Rightarrow> True | Err _ \<Rightarrow> False))"

section \<open>Tests of the in-flight table\<close>

type_synonym bench_table = "ref_queue server_in_flight"

definition table_new :: bench_table where
  "table_new = server_in_flight_default ref_delay_queue"

definition table_start :: "bench \<Rightarrow> bench_table \<Rightarrow> u64 \<Rightarrow> instant \<Rightarrow> (abort_handle \<times> bench_table \<times> bench) outcome" where
  "table_start w f i dl = unwrap (srv_start_request ref_delay_queue bench_abort (bn_now w) w f i dl 0)"

definition table_poll :: "bench \<Rightarrow> bench_table \<Rightarrow> u64 option poll \<times> bench_table \<times> bench" where
  "table_poll w f = srv_poll_expired ref_delay_queue bench_abort (bn_now w) w f"

definition test_start_request_increases_len :: "unit outcome" where
  "test_start_request_increases_len =
     obind (assert (server_len table_new = 0)) (\<lambda>_.
     obind (table_start bench_new table_new 0 0) (\<lambda>(h, f, w).
     assert (server_len f = 1)))"

definition test_polling_expired_aborts :: "unit outcome" where
  "test_polling_expired_aborts =
     obind (table_start bench_new table_new 0 0) (\<lambda>(h, f, w).
     let (p, f, w) = table_poll (w\<lparr>bn_now := bn_now w + 1000 * nanos_per_sec\<rparr>) f
     in obind (assert (case p of Ready (Some _) \<Rightarrow> True | _ \<Rightarrow> False)) (\<lambda>_.
        assert (h \<in> set (bn_aborted w) \<and> server_len f = 0)))"

definition test_cancel_request_aborts :: "unit outcome" where
  "test_cancel_request_aborts =
     obind (table_start bench_new table_new 0 0) (\<lambda>(h, f, w).
     obind (srv_cancel_request ref_delay_queue bench_abort w f 0) (\<lambda>(found, f, w).
     assert (found \<and> h \<in> set (bn_aborted w) \<and> server_len f = 0)))"

definition test_remove_request_doesnt_abort :: "unit outcome" where
  "test_remove_request_doesnt_abort =
     obind (assert (dq_is_empty ref_delay_queue (srv_deadlines table_new))) (\<lambda>_.
     obind (table_start bench_new table_new 0 (10 * nanos_per_sec)) (\<lambda>(h, f, w).
     let (p, f, w) = table_poll w f
     in obind (assert (is_pending p \<and> \<not> dq_is_empty ref_delay_queue (srv_deadlines f))) (\<lambda>_.
        obind (srv_remove_request ref_delay_queue f 0) (\<lambda>(removed, f).
        obind (assert (removed \<noteq> None \<and> dq_is_empty ref_delay_queue (srv_deadlines f))) (\<lambda>_.
        let (p, f, w) = table_poll w f
        in assert (is_done p \<and> h \<notin> set (bn_aborted w) \<and> server_len f = 0))))))"

section \<open>Tests of the limit\<close>

type_synonym throttler = "(ref_queue, int, int, string) fake_channel max_requests"

definition throttler_new :: "nat \<Rightarrow> throttler" where
  "throttler_new n = \<lparr>mr_max_in_flight_requests = n, mr_inner = fake_default ref_delay_queue\<rparr>"

abbreviation throttler_ops :: "(throttler, int, int, string) channel" where
  "throttler_ops \<equiv> max_requests_ops turns (fake_channel_ops ref_delay_queue)"

definition throttler_start :: "throttler \<Rightarrow> u64 \<Rightarrow> throttler outcome" where
  "throttler_start t i =
     obind (unwrap (srv_start_request ref_delay_queue bench_abort 0 bench_new (fk_in_flight_requests (mr_inner t)) i nanos_per_sec 0)) (\<lambda>(h, f, w).
     Return (t\<lparr>mr_inner := (mr_inner t)\<lparr>fk_in_flight_requests := f\<rparr>\<rparr>))"

definition throttler_push :: "throttler \<Rightarrow> u64 \<Rightarrow> int \<Rightarrow> throttler" where
  "throttler_push t i m = t\<lparr>mr_inner := push_req 0 0 (mr_inner t) i m\<rparr>"

definition test_throttler_in_flight_requests :: "unit outcome" where
  "test_throttler_in_flight_requests =
     obind (fold (\<lambda>i t. obind t (\<lambda>t. throttler_start t i)) [0, 1, 2, 3, 4] (Return (throttler_new 0))) (\<lambda>t.
     assert (ch_in_flight_requests throttler_ops t = 5))"

definition test_throttler_poll_next_done :: "unit outcome" where
  "test_throttler_poll_next_done =
     obind (ch_poll_next throttler_ops (throttler_new 0)) (\<lambda>(p, t). assert (is_done p))"

definition test_throttler_poll_next_some :: "unit outcome" where
  "test_throttler_poll_next_some =
     (let t = throttler_push (throttler_new 1) 0 1; (ready, t) = ch_poll_ready throttler_ops t
      in obind (assert (\<not> is_pending ready)) (\<lambda>_.
         obind (ch_poll_next throttler_ops t) (\<lambda>(p, t).
         assert (case p of Ready (Some (Ok r)) \<Rightarrow> id (tk_request r) = 0 \<and> message (tk_request r) = 1 | _ \<Rightarrow> False))))"

definition test_throttler_poll_next_throttled :: "unit outcome" where
  "test_throttler_poll_next_throttled =
     obind (ch_poll_next throttler_ops (throttler_push (throttler_new 0) 1 1)) (\<lambda>(p, t).
     obind (assert (is_done p)) (\<lambda>_.
     assert (case fk_sink (mr_inner t) of
               [resp] \<Rightarrow> request_id resp = 1 \<and> (case response_message resp of Err _ \<Rightarrow> True | Ok _ \<Rightarrow> False)
             | _ \<Rightarrow> False)))"

text \<open>\<^verbatim>\<open>PendingSink\<close>: a channel that is never ready; its stream and its configuration are not implemented,
  and the limit never asks for the configuration.\<close>

definition pending_sink :: "(unit, int, int, error_kind) channel" where
  "pending_sink =
     \<lparr>ch_config = (\<lambda>_. server_config_default), ch_in_flight_requests = (\<lambda>_. 0), ch_poll_next = (\<lambda>_. Panic),
      ch_poll_ready = (\<lambda>u. (Pending, u)), ch_start_send = (\<lambda>u _. Return (Err WouldBlock, u)),
      ch_poll_flush = (\<lambda>u. (Pending, u)), ch_poll_close = (\<lambda>u. (Pending, u))\<rparr>"

definition test_throttler_poll_next_throttled_sink_not_ready :: "unit outcome" where
  "test_throttler_poll_next_throttled_sink_not_ready =
     obind (ch_poll_next (max_requests_ops turns pending_sink) \<lparr>mr_max_in_flight_requests = 0, mr_inner = ()\<rparr>) (\<lambda>(p, t).
     assert (is_pending p))"

definition test_throttler_start_send :: "unit outcome" where
  "test_throttler_start_send =
     obind (throttler_start (throttler_new 0) 0) (\<lambda>t.
     obind (unwrap (ch_start_send throttler_ops t \<lparr>request_id = 0, response_message = Ok 1\<rparr>)) (\<lambda>(_, t).
     assert (server_len (fk_in_flight_requests (mr_inner t)) = 0 \<and>
             fk_sink (mr_inner t) = [\<lparr>request_id = 0, response_message = Ok 1\<rparr>])))"

section \<open>The tests pass\<close>

text \<open>The tests of each file, by name.\<close>

definition channel_tests :: "(string \<times> unit outcome) list" where
  "channel_tests =
     [(''base_channel_start_send_duplicate_request_returns_error'', test_duplicate_request_returns_error),
      (''base_channel_poll_next_aborts_multiple_requests'', test_poll_next_aborts_multiple_requests),
      (''base_channel_poll_next_aborts_canceled_request'', test_poll_next_aborts_canceled_request),
      (''base_channel_with_closed_transport_and_in_flight_request_returns_pending'', test_closed_transport_and_in_flight_request_returns_pending),
      (''base_channel_with_closed_transport_and_no_in_flight_requests_returns_closed'', test_closed_transport_and_no_in_flight_requests_returns_closed),
      (''base_channel_poll_next_yields_request'', test_poll_next_yields_request),
      (''base_channel_poll_next_aborts_request_and_yields_request'', test_poll_next_aborts_request_and_yields_request),
      (''base_channel_start_send_removes_in_flight_request'', test_start_send_removes_in_flight_request),
      (''in_flight_request_drop_cancels_request'', test_in_flight_request_drop_cancels_request),
      (''in_flight_requests_successful_execute_doesnt_cancel_request'', test_successful_execute_doesnt_cancel_request),
      (''requests_poll_next_response_returns_pending_when_buffer_full'', test_poll_next_response_returns_pending_when_buffer_full),
      (''requests_pump_write_returns_pending_when_buffer_full'', test_pump_write_returns_pending_when_buffer_full),
      (''requests_pump_read'', test_requests_pump_read)]"

lemma channel_tests_pass: "list_all (\<lambda>(_, t). t = Return ()) channel_tests"
  by code_simp

definition hook_tests :: "(string \<times> unit outcome) list" where
  "hook_tests =
     [(''test_serve'', test_serve),
      (''serve_before_mutates_context'', test_serve_before_mutates_context),
      (''serve_before_and_after'', test_serve_before_and_after),
      (''serve_before_error_aborts_request'', test_serve_before_error_aborts_request)]"

lemma hook_tests_pass: "list_all (\<lambda>(_, t). t = Return ()) hook_tests"
  by code_simp

definition table_tests :: "(string \<times> unit outcome) list" where
  "table_tests =
     [(''start_request_increases_len'', test_start_request_increases_len),
      (''polling_expired_aborts'', test_polling_expired_aborts),
      (''cancel_request_aborts'', test_cancel_request_aborts),
      (''remove_request_doesnt_abort'', test_remove_request_doesnt_abort)]"

lemma table_tests_pass: "list_all (\<lambda>(_, t). t = Return ()) table_tests"
  by code_simp

definition throttler_tests :: "(string \<times> unit outcome) list" where
  "throttler_tests =
     [(''throttler_in_flight_requests'', test_throttler_in_flight_requests),
      (''throttler_poll_next_done'', test_throttler_poll_next_done),
      (''throttler_poll_next_some'', test_throttler_poll_next_some),
      (''throttler_poll_next_throttled'', test_throttler_poll_next_throttled),
      (''throttler_poll_next_throttled_sink_not_ready'', test_throttler_poll_next_throttled_sink_not_ready),
      (''throttler_start_send'', test_throttler_start_send)]"

lemma throttler_tests_pass: "list_all (\<lambda>(_, t). t = Return ()) throttler_tests"
  by code_simp

end
