(* ===== verification/Filter_Tests.thy ===== *)
theory Filter_Tests
  imports Test_Support Channels_Per_Key
begin

text \<open>
  The unit tests of \<^verbatim>\<open>server/limits/channels_per_key.rs\<close>, run on the definitions of \<open>Channels_Per_Key\<close>.  The two tests of
  the stream and the sink of a tracked channel have a bare queue in the place of the channel and are left out.
\<close>

section \<open>A filter\<close>

text \<open>The world: the channels that the listener has, whether its sender is still there, and the keys that were dropped.
  A channel of a test is its key.\<close>

record 'k filter_world =
  fw_channels :: "'k list"
  fw_open :: bool
  fw_dropped :: "'k list"

definition filter_env :: "('k filter_world, 'k, 'k) channels_env" where
  "filter_env =
     \<lparr>mk_listener_poll_next = (\<lambda>w. (queue_poll (fw_open w) (fw_channels w), w\<lparr>fw_channels := tl (fw_channels w)\<rparr>)),
      mk_dropped_poll_recv = (\<lambda>w. (queue_poll True (fw_dropped w), w\<lparr>fw_dropped := tl (fw_dropped w)\<rparr>)),
      mk_dropped_send = (\<lambda>w k. w\<lparr>fw_dropped := fw_dropped w @ [k]\<rparr>),
      mk_keymaker = (\<lambda>c. c)\<rparr>"

type_synonym 'k key_filter = "('k filter_world, 'k) max_channels"

definition filter_new :: "bool \<Rightarrow> 'k key_filter" where
  "filter_new open = max_channels_new 2 \<lparr>fw_channels = [], fw_open = open, fw_dropped = []\<rparr>"

definition filter_push :: "string key_filter \<Rightarrow> string key_filter" where
  "filter_push mc = mc\<lparr>mc_world := (mc_world mc)\<lparr>fw_channels := fw_channels (mc_world mc) @ [''key'']\<rparr>\<rparr>"

text \<open>A tracker that is held without a channel is dropped as the one of a channel is.\<close>

definition tracker_drop :: "'k \<Rightarrow> tracker \<Rightarrow> 'k key_filter \<Rightarrow> 'k key_filter" where
  "tracker_drop k t mc = tracked_channel_drop filter_env \<lparr>tc_inner = k, tc_tracker = t, tc_key = k\<rparr> mc"

abbreviation strong_count :: "'k key_filter \<Rightarrow> (string, string) tracked_channel \<Rightarrow> nat" where
  "strong_count mc c \<equiv> mc_strong mc (tc_tracker c)"

section \<open>Tests\<close>

definition test_tracker_drop :: "unit outcome" where
  "test_tracker_drop =
     (let (t, mc) = new_tracker (1 :: int) (filter_new True);
          mc = tracker_drop 1 t mc
      in assert (fst (mk_dropped_poll_recv filter_env (mc_world mc)) = Ready (Some 1)))"

definition test_increment_channels_for_key :: "unit outcome" where
  "test_increment_channels_for_key =
     obind (unwrap (Return (increment_channels_for_key ''key'' (filter_new False)))) (\<lambda>(tracker1, mc).
     obind (assert (mc_strong mc tracker1 = 1)) (\<lambda>_.
     obind (unwrap (Return (increment_channels_for_key ''key'' mc))) (\<lambda>(tracker2, mc).
     obind (assert (mc_strong mc tracker1 = 2)) (\<lambda>_.
     let (r, mc) = increment_channels_for_key ''key'' mc
     in obind (assert (r = Err ''key'')) (\<lambda>_.
        assert (mc_strong (tracker_drop ''key'' tracker2 mc) tracker1 = 1))))))"

definition test_handle_new_channel :: "unit outcome" where
  "test_handle_new_channel =
     obind (unwrap (Return (handle_new_channel filter_env ''key'' (filter_new False)))) (\<lambda>(channel1, mc).
     obind (assert (strong_count mc channel1 = 1)) (\<lambda>_.
     obind (unwrap (Return (handle_new_channel filter_env ''key'' mc))) (\<lambda>(channel2, mc).
     obind (assert (strong_count mc channel1 = 2)) (\<lambda>_.
     let (r, mc) = handle_new_channel filter_env ''key'' mc
     in obind (assert (r = Err ''key'')) (\<lambda>_.
        assert (strong_count (tracked_channel_drop filter_env channel2 mc) channel1 = 1))))))"

definition test_poll_listener :: "unit outcome" where
  "test_poll_listener =
     (let (p, mc) = poll_listener filter_env (filter_push (filter_new True))
      in obind (take_item p) (\<lambda>channel1.
         obind (assert (strong_count mc channel1 = 1)) (\<lambda>_.
         let (p, mc) = poll_listener filter_env (filter_push mc)
         in obind (take_item p) (\<lambda>_.
            obind (assert (strong_count mc channel1 = 2)) (\<lambda>_.
            let (p, mc) = poll_listener filter_env (filter_push mc)
            in obind (assert (p = Ready (Some (Err ''key'')))) (\<lambda>_.
               assert (strong_count mc channel1 = 2)))))))"

definition test_poll_closed_channels :: "unit outcome" where
  "test_poll_closed_channels =
     (let (p, mc) = poll_listener filter_env (filter_push (filter_new True))
      in obind (take_item p) (\<lambda>channel.
         obind (assert (length (mc_key_counts mc) = 1)) (\<lambda>_.
         obind (poll_closed_channels filter_env (tracked_channel_drop filter_env channel mc)) (\<lambda>(p, mc).
         obind (assert (p = Ready ())) (\<lambda>_.
         assert (mc_key_counts mc = []))))))"

definition test_filter_stream :: "unit outcome" where
  "test_filter_stream =
     obind (max_channels_poll_next turns filter_env (filter_push (filter_new True))) (\<lambda>(p, mc).
     obind (case p of Ready (Some channel) \<Rightarrow> Return channel | _ \<Rightarrow> Panic) (\<lambda>channel.
     obind (assert (length (mc_key_counts mc) = 1)) (\<lambda>_.
     obind (max_channels_poll_next turns filter_env (tracked_channel_drop filter_env channel mc)) (\<lambda>(p, mc).
     obind (assert (is_pending p)) (\<lambda>_.
     assert (mc_key_counts mc = []))))))"

text \<open>The tests, by name, and whether each passes.\<close>

definition filter_tests :: "(string \<times> unit outcome) list" where
  "filter_tests =
     [(''tracker_drop'', test_tracker_drop),
      (''channel_filter_increment_channels_for_key'', test_increment_channels_for_key),
      (''channel_filter_handle_new_channel'', test_handle_new_channel),
      (''channel_filter_poll_listener'', test_poll_listener),
      (''channel_filter_poll_closed_channels'', test_poll_closed_channels),
      (''channel_filter_stream'', test_filter_stream)]"

lemma filter_tests_pass: "list_all (\<lambda>(_, t). t = Return ()) filter_tests"
  by code_simp

end
