(* ===== verification/Stub_Tests.thy ===== *)
theory Stub_Tests
  imports Test_Support Stubs Service_Macro
begin

text \<open>
  The unit tests of \<^verbatim>\<open>client/stub/load_balance.rs\<close>, \<^verbatim>\<open>server/request_hook/before.rs\<close>, \<^verbatim>\<open>context.rs\<close> and of the macro crate,
  \<^verbatim>\<open>plugins/src/lib.rs\<close>.
\<close>

section \<open>Stubs and hooks\<close>

definition test_cycle :: "unit outcome" where
  "test_cycle =
     obind (cycle_next (cycle_new [1 :: int, 2, 3])) (\<lambda>(x, c).
     obind (assert (x = 1)) (\<lambda>_.
     obind (cycle_next c) (\<lambda>(x, c).
     obind (assert (x = 2)) (\<lambda>_.
     obind (cycle_next c) (\<lambda>(x, c).
     obind (assert (x = 3)) (\<lambda>_.
     obind (cycle_next c) (\<lambda>(x, c).
     assert (x = 1))))))))"

text \<open>A hook is the number it expects in the cell and the one it puts there; the world is the cell, and whether the hooks
  found what they expected.\<close>

definition cell_hook :: "(int \<times> bool, int \<times> int, int) before_request" where
  "cell_hook = (\<lambda>(expected, new) ctx req (i, ok). (Ok (), (expected, new), ctx, (new, ok \<and> i = expected)))"

definition test_before_request_list :: "unit outcome" where
  "test_before_request_list =
     obind (context_current 0 None None) (\<lambda>ctx.
     let srv = before_serving cell_hook (before_then (before_then before_new (0, 1)) (1, 2)) (serve (\<lambda>ctx i w. (Ok (i + 1 :: int), w)));
         (response, i, ok) = srv ctx 1 (0, True)
     in obind (assert (case response of Ok _ \<Rightarrow> True | Err _ \<Rightarrow> False)) (\<lambda>_.
        assert (i = 2 \<and> ok)))"

section \<open>Deadlines\<close>

text \<open>The tests hold as long as less than a second passes between the readings of the clock; here, none.\<close>

definition test_serialize :: "instant \<Rightarrow> unit outcome" where
  "test_serialize now = assert (serialize_deadline now (now + 10 * nanos_per_sec) > 9 * nanos_per_sec)"

definition test_deserialize :: "instant \<Rightarrow> unit outcome" where
  "test_deserialize now =
     obind (deserialize_deadline now (10 * nanos_per_sec)) (\<lambda>d.
     assert (d > now + 9 * nanos_per_sec))"

section \<open>Names\<close>

text \<open>Upper and lower case of ASCII letters.\<close>

definition ascii_upper :: "char \<Rightarrow> string" where
  "ascii_upper c = (let n = of_char c :: nat in [if 97 \<le> n \<and> n \<le> 122 then char_of (n - 32) else c])"

definition ascii_lower :: "char \<Rightarrow> string" where
  "ascii_lower c = (let n = of_char c :: nat in [if 65 \<le> n \<and> n \<le> 90 then char_of (n + 32) else c])"

abbreviation camel :: "string \<Rightarrow> string" where
  "camel \<equiv> snake_to_camel ascii_upper ascii_lower"

definition test_snake_to_camel_basic :: "unit outcome" where
  "test_snake_to_camel_basic = assert (camel ''abc_def'' = ''AbcDef'')"

definition test_snake_to_camel_underscore_suffix :: "unit outcome" where
  "test_snake_to_camel_underscore_suffix = assert (camel ''abc_def_'' = ''AbcDef'')"

definition test_snake_to_camel_underscore_prefix :: "unit outcome" where
  "test_snake_to_camel_underscore_prefix = assert (camel ''_abc_def'' = ''AbcDef'')"

definition test_snake_to_camel_underscore_consecutive :: "unit outcome" where
  "test_snake_to_camel_underscore_consecutive = assert (camel ''abc__def'' = ''AbcDef'')"

definition test_snake_to_camel_capital_in_middle :: "unit outcome" where
  "test_snake_to_camel_capital_in_middle = assert (camel ''aBc_dEf'' = ''AbcDef'')"

section \<open>The tests pass\<close>

definition stub_tests :: "(string \<times> unit outcome) list" where
  "stub_tests = [(''test_cycle'', test_cycle), (''before_request_list'', test_before_request_list)]"

definition macro_tests :: "(string \<times> unit outcome) list" where
  "macro_tests =
     [(''snake_to_camel_basic'', test_snake_to_camel_basic),
      (''snake_to_camel_underscore_suffix'', test_snake_to_camel_underscore_suffix),
      (''snake_to_camel_underscore_prefix'', test_snake_to_camel_underscore_prefix),
      (''snake_to_camel_underscore_consecutive'', test_snake_to_camel_underscore_consecutive),
      (''snake_to_camel_capital_in_middle'', test_snake_to_camel_capital_in_middle)]"

lemma stub_tests_pass: "list_all (\<lambda>(_, t). t = Return ()) stub_tests"
  by code_simp

lemma macro_tests_pass: "list_all (\<lambda>(_, t). t = Return ()) macro_tests"
  by code_simp

lemma deadline_tests_pass:
  assumes "now + 10 * nanos_per_sec < instant_limit"
  shows "test_serialize now = Return ()" "test_deserialize now = Return ()"
  using assms by (simp_all add: test_serialize_def test_deserialize_def assert_def serialize_deadline_def deserialize_deadline_def
      time_until_def duration_since_def instant_add_def)

end
