(* ===== verification/Unit_Tests.thy ===== *)
theory Unit_Tests
  imports Client_Tests Server_Tests Filter_Tests Stub_Tests
begin

text \<open>
  The unit tests of the crates, file by file: the model passes each of them.
\<close>

definition unit_tests :: "(string \<times> (string \<times> unit outcome) list) list" where
  "unit_tests =
     [(''client.rs'', dispatch_tests @ transport_error_tests),
      (''server.rs'', hook_tests @ channel_tests),
      (''server/in_flight_requests.rs'', table_tests),
      (''server/limits/requests_per_channel.rs'', throttler_tests),
      (''server/limits/channels_per_key.rs'', filter_tests),
      (''client/stub/load_balance.rs, server/request_hook/before.rs'', stub_tests),
      (''plugins/src/lib.rs'', macro_tests)]"

lemmas files_pass =
  dispatch_tests_pass transport_error_tests_pass hook_tests_pass channel_tests_pass table_tests_pass throttler_tests_pass
  filter_tests_pass stub_tests_pass macro_tests_pass

text \<open>The model agrees with the code on what the authors of the code expect of it: every unit test of the client, of
  the server, of its table of requests, of both limits, of the round robin and the lists of hooks, and of the names that
  the macro makes, translated to the model, returns without a panic, which an assertion that does not hold would be.
  They are fifty-five.\<close>

lemma unit_tests_pass:
  "list_all (\<lambda>(file, tests). list_all (\<lambda>(name, test). test = Return ()) tests) unit_tests \<and>
   sum_list (map (\<lambda>(file, tests). length tests) unit_tests) = 55"
proof
  show "list_all (\<lambda>(file, tests). list_all (\<lambda>(name, test). test = Return ()) tests) unit_tests"
    using files_pass by (simp add: unit_tests_def)
  show "sum_list (map (\<lambda>(file, tests). length tests) unit_tests) = 55"
    by (simp add: unit_tests_def dispatch_tests_def transport_error_tests_def hook_tests_def channel_tests_def table_tests_def
        throttler_tests_def filter_tests_def stub_tests_def macro_tests_def)
qed

end
