(* ===== verification/Path_Tests.thy ===== *)
theory Path_Tests
  imports Test_Support Unix_Transport
begin

text \<open>
  The unit tests of the temporary paths of \<^verbatim>\<open>serde_transport.rs\<close>.  They hold in every temporary directory, whatever random
  number is drawn: \<open>dir\<close> and \<open>x\<close> are parameters of the tests.
\<close>

section \<open>Files\<close>

text \<open>The file system is the list of paths that exist.  Removing a file that is not there is an error, which the code ignores.\<close>

definition remove_file :: "string \<Rightarrow> string list \<Rightarrow> (unit, unit io_error) result \<times> string list" where
  "remove_file path fs = (if path \<in> set fs then (Ok (), filter (\<lambda>p. p \<noteq> path) fs) else (Err (IoOs NotFound), fs))"

definition file_name :: "string \<Rightarrow> string" where
  "file_name path = rev (takeWhile (\<lambda>c. c \<noteq> CHR ''/'') (rev path))"

definition random_path :: "string \<Rightarrow> u64 \<Rightarrow> string" where
  "random_path dir x = fst (temp_path_with_random dir (\<lambda>w. (x, w)) ''test'' ())"

abbreviation drop_path :: "string \<Rightarrow> string list \<Rightarrow> string list" where
  "drop_path \<equiv> temp_path_drop remove_file"

text \<open>Binding a Unix socket makes its file.\<close>

definition file_sockets :: "(string list, string, string, unit, string, unit, unit) socket_env" where
  "file_sockets =
     \<lparr>so_connect = (\<lambda>_. ()), so_connect_poll = (\<lambda>_ fs. (Pending, fs)),
      so_bind = (\<lambda>path fs. if path \<in> set fs then (Err (IoOs AddrInUse), fs) else (Ok path, path # fs)),
      so_local_addr = (\<lambda>path fs. Ok path), so_poll_accept = (\<lambda>_ fs. (Pending, fs))\<rparr>"

section \<open>Tests\<close>

definition test_temp_path_non_random :: "string \<Rightarrow> unit outcome" where
  "test_temp_path_non_random dir =
     (let sock = temp_path_new dir ''test''
      in assert (sock = path_push dir ''test'' \<and> file_name sock = ''test''))"

definition test_temp_path_random :: "string \<Rightarrow> u64 \<Rightarrow> unit outcome" where
  "test_temp_path_random dir x =
     (let sock = random_path dir x; fname = file_name sock
      in assert (take (length dir) sock = dir \<and> take 5 fname = ''test_'' \<and> length fname = 21))"

definition test_temp_path_non_existing :: "string \<Rightarrow> u64 \<Rightarrow> unit outcome" where
  "test_temp_path_non_existing dir x =
     (let sock = random_path dir x; fs = []
      in obind (assert (sock \<notin> set fs)) (\<lambda>_. assert (sock \<notin> set (drop_path sock fs))))"

definition test_temp_path_existing_file :: "string \<Rightarrow> u64 \<Rightarrow> unit outcome" where
  "test_temp_path_existing_file dir x =
     (let sock = random_path dir x; fs = [sock]
      in obind (assert (sock \<in> set fs)) (\<lambda>_. assert (sock \<notin> set (drop_path sock fs))))"

definition test_temp_path_preexisting_file :: "string \<Rightarrow> unit outcome" where
  "test_temp_path_preexisting_file dir =
     (let fs = [path_push dir ''test'']; sock = temp_path_new dir ''test''
      in obind (assert (sock \<in> set fs)) (\<lambda>_. assert (sock \<notin> set (drop_path sock fs))))"

text \<open>What \<^verbatim>\<open>listen\<close> returns is dropped; \<open>env\<close> is any framing.\<close>

definition test_temp_path_for_socket ::
  "(string list, unit, 'frames, 'cfg, unit, string, string, unit) framing_env \<Rightarrow> string \<Rightarrow> u64 \<Rightarrow> unit outcome" where
  "test_temp_path_for_socket env dir x =
     (let sock = random_path dir x; (_, fs) = unix_listen env file_sockets sock (\<lambda>w. ((), w)) []
      in obind (assert (sock \<in> set fs)) (\<lambda>_. assert (sock \<notin> set (drop_path sock fs))))"

section \<open>The tests pass\<close>

text \<open>A name without a separator is appended to a prefix that is empty or ends with one.\<close>

lemma path_push_prefix:
  assumes "CHR ''/'' \<notin> set name"
  obtains pre where "path_push path name = pre @ name" "pre = [] \<or> last pre = CHR ''/''" "take (length path) pre = path"
proof -
  have "take 1 name \<noteq> ''/''" using assms by (cases name) auto
  then show thesis
    using that[of path] that[of "path @ ''/''"] by (cases "path = [] \<or> last path = CHR ''/''") (auto simp: path_push_def)
qed

lemma file_name_push:
  assumes "CHR ''/'' \<notin> set name"
  shows "file_name (path_push path name) = name"
proof -
  obtain pre where pre: "path_push path name = pre @ name" "pre = [] \<or> last pre = CHR ''/''"
    using path_push_prefix[OF assms] .
  have all: "takeWhile (\<lambda>c. c \<noteq> CHR ''/'') (rev name) = rev name" using assms by (auto simp: takeWhile_eq_all_conv)
  have "takeWhile (\<lambda>c. c \<noteq> CHR ''/'') (rev pre) = []" using pre(2) by (cases pre rule: rev_cases) auto
  with pre(1) all assms show ?thesis by (auto simp: file_name_def takeWhile_append)
qed

lemma hex_digit_no_separator: "n < 16 \<Longrightarrow> hex_digit n \<noteq> CHR ''/''"
proof
  assume "n < 16" "hex_digit n = CHR ''/''"
  then have "(of_char (hex_digit n) :: nat) = of_char (CHR ''/'')" by simp
  with \<open>n < 16\<close> show False by (auto simp: hex_digit_def of_char_of split: if_splits)
qed

lemma random_name_no_separator: "CHR ''/'' \<notin> set (''test_'' @ hex_pad16 x)"
proof -
  have "hex_digit (n mod 16) \<noteq> CHR ''/''" for n by (rule hex_digit_no_separator) simp
  then show ?thesis by (fastforce simp: hex_pad16_def)
qed

lemma random_path_push: "random_path dir x = path_push dir (''test_'' @ hex_pad16 x)"
  by (simp add: random_path_def temp_path_with_random_def temp_path_new_def)

lemma removed [simp]: "path \<notin> set (drop_path path fs)"
  by (simp add: temp_path_drop_def remove_file_def)

lemma assert_Return [simp]: "assert b = Return () \<longleftrightarrow> b"
  by (simp add: assert_def)

lemma temp_path_random_passes: "test_temp_path_random dir x = Return ()"
proof -
  obtain pre where "random_path dir x = pre @ ''test_'' @ hex_pad16 x" "take (length dir) pre = dir"
    using path_push_prefix[OF random_name_no_separator, of dir x] random_path_push[of dir x] by metis
  then have "take (length dir) (random_path dir x) = dir" by (metis append_take_drop_id append_eq_conv_conj append.assoc)
  moreover have "file_name (random_path dir x) = ''test_'' @ hex_pad16 x"
    using file_name_push[OF random_name_no_separator] random_path_push by metis
  ultimately show ?thesis by (simp add: test_temp_path_random_def hex_pad16_def)
qed

lemma path_tests_pass:
  "test_temp_path_non_random dir = Return () \<and> test_temp_path_random dir x = Return () \<and>
   test_temp_path_non_existing dir x = Return () \<and> test_temp_path_existing_file dir x = Return () \<and>
   test_temp_path_preexisting_file dir = Return () \<and> test_temp_path_for_socket env dir x = Return ()"
proof (intro conjI)
  show "test_temp_path_non_random dir = Return ()"
    by (simp add: test_temp_path_non_random_def temp_path_new_def file_name_push)
qed (simp_all add: temp_path_random_passes test_temp_path_non_existing_def test_temp_path_existing_file_def
       test_temp_path_preexisting_file_def test_temp_path_for_socket_def temp_path_new_def unix_listen_def unix_listen_on_def
       file_sockets_def assert_def)

end
