(* ===== verification/Spec2Isabelle.thy ===== *)
theory Spec2Isabelle
  imports Client_Theorems Client_Call Server_Theorems Server_Panics Channels_Per_Key Incoming Stubs Memory_Transport
    Serde_Transport Unix_Transport Data_Theorems Trace_Format Service_Macro Served_Calls Pubsub Registry Compression
    Tracing_Example Fake_Channel Unit_Tests Path_Tests
begin

text \<open>
  A verification library of \<^verbatim>\<open>tarpc\<close>, an RPC framework in Rust.

  \<^bold>\<open>The program.\<close>  A client holds clones of a \<^verbatim>\<open>Channel\<close> (\<^verbatim>\<open>tarpc/src/client.rs\<close>).  \<^verbatim>\<open>Channel::call\<close> allots a
  request id and hands the request, with a one-shot channel for the response, to one
  \<^verbatim>\<open>RequestDispatch\<close> task.  The task writes requests and cancellations to a transport, reads
  responses, and keeps a table of the requests in flight with a queue of their deadlines
  (\<^verbatim>\<open>client/in_flight_requests.rs\<close>).  On the server (\<^verbatim>\<open>tarpc/src/server.rs\<close>) a \<^verbatim>\<open>BaseChannel\<close> reads
  messages, keeps the table of tracked requests (\<^verbatim>\<open>server/in_flight_requests.rs\<close>) and writes
  responses; \<^verbatim>\<open>MaxRequests\<close> and \<^verbatim>\<open>MaxChannelsPerKey\<close> (\<^verbatim>\<open>server/limits\<close>) limit it; \<^verbatim>\<open>Requests\<close> turns a channel
  into a stream of handlers, and \<^verbatim>\<open>InFlightRequest::execute\<close> runs a handler that the peer, a deadline
  or its executor can abort.  Around this stand hooks (\<^verbatim>\<open>server/request_hook\<close>), stubs (\<^verbatim>\<open>client/stub\<close>),
  in-memory and serialising transports (\<^verbatim>\<open>transport\<close>, \<^verbatim>\<open>serde_transport.rs\<close>), contexts and traces
  (\<^verbatim>\<open>context.rs\<close>, \<^verbatim>\<open>trace.rs\<close>), messages (\<^verbatim>\<open>lib.rs\<close>) and the macro \<^verbatim>\<open>tarpc::service\<close> (\<^verbatim>\<open>plugins/src/lib.rs\<close>).
  Four of the programs under \<^verbatim>\<open>tarpc/examples\<close> have logic of their own: a publisher with subscribers
  (\<^verbatim>\<open>pubsub.rs\<close>), a registry of services behind one listener (\<^verbatim>\<open>registry.rs\<close>), compression (\<^verbatim>\<open>compression.rs\<close>),
  and a service that calls another through a retrying stub (\<^verbatim>\<open>tracing.rs\<close>).

  \<^bold>\<open>How it is modelled.\<close>  A struct is a record, an enum a datatype, a method a function on the state.
  \<open>Poll\<close>, \<open>Result\<close> and loops that may panic or run on are those of \<open>Prelude\<close>: an operation that may
  panic returns \<open>'a outcome\<close>, and a Rust \<^verbatim>\<open>loop\<close> is \<open>loop n turn\<close>, with \<open>turn\<close> the body and \<open>n\<close> the
  number of turns allowed, \<open>OutOfFuel\<close> beyond it.  \<open>holds\<close> says what is true of the result if there is one and that
  there was no panic; \<open>yields\<close> also that there is a result.  Everything outside the code (transport,
  channels of \<^verbatim>\<open>tokio\<close>, clock, random source, spans, other tasks) is a world \<open>'w\<close> with the
  operations the code calls, given as a record of functions (\<open>client_env\<close>, \<open>server_env\<close>,
  \<open>call_env\<close>, \<open>exec_env\<close>, \<dots>); what is relied on is stated as a named predicate (\<open>delay_queue_laws\<close>,
  \<open>mpsc_laws\<close>, \<open>abortable_laws\<close>, \<open>serde_framed_laws\<close>, \<dots>).  A future is the datatype of the points at which it
  can be suspended.

  \<^bold>\<open>Theories.\<close>
  \<^item> \<open>Prelude\<close>: results, polls, outcomes, loops with their rules, association lists.
  \<^item> \<open>Runtime\<close>: transports, delay queues with their laws and a reference queue; \<open>Deadline_Table\<close>: a table of
    requests together with its queue of deadlines, for both sides.
  \<^item> \<open>Trace_Context\<close>, \<open>Protocol\<close>: \<^verbatim>\<open>trace.rs\<close>, \<^verbatim>\<open>context.rs\<close>, \<^verbatim>\<open>lib.rs\<close>, \<^verbatim>\<open>util/serde.rs\<close>;
    \<open>Data_Theorems\<close>: round trips of contexts, deadlines, error kinds and channel errors; \<open>Trace_Format\<close>: random
    ids, conversions, printing.
  \<^item> \<open>Client_In_Flight\<close>, \<open>Client_Dispatch\<close>: the table and the task.  \<open>Client_Steps\<close>: the task as a step relation;
    \<open>Client_Refinement\<close>: polls are sequences of steps; \<open>Client_Wire\<close>: invariants of the steps (wire
    protocol, accounting, late writes) through one locale; \<open>Client_Liveness\<close>: polls return;
    \<open>Client_Results\<close>: what their results mean; \<open>Client_Theorems\<close>: the properties; \<open>Client_Answers\<close>: where the results that
    callers get come from, and that the ids on the wire are distinct.
  \<^item> \<open>Client_Call\<close>: \<^verbatim>\<open>Channel::call\<close>, its guard and \<^verbatim>\<open>cancellations.rs\<close>.
  \<^item> \<open>Server_In_Flight\<close>, \<open>Channel\<close> (the trait, and its contract as a locale), \<open>Base_Channel\<close>, \<open>Max_Requests\<close>,
    \<open>Requests\<close>, \<open>Execute\<close>: the server; \<open>Server_Wire\<close>: the life of a channel and the effort of a poll;
    \<open>Server_Theorems\<close>: the properties; \<open>Server_Panics\<close>: when a base channel panics, with nothing assumed of the peer.
  \<^item> \<open>Channels_Per_Key\<close>: the limit of channels per key, over the life of a listener and its channels; \<open>Incoming\<close>: tracked channels, stacked limits, streams of
    channels in execution and the task that spawns them.
  \<^item> \<open>Request_Hooks\<close>, \<open>Stubs\<close>: hooks and stubs.
  \<^item> \<open>Memory_Transport\<close>, \<open>Serde_Transport\<close>, \<open>Unix_Transport\<close>: transports, with links as locales.
  \<^item> \<open>End_To_End\<close>: a client's task and a server's channel on one world, over two lossless links.
  \<^item> \<open>Serving\<close>: what the stream of requests, over a channel with or without a limit, promises of the requests it hands out and the
    responses it writes; \<open>Connection\<close>: a server connection, made of such a channel, the stream over it and a pool of handlers,
    with the responses on their way from the handlers to the stream; \<open>Served_Calls\<close>: what a connection writes, and what callers get
    when a client is connected to it.
  \<^item> \<open>Service_Macro\<close>: what \<^verbatim>\<open>tarpc::service\<close> accepts, and what the code it generates does and how it is typed.
  \<^item> \<open>Pubsub\<close>: the tasks of the publisher as steps under its locks, with reachability and an invariant; \<open>Registry\<close>: lists of
    services and the handshake of both ends; \<open>Compression\<close>: compressed messages; \<open>Tracing_Example\<close>:
    services behind a hook that refuses, a retrying stub and a round robin.
  \<^item> \<open>Fake_Channel\<close>: the channel of \<^verbatim>\<open>server/testing.rs\<close>, and that a full limit over it refuses everything; \<open>Test_Support\<close>,
    \<open>Client_Tests\<close>, \<open>Server_Tests\<close>, \<open>Filter_Tests\<close>, \<open>Stub_Tests\<close>, \<open>Path_Tests\<close>, \<open>Unit_Tests\<close>: the unit tests of the crate, run on the model.

  \<^bold>\<open>Interfaces.\<close>  \<open>in_flight_table\<close> is what both tables promise; \<open>dispatch_property\<close> lifts an invariant of
  the client's steps to the life of the task; \<open>channel_contract\<close> is what a \<^verbatim>\<open>Channel\<close> promises of the
  tracked requests, provided by the base channel and passed on by \<^verbatim>\<open>MaxRequests\<close> and \<^verbatim>\<open>TrackedChannel\<close>;
  \<open>requests_contract\<close> extends it for \<^verbatim>\<open>Requests\<close>; \<open>replying_contract\<close> says what the stream relies on to hand out
  only requests that were read and to write only replies of handlers, or refusals of its own; \<open>serving_connection\<close> is a
  connection over such a channel, interpreted on the plain one and on the one with a limit of requests; \<open>lossless_link\<close> is what
  transports promise.

  \<^bold>\<open>What is relied on.\<close>  The theorems hold under these conditions, which the code does not check and the
  theorems name as hypotheses.  Deadlines, of the callers on the client and of arriving requests on the server,
  are within what the delay queue accepts (the \<open>horizon\<close> of \<open>client_env_laws\<close> and \<open>server_env_laws\<close>);
  \<open>Server_Panics\<close> shows what happens otherwise.  The per-key limit of channels holds if no channel of a key
  arrives while the drop notice of that key is queued (\<open>notice_laws\<close>), and a limit of zero admits one channel.
  The publisher is used by subscribers that name no topic twice, from addresses that are not used again
  before the clean-up after their last user, and \<^verbatim>\<open>peer_addr\<close> succeeds (\<open>well_behaved\<close>).  The negotiation of a
  registry runs on a link on which every send succeeds (\<open>connection_laws\<close>), the stubs of \<^verbatim>\<open>tracing.rs\<close> on
  connections that answer what the server answers (\<open>reaches\<close>).  A \<^verbatim>\<open>usize\<close> has 64 bits.

  \<^bold>\<open>What is shown.\<close>  The client task never panics, never has more requests in flight than configured,
  returns from every poll during which finitely many messages arrive, loses no request, and writes
  a request once, a cancellation at most once and only for a request that it wrote, and no request whose
  cancellation it has seen.  A call closes its receiver before it cancels.  A server channel answers a
  request at most once and never one that was canceled; limits hold, alone and stacked; handlers
  respond at most once and report a cancellation exactly if they are dropped early.  Hooks run in order,
  stubs choose as documented, transports deliver in order and once, messages survive
  serialisation where the format allows it, and generated clients agree with generated servers, which
  answer well-typed requests with well-typed responses.  Put together over lossless links, in any order of
  polls and calls, a client and a server never mix up requests: each result of the server that a caller is
  given is the one response to the request of that caller, and with the handlers put in, it is what the
  service returned for the message of that caller; if the server limits its requests, it is that or the refusal
  of the limit.  The unit tests that the authors wrote for this code pass on the model.  With subscribers as above the publisher's maps agree
  at every moment and a message reaches exactly the subscribers of its topic; a registry serves the service registered first
  under a name, and both ends of the handshake know which; a service that refuses every second request is
  always reached through the retrying stub.
  Some theorems show limits of the code: a late drop notice lets a key have up to twice its limit of channels;
  error kinds are garbled by formats with zigzag integers; a server channel panics exactly when it reads
  a new request with a deadline that the delay queue refuses; the round robin jumps when its counter wraps
  around; and the publisher goes down exactly when a subscriber leaves that named a topic twice which
  nobody else has.

  \<^bold>\<open>Fuel.\<close>  Safety theorems hold for every number of turns.  That enough turns exist is proved where the
  code promises to return: twice the messages that arrive plus the requests in flight for the client task,
  \<open>server_effort\<close> for the base channel, the channels and notices that arrive for the stream of channels, the number of refused attempts for the retrying stub, one turn per
  name for the negotiation of a registry.

  \<^bold>\<open>Not modelled.\<close>  Logging and the effects of spans other than the trace context they carry;
  \<^verbatim>\<open>HashMap::compact\<close>, which only changes a capacity; \<^verbatim>\<open>Debug\<close> of structs; wakers (a task may be polled at any
  time); the token parser of the macro and items it emits that do nothing; accessors of sockets; the
  combinators of \<^verbatim>\<open>futures\<close>; tests that need JSON or sockets, and integration tests; and, of the examples, their services, their \<^verbatim>\<open>main\<close> functions and
  the programs that only call the library.
\<close>

end
